(* ===== verification/Prelude.thy ===== *)
theory Prelude
  imports Main "HOL-Library.Word"
begin

text \<open>
  The prelude of the development: the machine types the kernel is written in
  (\<^verbatim>\<open>src/student-distrib/types.h\<close>), the lemma collections the component theories
  add to, and the generic facts about machine words, lists and scanning loops that
  several components share.
\<close>

unbundle bit_operations_syntax

section \<open>Machine types\<close>

type_synonym u8 = "8 word"
type_synonym u16 = "16 word"
type_synonym u32 = "32 word"

text \<open>A byte of a C string literal.\<close>

definition byte :: "char \<Rightarrow> u8" where
  "byte c = word_of_nat (of_char c)"

abbreviation bytes :: "string \<Rightarrow> u8 list" where
  "bytes s \<equiv> map byte s"

text \<open>
  Lemma collections: \<open>addr_simps\<close> normalises address arithmetic, \<open>mem_simps\<close> reads
  through memory updates, \<open>frame_simps\<close> says which fields an operation leaves alone.
\<close>

named_theorems addr_simps
named_theorems mem_simps
named_theorems frame_simps

section \<open>Words\<close>

lemma unat_of_nat32 [addr_simps]: "n < 4294967296 \<Longrightarrow> unat (word_of_nat n :: u32) = n"
  by (simp add: unat_of_nat take_bit_nat_eq_self)

lemma unat_lt32: "unat (x :: u32) < 4294967296"
  using unsigned_less [of x] by simp

lemma add_of_nat_eq_iff:
  "i < 4294967296 \<Longrightarrow> j < 4294967296 \<Longrightarrow>
     (a + word_of_nat i = a + (word_of_nat j :: u32)) = (i = j)"
  by (metis add_left_cancel unat_of_nat32)

lemma word_diff_of_nat: "x = a + word_of_nat (unat (x - a))" for x a :: u32
  by simp

lemma unat_add_diff_small:
  "i < 4294967296 \<Longrightarrow> unat (a + word_of_nat i - (a :: u32)) = i"
  by (simp add: addr_simps)

lemma unat_suc32: "i < n \<Longrightarrow> unat (i + 1) = Suc (unat i)" for i n :: u32
  using unat_lt32 [of n] by (simp add: word_less_nat_alt unat_word_ariths)

lemma loop_measure32: "i < n \<Longrightarrow> unat n - unat (i + 1) < unat n - unat i" for i n :: u32
  by (simp add: unat_suc32 word_less_nat_alt)

lemma loop_Suc32: "i < n \<Longrightarrow> unat n - unat i = Suc (unat n - unat (i + 1))" for i n :: u32
  by (simp add: unat_suc32 word_less_nat_alt Suc_diff_Suc)

lemma loop_done32: "\<not> i < n \<Longrightarrow> unat n - unat i = 0" for i n :: u32
  by (simp add: word_less_nat_alt)

lemma and_255_mod: "unat (w AND 255) = unat w mod 256" for w :: u16
proof -
  have "w AND 255 = take_bit 8 w" by (simp add: take_bit_eq_mask mask_eq_exp_minus_1)
  then show ?thesis by (simp add: take_bit_eq_mod unat_mod)
qed

lemma ucast_low_byte: "(ucast (w AND 255) :: u8) = word_of_nat (unat w mod 256)" for w :: u16
  by (metis and_255_mod of_nat_unat)

lemma ucast_high_byte: "(ucast (drop_bit 8 w AND 255) :: u8) = word_of_nat (unat w div 256)" for w :: u16
proof -
  have "unat (drop_bit 8 w AND 255) = unat w div 256 mod 256"
    by (simp add: and_255_mod drop_bit_eq_div unat_div)
  also have "\<dots> = unat w div 256"
  proof -
    have "unat w < 65536" using unsigned_less [of w] by simp
    then show ?thesis by (simp add: less_mult_imp_div_less)
  qed
  finally show ?thesis by (metis of_nat_unat)
qed

lemma sint_eq_iff8: "sint a = sint b \<longleftrightarrow> a = b" for a b :: u8
  by (auto intro: signed_word_eqI)

lemma sint_eq_0_iff8: "sint a = 0 \<longleftrightarrow> a = 0" for a :: u8
  using sint_eq_iff8 [of a 0] by simp

lemma word_of_nat_mod32: "(word_of_nat (n mod 4294967296) :: u32) = word_of_nat n"
  by (simp add: word_of_nat_eq_iff take_bit_eq_mod)

lemma sint_of_nat32: "n < 2147483648 \<Longrightarrow> sint (word_of_nat n :: u32) = int n"
  by (simp add: signed_of_nat signed_take_bit_int_eq_self)

lemma sint_of_int32: "- 2147483648 \<le> i \<Longrightarrow> i < 2147483648 \<Longrightarrow> sint (word_of_int i :: u32) = i"
  by (simp add: signed_of_int signed_take_bit_int_eq_self)

lemma uint_of_int32: "0 \<le> i \<Longrightarrow> i < 4294967296 \<Longrightarrow> uint (word_of_int i :: u32) = i"
  by (simp add: unsigned_of_int take_bit_int_eq_self)

lemma unat_of_int32: "0 \<le> i \<Longrightarrow> i < 4294967296 \<Longrightarrow> unat (word_of_int i :: u32) = nat i"
  using uint_of_int32 [of i] by (metis nat_uint_eq)

lemma unat_sint_neg: "sint v < 0 \<Longrightarrow> unat (- v) = nat (- sint v)" for v :: u32
  using uint_of_int32 [of "- sint v"] sint_greater_eq [of v] by (simp add: nat_uint_eq [symmetric])

lemma unat_sint_pos: "0 \<le> sint v \<Longrightarrow> unat v = nat (sint v)" for v :: u32
  using uint_of_int32 [of "sint v"] sint_less [of v] by (simp add: nat_uint_eq [symmetric])

section \<open>Scanning loops\<close>

text \<open>
  The loop \<^verbatim>\<open>for (i = 0; i < n; i++) if (P(a[i])) { loc = i; break; }\<close>, with
  \<open>None\<close> for a loop that runs to its end: the kernel uses it to find a free file
  descriptor, a free process slot and the terminal a process runs on.
\<close>

fun scan_from :: "('a \<Rightarrow> bool) \<Rightarrow> nat \<Rightarrow> 'a list \<Rightarrow> nat option" where
  "scan_from P i [] = None"
| "scan_from P i (x # xs) = (if P x then Some i else scan_from P (Suc i) xs)"

definition scan :: "('a \<Rightarrow> bool) \<Rightarrow> 'a list \<Rightarrow> nat option" where
  "scan P xs = scan_from P 0 xs"

lemma scan_from_None: "scan_from P i xs = None \<longleftrightarrow> (\<forall>x \<in> set xs. \<not> P x)"
  by (induction P i xs rule: scan_from.induct) auto

lemma scan_from_Some:
  "scan_from P i xs = Some k \<Longrightarrow>
     i \<le> k \<and> k < i + length xs \<and> P (xs ! (k - i)) \<and> (\<forall>j < k - i. \<not> P (xs ! j))"
proof (induction P i xs rule: scan_from.induct)
  case (1 P i)
  then show ?case by simp
next
  case (2 P i x xs)
  show ?case
  proof (cases "P x")
    case True
    with "2.prems" show ?thesis by simp
  next
    case False
    with 2 have IH: "Suc i \<le> k" "k < Suc i + length xs" "P (xs ! (k - Suc i))"
      "\<forall>j < k - Suc i. \<not> P (xs ! j)"
      by simp_all
    then have eq: "k - i = Suc (k - Suc i)" by arith
    have "\<forall>j < k - i. \<not> P ((x # xs) ! j)"
      using IH(4) False eq by (auto simp: nth_Cons split: nat.split)
    with IH eq show ?thesis by simp
  qed
qed

lemma scan_None: "scan P xs = None \<longleftrightarrow> (\<forall>x \<in> set xs. \<not> P x)"
  by (simp add: scan_def scan_from_None)

lemma scan_Some:
  "scan P xs = Some k \<Longrightarrow> k < length xs \<and> P (xs ! k) \<and> (\<forall>j < k. \<not> P (xs ! j))"
  using scan_from_Some [of P 0 xs k] by (simp add: scan_def)

lemma scan_SomeI:
  assumes "k < length xs" and "P (xs ! k)" and "\<And>j. j < k \<Longrightarrow> \<not> P (xs ! j)"
  shows "scan P xs = Some k"
proof (cases "scan P xs")
  case None
  with assms show ?thesis by (auto simp: scan_None)
next
  case (Some k')
  from scan_Some [OF this] assms have "\<not> k < k'" and "\<not> k' < k" by auto
  with Some show ?thesis by simp
qed

lemma scan_iff: "scan P xs = Some i \<longleftrightarrow> i < length xs \<and> P (xs ! i) \<and> (\<forall>j < i. \<not> P (xs ! j))"
  using scan_Some scan_SomeI by blast

section \<open>Nested counting loops\<close>

lemma fold_nested_upt:
  "fold (\<lambda>i. fold (\<lambda>j. f (w * i + j)) [0..<w]) [0..<n] = fold f [0..<w * n]"
proof (induction n)
  case 0
  then show ?case by simp
next
  case (Suc n)
  have "[w * n..<w * n + w] = map (\<lambda>j. w * n + j) [0..<w]"
    using map_add_upt [of "w * n" w] by (simp add: add.commute)
  then have "fold f [w * n..<w * n + w] = fold (\<lambda>j. f (w * n + j)) [0..<w]"
    by (simp add: fold_map comp_def)
  moreover have "[0..<w * Suc n] = [0..<w * n] @ [w * n..<w * n + w]"
    using upt_add_eq_append [of 0 "w * n" w] by (simp add: add.commute)
  ultimately show ?case using Suc by simp
qed

end
