(* ===== verification/Memory.thy ===== *)
theory Memory
  imports Prelude
begin

text \<open>
  The flat 32-bit address space the kernel runs in. A pointer is a \<^typ>\<open>u32\<close> and
  pointer arithmetic wraps around as the hardware's does; an object of \<open>n\<close> bytes at
  \<open>a\<close> is the circular range of the addresses \<open>x\<close> with \<open>unat (x - a) < n\<close>, which needs
  no side condition about the end of the address space. On top of the byte array the
  theory gives little-endian 32-bit loads and stores, NUL-terminated strings, and the
  laws (read over write, frame, disjointness) that the components use.
\<close>

type_synonym mem = "u32 \<Rightarrow> u8"

section \<open>Byte ranges\<close>

definition read_bytes :: "mem \<Rightarrow> u32 \<Rightarrow> nat \<Rightarrow> u8 list" where
  "read_bytes m a n = map (\<lambda>i. m (a + word_of_nat i)) [0..<n]"

primrec write_bytes :: "mem \<Rightarrow> u32 \<Rightarrow> u8 list \<Rightarrow> mem" where
  "write_bytes m a [] = m"
| "write_bytes m a (b # bs) = write_bytes (m(a := b)) (a + 1) bs"

definition in_region :: "u32 \<Rightarrow> u32 \<Rightarrow> nat \<Rightarrow> bool" where
  "in_region x a n \<longleftrightarrow> unat (x - a) < n"

definition disjoint_regions :: "u32 \<Rightarrow> nat \<Rightarrow> u32 \<Rightarrow> nat \<Rightarrow> bool" where
  "disjoint_regions a n b k \<longleftrightarrow> n \<le> unat (b - a) \<and> k \<le> unat (a - b)"

lemma length_read_bytes [simp]: "length (read_bytes m a n) = n"
  by (simp add: read_bytes_def)

lemma nth_read_bytes [simp]: "i < n \<Longrightarrow> read_bytes m a n ! i = m (a + word_of_nat i)"
  by (simp add: read_bytes_def)

lemma read_bytes_0 [simp]: "read_bytes m a 0 = []"
  by (simp add: read_bytes_def)

lemma read_bytes_Suc: "read_bytes m a (Suc n) = m a # read_bytes m (a + 1) n"
  by (rule nth_equalityI) (auto simp: nth_Cons algebra_simps split: nat.split)

lemma read_bytes_append:
  "read_bytes m a (n + k) = read_bytes m a n @ read_bytes m (a + word_of_nat n) k"
  by (rule nth_equalityI) (auto simp: nth_append algebra_simps)

lemma take_read_bytes: "take k (read_bytes m a n) = read_bytes m a (min k n)"
  by (rule nth_equalityI) auto

lemma drop_read_bytes: "drop k (read_bytes m a n) = read_bytes m (a + word_of_nat k) (n - k)"
  by (rule nth_equalityI) (auto simp: algebra_simps)

lemma read_bytes_cong:
  "(\<And>i. i < n \<Longrightarrow> m (a + word_of_nat i) = m' (a + word_of_nat i)) \<Longrightarrow>
     read_bytes m a n = read_bytes m' a n"
  by (simp add: read_bytes_def)

lemma in_region_self: "0 < n \<Longrightarrow> in_region a a n"
  by (simp add: in_region_def)

lemma in_region_offset:
  "i < n \<Longrightarrow> n \<le> 4294967296 \<Longrightarrow> in_region (a + word_of_nat i) a n"
  by (simp add: in_region_def addr_simps)

lemma in_region_mono: "in_region x a n \<Longrightarrow> n \<le> k \<Longrightarrow> in_region x a k"
  by (simp add: in_region_def)

lemma in_region_shift:
  assumes "in_region x (a + word_of_nat k) n" and "k + n \<le> 4294967296"
  shows "in_region x a (k + n)"
proof -
  let ?i = "unat (x - (a + word_of_nat k))"
  have i: "?i < n" using assms(1) by (simp add: in_region_def)
  have "x = a + word_of_nat k + word_of_nat ?i" by simp
  then have "x = a + word_of_nat (k + ?i)" by (simp only: of_nat_add add.assoc)
  then show ?thesis
    using i assms(2) in_region_offset [of "k + ?i" "k + n" a] by simp
qed

lemma disjoint_regionsD:
  assumes "disjoint_regions a n b k" and "in_region x a n"
  shows "\<not> in_region x b k"
proof
  assume "in_region x b k"
  then have j: "unat (x - b) < k" by (simp add: in_region_def)
  from assms(2) have i: "unat (x - a) < n" by (simp add: in_region_def)
  show False
  proof (cases "x - b \<le> x - a")
    case True
    have "unat (b - a) = unat ((x - a) - (x - b))" by simp
    also have "\<dots> = unat (x - a) - unat (x - b)" using True by (rule unat_sub)
    finally show False using assms(1) i unfolding disjoint_regions_def by linarith
  next
    case False
    then have le: "x - a \<le> x - b" by simp
    have "unat (a - b) = unat ((x - b) - (x - a))" by simp
    also have "\<dots> = unat (x - b) - unat (x - a)" using le by (rule unat_sub)
    finally show False using assms(1) j unfolding disjoint_regions_def by linarith
  qed
qed

lemma disjoint_regions_sym: "disjoint_regions a n b k = disjoint_regions b k a n"
  by (auto simp: disjoint_regions_def)

lemma disjoint_regions_mono:
  "disjoint_regions a n b k \<Longrightarrow> n' \<le> n \<Longrightarrow> k' \<le> k \<Longrightarrow> disjoint_regions a n' b k'"
  by (simp add: disjoint_regions_def)

section \<open>Reading over writing\<close>

lemma write_bytes_apply:
  "length bs \<le> 4294967296 \<Longrightarrow>
     write_bytes m a bs x = (if in_region x a (length bs) then bs ! unat (x - a) else m x)"
proof (induction bs arbitrary: m a)
  case Nil
  then show ?case by (simp add: in_region_def)
next
  case (Cons b bs)
  have IH: "write_bytes m a (b # bs) x =
      (if unat (x - (a + 1)) < length bs then bs ! unat (x - (a + 1)) else (m(a := b)) x)"
    using Cons by (simp add: in_region_def)
  show ?case
  proof (cases "x = a")
    case True
    have "unat (a - (a + 1)) = 4294967295"
      by (simp add: unsigned_minus_1_eq_mask mask_eq_exp_minus_1)
    with IH True Cons.prems show ?thesis by (simp add: in_region_def)
  next
    case False
    then have "x - a \<noteq> 0" by simp
    then have "unat (x - a) = Suc (unat (x - (a + 1)))"
      using unat_minus_one [of "x - a"] unat_gt_0 [of "x - a"] by (simp add: algebra_simps)
    with IH False show ?thesis by (simp add: in_region_def)
  qed
qed

lemma write_bytes_outside [mem_simps]:
  "length bs \<le> 4294967296 \<Longrightarrow> \<not> in_region x a (length bs) \<Longrightarrow> write_bytes m a bs x = m x"
  by (simp add: write_bytes_apply)

lemma write_bytes_nth [mem_simps]:
  "i < length bs \<Longrightarrow> length bs \<le> 4294967296 \<Longrightarrow> write_bytes m a bs (a + word_of_nat i) = bs ! i"
  by (simp add: write_bytes_apply in_region_def addr_simps)

lemma read_write_bytes [mem_simps]:
  "length bs \<le> 4294967296 \<Longrightarrow> read_bytes (write_bytes m a bs) a (length bs) = bs"
  by (rule nth_equalityI) (auto simp: mem_simps)

lemma read_write_bytes_disjoint [mem_simps]:
  assumes "disjoint_regions a (length bs) b n" and "length bs \<le> 4294967296" "n \<le> 4294967296"
  shows "read_bytes (write_bytes m a bs) b n = read_bytes m b n"
proof (rule read_bytes_cong)
  fix i assume "i < n"
  then have "in_region (b + word_of_nat i) b n" using assms(3) by (rule in_region_offset)
  then have "\<not> in_region (b + word_of_nat i) a (length bs)"
    using assms(1) disjoint_regionsD by blast
  then show "write_bytes m a bs (b + word_of_nat i) = m (b + word_of_nat i)"
    using assms(2) by (simp add: mem_simps)
qed

lemma read_write_bytes_after [mem_simps]:
  assumes "length bs + n \<le> 4294967296"
  shows "read_bytes (write_bytes m a bs) (a + word_of_nat (length bs)) n
           = read_bytes m (a + word_of_nat (length bs)) n"
proof (rule read_bytes_cong)
  fix i assume i: "i < n"
  have "a + word_of_nat (length bs) + word_of_nat i = a + word_of_nat (length bs + i)" by simp
  moreover have "\<not> in_region (a + word_of_nat (length bs + i)) a (length bs)"
    unfolding in_region_def using i assms by (subst unat_add_diff_small) simp_all
  ultimately show "write_bytes m a bs (a + word_of_nat (length bs) + word_of_nat i)
      = m (a + word_of_nat (length bs) + word_of_nat i)"
    using assms write_bytes_outside [of bs "a + word_of_nat (length bs + i)" a m] by (simp add: add.assoc)
qed

lemma read_bytes_sub:
  assumes "read_bytes m a n = read_bytes m' b n" and "k + j \<le> n"
  shows "read_bytes m (a + word_of_nat k) j = read_bytes m' (b + word_of_nat k) j"
proof -
  have "take j (drop k (read_bytes m a n)) = take j (drop k (read_bytes m' b n))" using assms(1) by simp
  then show ?thesis using assms(2) by (simp add: drop_read_bytes take_read_bytes min_absorb1 add.commute)
qed

lemma write_bytes_append:
  "write_bytes m a (bs @ cs) = write_bytes (write_bytes m a bs) (a + word_of_nat (length bs)) cs"
  by (induction bs arbitrary: m a) (simp_all add: algebra_simps)

lemma write_read_bytes_same:
  assumes "n \<le> 4294967296"
  shows "write_bytes m a (read_bytes m a n) = m"
proof
  fix x
  show "write_bytes m a (read_bytes m a n) x = m x"
    using assms by (simp add: write_bytes_apply in_region_def)
qed

lemma overwrite_prefix:
  assumes "length cs \<le> n" and "n \<le> 4294967296"
  shows "read_bytes (write_bytes m a cs) a n = cs @ drop (length cs) (read_bytes m a n)"
  using assms by (intro nth_equalityI) (auto simp: nth_append write_bytes_apply in_region_def addr_simps)

lemma zero_loop: "fold (\<lambda>i m. m(a + word_of_nat i := 0)) [0..<n] m = write_bytes m a (replicate n 0)" for a :: u32
proof (induction n)
  case 0
  then show ?case by simp
next
  case (Suc n)
  have "write_bytes m a (replicate n 0 @ [0]) = (write_bytes m a (replicate n 0))(a + word_of_nat n := 0)"
    by (simp add: write_bytes_append)
  with Suc show ?case by (simp add: replicate_append_same del: fun_upd_apply)
qed

lemma fun_upd_write_bytes: "m(a := b) = write_bytes m a [b]"
  by simp

section \<open>Little-endian 32-bit values\<close>

definition load32 :: "mem \<Rightarrow> u32 \<Rightarrow> u32" where
  "load32 m a = ucast (m a) OR push_bit 8 (ucast (m (a + 1)))
     OR push_bit 16 (ucast (m (a + 2))) OR push_bit 24 (ucast (m (a + 3)))"

definition bytes32 :: "u32 \<Rightarrow> u8 list" where
  "bytes32 v = [ucast v, ucast (drop_bit 8 v), ucast (drop_bit 16 v), ucast (drop_bit 24 v)]"

definition store32 :: "mem \<Rightarrow> u32 \<Rightarrow> u32 \<Rightarrow> mem" where
  "store32 m a v = write_bytes m a (bytes32 v)"

lemma length_bytes32 [simp]: "length (bytes32 v) = 4"
  by (simp add: bytes32_def)

lemma bytes32_combine:
  "ucast (ucast v :: u8) OR push_bit 8 (ucast (ucast (drop_bit 8 v) :: u8))
     OR push_bit 16 (ucast (ucast (drop_bit 16 v) :: u8))
     OR push_bit 24 (ucast (ucast (drop_bit 24 v) :: u8)) = (v :: u32)"
proof (rule bit_word_eqI)
  fix i assume i: "i < LENGTH(32)"
  consider "i < 8" | "8 \<le> i" "i < 16" | "16 \<le> i" "i < 24" | "24 \<le> i" "i < 32"
    using i by fastforce
  then show "bit (ucast (ucast v :: u8) OR push_bit 8 (ucast (ucast (drop_bit 8 v) :: u8))
     OR push_bit 16 (ucast (ucast (drop_bit 16 v) :: u8))
     OR push_bit 24 (ucast (ucast (drop_bit 24 v) :: u8)) :: u32) i = bit v i"
    by cases (auto simp add: bit_or_iff bit_push_bit_iff bit_unsigned_iff bit_drop_bit_eq)
qed

lemma load32_bytes:
  "load32 m a = (let bs = read_bytes m a 4 in ucast (bs ! 0) OR push_bit 8 (ucast (bs ! 1))
     OR push_bit 16 (ucast (bs ! 2)) OR push_bit 24 (ucast (bs ! 3)))"
  by (simp add: load32_def Let_def)

lemma bytes32_split:
  fixes a b c d :: u8
  shows "bytes32 (ucast a OR push_bit 8 (ucast b) OR push_bit 16 (ucast c) OR push_bit 24 (ucast d))
           = [a, b, c, d]"
  unfolding bytes32_def list.inject
  by (intro conjI refl; rule bit_word_eqI)
    (auto simp: bit_or_iff bit_push_bit_iff bit_unsigned_iff bit_drop_bit_eq
      dest: bit_imp_le_length)

lemma bytes32_load32: "bytes32 (load32 m a) = read_bytes m a 4"
  by (simp add: load32_def bytes32_split read_bytes_def upt_rec)

lemma load32_cong: "read_bytes m a 4 = read_bytes m' b 4 \<Longrightarrow> load32 m a = load32 m' b"
  by (simp add: load32_bytes)

lemma load_store32 [mem_simps]: "load32 (store32 m a v) a = v"
proof -
  have "read_bytes (store32 m a v) a 4 = bytes32 v"
    using read_write_bytes [of "bytes32 v" m a] by (simp add: store32_def)
  then show ?thesis
    by (simp add: load32_bytes bytes32_def bytes32_combine)
qed

lemma load32_write_disjoint [mem_simps]:
  "disjoint_regions a (length bs) b 4 \<Longrightarrow> length bs \<le> 4294967296 \<Longrightarrow>
     load32 (write_bytes m a bs) b = load32 m b"
  by (rule load32_cong) (simp add: mem_simps)

section \<open>C strings\<close>

text \<open>\<open>cstring m s cs\<close>: the characters \<open>cs\<close>, none of them NUL, stand at \<open>s\<close> with a
  NUL behind them.\<close>

definition cstring :: "mem \<Rightarrow> u32 \<Rightarrow> u8 list \<Rightarrow> bool" where
  "cstring m s cs \<longleftrightarrow> read_bytes m s (Suc (length cs)) = cs @ [0] \<and> 0 \<notin> set cs"

lemma cstring_nth: "cstring m s cs \<Longrightarrow> i < length cs \<Longrightarrow> m (s + word_of_nat i) = cs ! i"
  unfolding cstring_def
  by (metis less_SucI nth_append nth_read_bytes)

lemma cstring_end: "cstring m s cs \<Longrightarrow> m (s + word_of_nat (length cs)) = 0"
  unfolding cstring_def
  by (metis lessI nth_append_length nth_read_bytes)

lemma cstring_Nil: "cstring m s [] = (m s = 0)"
  by (simp add: cstring_def read_bytes_Suc)

lemma cstring_Cons: "cstring m s (c # cs) = (m s = c \<and> c \<noteq> 0 \<and> cstring m (s + 1) cs)"
  by (auto simp: cstring_def read_bytes_Suc)

lemma cstring_nonzero: "cstring m s cs \<Longrightarrow> i < length cs \<Longrightarrow> m (s + word_of_nat i) \<noteq> 0"
  using cstring_nth [of m s cs i] by (metis cstring_def nth_mem)

lemma cstring_write:
  "0 \<notin> set cs \<Longrightarrow> length cs < 4294967296 \<Longrightarrow> cstring (write_bytes m s (cs @ [0])) s cs"
  using read_write_bytes [of "cs @ [0]" m s] by (simp add: cstring_def)

lemma cstring_unique:
  "cstring m s cs \<Longrightarrow> cstring m s ds \<Longrightarrow> cs = ds"
proof (induction cs arbitrary: s ds)
  case Nil
  then show ?case by (cases ds) (auto simp: cstring_Nil cstring_Cons)
next
  case (Cons c cs)
  then show ?case by (cases ds) (auto simp: cstring_Nil cstring_Cons)
qed

lemma cstring_cong:
  "cstring m s cs \<Longrightarrow> (\<And>x. in_region x s (Suc (length cs)) \<Longrightarrow> m' x = m x) \<Longrightarrow> length cs < 4294967296 \<Longrightarrow> cstring m' s cs"
  using read_bytes_cong [of "Suc (length cs)" m' s m] in_region_offset [of _ "Suc (length cs)" s]
  unfolding cstring_def by auto

lemma cstring_upd:
  "cstring m s cs \<Longrightarrow> \<not> in_region x s (Suc (length cs)) \<Longrightarrow> length cs < 4294967296 \<Longrightarrow> cstring (m(x := b)) s cs"
  by (erule cstring_cong) auto

end
