(* ===== verification/Lib_Mem.thy ===== *)
theory Lib_Mem
  imports Memory
begin

text \<open>
  The block-memory routines of \<^verbatim>\<open>src/student-distrib/lib.c\<close>: \<open>memset\<close>,
  \<open>memset_word\<close>, \<open>memset_dword\<close>, \<open>memcpy\<close> and \<open>memmove\<close>. The source writes them in
  inline assembly; each label of the assembly is one function over the registers it
  uses (\<open>edi\<close>, \<open>esi\<close>, \<open>ecx\<close>, \<open>edx\<close>) and the memory, with the string instructions
  \<open>rep stosw\<close>, \<open>rep stosl\<close>, \<open>rep movsl\<close>, \<open>rep movsb\<close> as recursions on the repeat count.
  The lemmas show that the aligned, four-bytes-at-a-time code computes the plain copy or
  fill, under exactly the overlap condition that makes it right. The locale
  \<open>copy_routine\<close> is the contract a copy routine gives its callers; \<open>memcpy\<close> and
  \<open>memmove\<close> are its interpretations.
\<close>

section \<open>memset\<close>

primrec rep_stosl :: "nat \<Rightarrow> mem \<Rightarrow> u32 \<Rightarrow> u32 \<Rightarrow> mem \<times> u32" where
  "rep_stosl 0 m edi eax = (m, edi)"
| "rep_stosl (Suc n) m edi eax = rep_stosl n (store32 m edi eax) (edi + 4) eax"

primrec rep_stosw :: "nat \<Rightarrow> mem \<Rightarrow> u32 \<Rightarrow> u16 \<Rightarrow> mem \<times> u32" where
  "rep_stosw 0 m edi ax = (m, edi)"
| "rep_stosw (Suc n) m edi ax =
     rep_stosw n (write_bytes m edi [ucast ax, ucast (drop_bit 8 ax)]) (edi + 2) ax"

function memset_bottom :: "mem \<Rightarrow> u32 \<Rightarrow> u32 \<Rightarrow> u32 \<Rightarrow> mem" where
  "memset_bottom m edi eax edx =
     (if edx = 0 then m else memset_bottom (m(edi := ucast eax)) (edi + 1) eax (edx - 1))"
  by pat_completeness auto
termination
  by (relation "measure (\<lambda>(m, edi, eax, edx). unat edx)") (auto simp: unat_minus_one unat_gt_0)

definition memset_aligned :: "mem \<Rightarrow> u32 \<Rightarrow> u32 \<Rightarrow> u32 \<Rightarrow> mem" where
  "memset_aligned m edi eax ecx =
     (let edx = ecx AND 3;
          (m', edi') = rep_stosl (unat (drop_bit 2 ecx)) m edi eax
      in memset_bottom m' edi' eax edx)"

function memset_top :: "mem \<Rightarrow> u32 \<Rightarrow> u32 \<Rightarrow> u32 \<Rightarrow> mem" where
  "memset_top m edi eax ecx =
     (if ecx = 0 then m
      else if edi AND 3 = 0 then memset_aligned m edi eax ecx
      else memset_top (m(edi := ucast eax)) (edi + 1) eax (ecx - 1))"
  by pat_completeness auto
termination
  by (relation "measure (\<lambda>(m, edi, eax, ecx). unat ecx)") (auto simp: unat_minus_one unat_gt_0)

definition memset :: "mem \<Rightarrow> u32 \<Rightarrow> u32 \<Rightarrow> u32 \<Rightarrow> mem" where
  "memset m s c n =
     (let c' = c AND 255
      in memset_top m s (push_bit 24 c' OR push_bit 16 c' OR push_bit 8 c' OR c') n)"

definition memset_word :: "mem \<Rightarrow> u32 \<Rightarrow> u32 \<Rightarrow> u32 \<Rightarrow> mem" where
  "memset_word m s c n = fst (rep_stosw (unat n) m s (ucast c))"

definition memset_dword :: "mem \<Rightarrow> u32 \<Rightarrow> u32 \<Rightarrow> u32 \<Rightarrow> mem" where
  "memset_dword m s c n = fst (rep_stosl (unat n) m s c)"

section \<open>memcpy and memmove\<close>

primrec rep_movsl :: "nat \<Rightarrow> mem \<Rightarrow> u32 \<Rightarrow> u32 \<Rightarrow> mem \<times> u32 \<times> u32" where
  "rep_movsl 0 m edi esi = (m, edi, esi)"
| "rep_movsl (Suc n) m edi esi = rep_movsl n (store32 m edi (load32 m esi)) (edi + 4) (esi + 4)"

function memcpy_bottom :: "mem \<Rightarrow> u32 \<Rightarrow> u32 \<Rightarrow> u32 \<Rightarrow> mem" where
  "memcpy_bottom m edi esi edx =
     (if edx = 0 then m
      else memcpy_bottom (m(edi := m esi)) (edi + 1) (esi + 1) (edx - 1))"
  by pat_completeness auto
termination
  by (relation "measure (\<lambda>(m, edi, esi, edx). unat edx)") (auto simp: unat_minus_one unat_gt_0)

definition memcpy_aligned :: "mem \<Rightarrow> u32 \<Rightarrow> u32 \<Rightarrow> u32 \<Rightarrow> mem" where
  "memcpy_aligned m edi esi ecx =
     (let edx = ecx AND 3;
          (m', edi', esi') = rep_movsl (unat (drop_bit 2 ecx)) m edi esi
      in memcpy_bottom m' edi' esi' edx)"

function memcpy_top :: "mem \<Rightarrow> u32 \<Rightarrow> u32 \<Rightarrow> u32 \<Rightarrow> mem" where
  "memcpy_top m edi esi ecx =
     (if ecx = 0 then m
      else if edi AND 3 = 0 then memcpy_aligned m edi esi ecx
      else memcpy_top (m(edi := m esi)) (edi + 1) (esi + 1) (ecx - 1))"
  by pat_completeness auto
termination
  by (relation "measure (\<lambda>(m, edi, esi, ecx). unat ecx)") (auto simp: unat_minus_one unat_gt_0)

definition memcpy :: "mem \<Rightarrow> u32 \<Rightarrow> u32 \<Rightarrow> u32 \<Rightarrow> mem" where
  "memcpy m dest src n = memcpy_top m dest src n"

text \<open>\<open>rep movsb\<close> with the direction flag clear (\<open>step = 1\<close>) or set (\<open>step = -1\<close>).\<close>

primrec rep_movsb :: "nat \<Rightarrow> u32 \<Rightarrow> mem \<Rightarrow> u32 \<Rightarrow> u32 \<Rightarrow> mem" where
  "rep_movsb 0 step m edi esi = m"
| "rep_movsb (Suc n) step m edi esi =
     rep_movsb n step (m(edi := m esi)) (edi + step) (esi + step)"

definition memmove :: "mem \<Rightarrow> u32 \<Rightarrow> u32 \<Rightarrow> u32 \<Rightarrow> mem" where
  "memmove m dest src n =
     (if dest \<le> src then rep_movsb (unat n) 1 m dest src
      else rep_movsb (unat n) (- 1) m (dest + n - 1) (src + n - 1))"

declare memset_bottom.simps [simp del] memset_top.simps [simp del]
  memcpy_bottom.simps [simp del] memcpy_top.simps [simp del]

section \<open>The reference copy and the overlap condition\<close>

definition copy_ref :: "mem \<Rightarrow> u32 \<Rightarrow> u32 \<Rightarrow> nat \<Rightarrow> mem" where
  "copy_ref m d s n = write_bytes m d (read_bytes m s n)"

text \<open>
  A copy that runs upwards is right unless the destination starts inside the source
  (behind its first byte): then a byte is overwritten before it is read.
\<close>

definition copy_up_safe :: "u32 \<Rightarrow> u32 \<Rightarrow> nat \<Rightarrow> bool" where
  "copy_up_safe d s n \<longleftrightarrow> d = s \<or> n \<le> unat (d - s)"

lemma copy_ref_0 [simp]: "copy_ref m d s 0 = m"
  by (simp add: copy_ref_def)

lemma copy_ref_apply:
  "n \<le> 4294967296 \<Longrightarrow> copy_ref m d s n x = (if in_region x d n then m (s + (x - d)) else m x)"
  by (simp add: copy_ref_def write_bytes_apply in_region_def)

lemma copy_ref_1: "copy_ref m d s 1 = m(d := m s)"
  by (simp add: copy_ref_def read_bytes_def)

lemma copy_up_safe_tail:
  "copy_up_safe d s (n + k) \<Longrightarrow> copy_up_safe (d + word_of_nat n) (s + word_of_nat n) k"
  by (auto simp: copy_up_safe_def)

lemma copy_up_safe_mono: "copy_up_safe d s n \<Longrightarrow> k \<le> n \<Longrightarrow> copy_up_safe d s k"
  by (auto simp: copy_up_safe_def)

lemma unat_wrap_sub: "n < unat e \<Longrightarrow> unat (word_of_nat n - e) = 4294967296 - (unat e - n)"
  for e :: u32
proof -
  assume n: "n < unat e"
  then have n32: "n < 4294967296" using unat_lt32 [of e] by simp
  have "word_of_nat n < e" using n n32 by (simp add: word_less_nat_alt addr_simps)
  then show ?thesis
    using n n32 unat_lt32 [of e] by (simp add: unat_sub_if_size word_size word_le_nat_alt addr_simps)
qed

lemma disjoint_regions_sub:
  assumes "disjoint_regions a n b l" and "k + j \<le> n" and "0 < j" "n \<le> 4294967295"
  shows "disjoint_regions (a + word_of_nat k) j b l"
proof -
  have "k < n" using assms(2,3) by simp
  then have k: "unat (word_of_nat k :: u32) = k" using assms(4) by (intro unat_of_nat32) simp
  have nb: "n \<le> unat (b - a)" and la: "l \<le> unat (a - b)"
    using assms(1) by (simp_all add: disjoint_regions_def)
  have "unat (b - a - word_of_nat k) = unat (b - a) - k"
    using nb \<open>k < n\<close> k by (simp add: unat_sub word_le_nat_alt)
  then have 1: "j \<le> unat (b - (a + word_of_nat k))"
    using nb assms(2) by (simp add: diff_diff_eq)
  have "b - a \<noteq> 0" using nb \<open>k < n\<close> by auto
  have "unat (a - b) + unat (b - a) = 4294967296"
  proof -
    have "a - b = - (b - a)" by simp
    then have "unat (a - b) = 4294967296 - unat (b - a)"
      using \<open>b - a \<noteq> 0\<close> unat_wrap_sub [of 0 "b - a"] by (simp add: unat_gt_0)
    then show ?thesis using unat_lt32 [of "b - a"] by simp
  qed
  then have "unat (a - b) + k < 4294967296" using nb \<open>k < n\<close> by linarith
  then have "unat (a - b + word_of_nat k) = unat (a - b) + k"
    using k by (simp add: unat_word_ariths)
  then have 2: "l \<le> unat (a + word_of_nat k - b)" using la by (simp add: algebra_simps)
  from 1 2 show ?thesis by (simp add: disjoint_regions_def)
qed

lemma copy_tail_unread:
  assumes safe: "copy_up_safe d s (n + k)" and n: "n + k \<le> 4294967296" and j: "j < k"
  shows "\<not> in_region (s + word_of_nat n + word_of_nat j) d n"
proof (cases "d = s")
  case True
  have "unat (s + word_of_nat n + word_of_nat j - s) = n + j"
    using n j by (simp flip: of_nat_add add: addr_simps)
  with True show ?thesis by (simp add: in_region_def)
next
  case False
  with safe have e: "n + k \<le> unat (d - s)" by (simp add: copy_up_safe_def)
  have eq: "s + word_of_nat n + word_of_nat j - d = word_of_nat (n + j) - (d - s)" by simp
  have "unat (word_of_nat (n + j) - (d - s)) = 4294967296 - (unat (d - s) - (n + j))"
    using e j by (intro unat_wrap_sub) simp
  then show ?thesis
    using unat_lt32 [of "d - s"] e j unfolding in_region_def eq by linarith
qed

lemma copy_ref_split:
  assumes "copy_up_safe d s (n + k)" and "n + k \<le> 4294967296"
  shows "copy_ref (copy_ref m d s n) (d + word_of_nat n) (s + word_of_nat n) k
           = copy_ref m d s (n + k)"
proof -
  have "read_bytes (copy_ref m d s n) (s + word_of_nat n) k = read_bytes m (s + word_of_nat n) k"
    using assms copy_tail_unread [OF assms]
    by (intro read_bytes_cong) (simp add: copy_ref_def mem_simps)
  then show ?thesis
    by (simp add: copy_ref_def read_bytes_append write_bytes_append)
qed

lemma copy_ref_step:
  assumes "copy_up_safe d s (Suc n)" and "Suc n \<le> 4294967296"
  shows "copy_ref (m(d := m s)) (d + 1) (s + 1) n = copy_ref m d s (Suc n)"
  using copy_ref_split [of d s 1 n m, unfolded copy_ref_1] assms by simp

section \<open>memcpy computes the reference copy\<close>

lemma store32_load32: "store32 m d (load32 m s) = copy_ref m d s 4"
  by (simp add: store32_def copy_ref_def bytes32_load32)

lemma memcpy_bottom_ref:
  "copy_up_safe d s (unat n) \<Longrightarrow> memcpy_bottom m d s n = copy_ref m d s (unat n)"
proof (induction m d s n rule: memcpy_bottom.induct)
  case (1 m d s n)
  show ?case
  proof (cases "n = 0")
    case True
    then show ?thesis by (simp add: memcpy_bottom.simps)
  next
    case False
    then have n: "unat n = Suc (unat (n - 1))" by (simp add: unat_minus_one unat_gt_0)
    with "1.prems" have "copy_up_safe (d + 1) (s + 1) (unat (n - 1))"
      using copy_up_safe_tail [of d s 1 "unat (n - 1)"] by simp
    then have "memcpy_bottom (m(d := m s)) (d + 1) (s + 1) (n - 1)
        = copy_ref (m(d := m s)) (d + 1) (s + 1) (unat (n - 1))"
      using False "1.IH" by blast
    then have "memcpy_bottom m d s n = copy_ref (m(d := m s)) (d + 1) (s + 1) (unat (n - 1))"
      using False by (simp add: memcpy_bottom.simps [of m d s n])
    with copy_ref_step [of d s "unat (n - 1)" m] "1.prems" n unat_lt32 [of n] show ?thesis by simp
  qed
qed

lemma rep_movsl_ref:
  "copy_up_safe d s (4 * n) \<Longrightarrow> 4 * n \<le> 4294967296 \<Longrightarrow>
     rep_movsl n m d s = (copy_ref m d s (4 * n), d + word_of_nat (4 * n), s + word_of_nat (4 * n))"
proof (induction n arbitrary: m d s)
  case 0
  then show ?case by simp
next
  case (Suc n)
  from Suc.prems have safe: "copy_up_safe d s (4 + 4 * n)" by simp
  from copy_up_safe_tail [OF safe] have "copy_up_safe (d + 4) (s + 4) (4 * n)" by simp
  with Suc have "rep_movsl (Suc n) m d s =
      (copy_ref (copy_ref m d s 4) (d + 4) (s + 4) (4 * n),
       d + 4 + word_of_nat (4 * n), s + 4 + word_of_nat (4 * n))"
    by (simp add: store32_load32)
  with copy_ref_split [OF safe, of m] Suc.prems show ?case by (simp add: algebra_simps)
qed

lemma unat_and_3: "unat (n AND 3 :: u32) = unat n mod 4"
proof -
  have "n AND 3 = take_bit 2 n" by (simp add: take_bit_eq_mask mask_eq_exp_minus_1)
  then show ?thesis by (simp add: take_bit_eq_mod unat_mod)
qed

lemma unat_drop_2: "unat (drop_bit 2 n :: u32) = unat n div 4"
  by (simp add: drop_bit_eq_div unat_div)

lemma memcpy_aligned_ref:
  assumes "copy_up_safe d s (unat n)"
  shows "memcpy_aligned m d s n = copy_ref m d s (unat n)"
proof -
  let ?q = "4 * (unat n div 4)" and ?r = "unat n mod 4"
  have qr: "unat n = ?q + ?r" by simp
  have safe: "copy_up_safe d s (?q + ?r)" using assms qr by simp
  have le: "?q + ?r \<le> 4294967296" using unat_lt32 [of n] qr by linarith
  have q: "copy_up_safe d s ?q" using safe by (rule copy_up_safe_mono) simp
  have "memcpy_aligned m d s n =
      memcpy_bottom (copy_ref m d s ?q) (d + word_of_nat ?q) (s + word_of_nat ?q) (n AND 3)"
    using rep_movsl_ref [OF q, of m] le by (simp add: memcpy_aligned_def unat_drop_2)
  also have "\<dots> = copy_ref (copy_ref m d s ?q) (d + word_of_nat ?q) (s + word_of_nat ?q) ?r"
    using copy_up_safe_tail [OF safe] memcpy_bottom_ref
    by (simp only: unat_and_3)
  also have "\<dots> = copy_ref m d s (unat n)"
    using copy_ref_split [OF safe le, of m] qr by simp
  finally show ?thesis .
qed

lemma memcpy_top_ref:
  "copy_up_safe d s (unat n) \<Longrightarrow> memcpy_top m d s n = copy_ref m d s (unat n)"
proof (induction m d s n rule: memcpy_top.induct)
  case (1 m d s n)
  show ?case
  proof (cases "n = 0 \<or> d AND 3 = 0")
    case True
    with "1.prems" show ?thesis
      by (auto simp: memcpy_top.simps [of m d s n] memcpy_aligned_ref)
  next
    case False
    then have n: "unat n = Suc (unat (n - 1))" by (simp add: unat_minus_one unat_gt_0)
    with "1.prems" have "copy_up_safe (d + 1) (s + 1) (unat (n - 1))"
      using copy_up_safe_tail [of d s 1 "unat (n - 1)"] by simp
    then have "memcpy_top (m(d := m s)) (d + 1) (s + 1) (n - 1)
        = copy_ref (m(d := m s)) (d + 1) (s + 1) (unat (n - 1))"
      using False "1.IH" by blast
    then have "memcpy_top m d s n = copy_ref (m(d := m s)) (d + 1) (s + 1) (unat (n - 1))"
      using False by (simp add: memcpy_top.simps [of m d s n])
    with copy_ref_step [of d s "unat (n - 1)" m] "1.prems" n unat_lt32 [of n] show ?thesis by simp
  qed
qed

lemma memcpy_ref: "copy_up_safe d s (unat n) \<Longrightarrow> memcpy m d s n = copy_ref m d s (unat n)"
  by (simp add: memcpy_def memcpy_top_ref)

section \<open>memmove computes the reference copy in both directions\<close>

lemma rep_movsb_up:
  "copy_up_safe d s n \<Longrightarrow> n \<le> 4294967296 \<Longrightarrow> rep_movsb n 1 m d s = copy_ref m d s n"
proof (induction n arbitrary: m d s)
  case 0
  then show ?case by simp
next
  case (Suc n)
  then have "copy_up_safe (d + 1) (s + 1) n"
    using copy_up_safe_tail [of d s 1 n] by simp
  with Suc have "rep_movsb (Suc n) 1 m d s = copy_ref (m(d := m s)) (d + 1) (s + 1) n" by simp
  with copy_ref_step [of d s n m] Suc.prems show ?case by simp
qed

lemma write_bytes_upd_commute:
  assumes "\<not> in_region y a (length bs)" and "length bs \<le> 4294967296"
  shows "write_bytes (m(y := v)) a bs = (write_bytes m a bs)(y := v)"
proof
  fix x
  show "write_bytes (m(y := v)) a bs x = ((write_bytes m a bs)(y := v)) x"
    using assms by (cases "x = y") (simp_all add: write_bytes_apply)
qed

lemma copy_ref_down_step:
  assumes safe: "d = s \<or> Suc n \<le> unat (s - d)" and n: "Suc n \<le> 4294967296"
  shows "copy_ref (m(d + word_of_nat n := m (s + word_of_nat n))) d s n = copy_ref m d s (Suc n)"
proof -
  have unread: "\<And>j. j < n \<Longrightarrow> d + word_of_nat n \<noteq> s + word_of_nat j"
  proof
    fix j assume j: "j < n" and eq: "d + word_of_nat n = s + (word_of_nat j :: u32)"
    then have "s - d = word_of_nat n - word_of_nat j" by (simp add: algebra_simps)
    then have "s - d = word_of_nat (n - j)" using j by simp
    then have "unat (s - d) = n - j" using n by (simp only: addr_simps)
    with safe j show False by auto
  qed
  have out: "\<not> in_region (d + word_of_nat n) d n" using n by (simp add: in_region_def addr_simps)
  have "read_bytes (m(d + word_of_nat n := m (s + word_of_nat n))) s n = read_bytes m s n"
    using unread by (intro read_bytes_cong) fastforce
  moreover have "read_bytes m s (Suc n) = read_bytes m s n @ [m (s + word_of_nat n)]"
    using read_bytes_append [of m s n 1] by (simp add: read_bytes_def)
  ultimately show ?thesis
    using out n by (simp add: copy_ref_def write_bytes_append write_bytes_upd_commute)
qed

lemma rep_movsb_down:
  "d = s \<or> n \<le> unat (s - d) \<Longrightarrow> n \<le> 4294967296 \<Longrightarrow>
     rep_movsb n (- 1) m (d + word_of_nat n - 1) (s + word_of_nat n - 1) = copy_ref m d s n"
proof (induction n arbitrary: m)
  case 0
  then show ?case by simp
next
  case (Suc n)
  then have "rep_movsb (Suc n) (- 1) m (d + word_of_nat (Suc n) - 1) (s + word_of_nat (Suc n) - 1)
      = copy_ref (m(d + word_of_nat n := m (s + word_of_nat n))) d s n"
    by auto
  with copy_ref_down_step [OF Suc.prems, of m] show ?case by simp
qed

definition no_wrap :: "u32 \<Rightarrow> nat \<Rightarrow> bool" where
  "no_wrap a n \<longleftrightarrow> unat a + n \<le> 4294967296"

lemma no_wrap_diff:
  assumes "a < b" and "no_wrap b n"
  shows "n \<le> unat (a - b)"
proof -
  have "unat (a - b) = 4294967296 - (unat b - unat a)"
    using assms(1) unat_wrap_sub [of "unat a" b] by (simp add: word_less_nat_alt)
  then show ?thesis using assms by (simp add: no_wrap_def word_less_nat_alt)
qed

lemma memmove_ref:
  assumes "no_wrap d (unat n)" and "no_wrap s (unat n)"
  shows "memmove m d s n = copy_ref m d s (unat n)"
proof (cases "d \<le> s")
  case True
  then have "copy_up_safe d s (unat n)"
    using no_wrap_diff [of d s "unat n"] assms(2) by (cases "d = s") (auto simp: copy_up_safe_def)
  with True show ?thesis
    using rep_movsb_up [of d s "unat n" m] unat_lt32 [of n] by (simp add: memmove_def)
next
  case False
  then have "unat n \<le> unat (s - d)" using no_wrap_diff assms(1) by simp
  with False show ?thesis
    using rep_movsb_down [of d s "unat n" m] unat_lt32 [of n] by (simp add: memmove_def)
qed

section \<open>The contract of a copy routine\<close>

text \<open>
  What the kernel relies on when it calls a copy routine: on arguments that satisfy the
  routine's condition the destination holds the old contents of the source, and nothing
  else changes.
\<close>

locale copy_routine =
  fixes copy :: "mem \<Rightarrow> u32 \<Rightarrow> u32 \<Rightarrow> u32 \<Rightarrow> mem"
    and ok :: "u32 \<Rightarrow> u32 \<Rightarrow> nat \<Rightarrow> bool"
  assumes copy_eq: "ok d s (unat n) \<Longrightarrow> copy m d s n = copy_ref m d s (unat n)"
begin

lemma copied: "ok d s (unat n) \<Longrightarrow> read_bytes (copy m d s n) d (unat n) = read_bytes m s (unat n)"
  using unat_lt32 [of n] read_write_bytes [of "read_bytes m s (unat n)" m d]
  by (simp add: copy_eq copy_ref_def)

lemma frame: "ok d s (unat n) \<Longrightarrow> \<not> in_region x d (unat n) \<Longrightarrow> copy m d s n x = m x"
  using unat_lt32 [of n] by (simp add: copy_eq copy_ref_def mem_simps)

lemma copied_cstring:
  assumes "ok d s (unat n)" and "cstring m s cs" and "length cs < unat n"
  shows "cstring (copy m d s n) d cs"
proof -
  have "read_bytes (copy m d s n) d (Suc (length cs))
      = take (Suc (length cs)) (read_bytes (copy m d s n) d (unat n))"
    using assms(3) by (simp add: take_read_bytes min_def)
  also have "\<dots> = read_bytes m s (Suc (length cs))"
    using assms by (simp add: copied take_read_bytes min_def)
  finally show ?thesis using assms(2) by (simp add: cstring_def)
qed

end

interpretation memcpy: copy_routine memcpy copy_up_safe
  by unfold_locales (rule memcpy_ref)

interpretation memmove: copy_routine memmove "\<lambda>d s n. no_wrap d n \<and> no_wrap s n"
  by unfold_locales (simp add: memmove_ref)

section \<open>memset fills\<close>

lemma write_bytes_fill_split:
  "write_bytes m a (replicate (n + k) b)
     = write_bytes (write_bytes m a (replicate n b)) (a + word_of_nat n) (replicate k b)"
  by (simp add: replicate_add write_bytes_append)

lemma memset_bottom_fill:
  "memset_bottom m d eax n = write_bytes m d (replicate (unat n) (ucast eax))"
proof (induction m d eax n rule: memset_bottom.induct)
  case (1 m d eax n)
  show ?case
  proof (cases "n = 0")
    case True
    then show ?thesis by (simp add: memset_bottom.simps)
  next
    case False
    then have "unat n = Suc (unat (n - 1))" by (simp add: unat_minus_one unat_gt_0)
    moreover have "memset_bottom (m(d := ucast eax)) (d + 1) eax (n - 1)
        = write_bytes (m(d := ucast eax)) (d + 1) (replicate (unat (n - 1)) (ucast eax))"
      using False "1.IH" by blast
    ultimately show ?thesis using False by (simp add: memset_bottom.simps [of m d eax n])
  qed
qed

lemma rep_stosl_fill:
  "bytes32 eax = replicate 4 b \<Longrightarrow>
     rep_stosl n m d eax = (write_bytes m d (replicate (4 * n) b), d + word_of_nat (4 * n))"
proof (induction n arbitrary: m d)
  case 0
  then show ?case by simp
next
  case (Suc n)
  then show ?case
    using write_bytes_fill_split [of m d 4 "4 * n" b] by (simp add: store32_def algebra_simps)
qed

lemma memset_aligned_fill:
  assumes "bytes32 eax = replicate 4 (ucast eax)"
  shows "memset_aligned m d eax n = write_bytes m d (replicate (unat n) (ucast eax))"
proof -
  have "memset_aligned m d eax n = write_bytes (write_bytes m d (replicate (4 * (unat n div 4)) (ucast eax)))
      (d + word_of_nat (4 * (unat n div 4))) (replicate (unat n mod 4) (ucast eax))"
    by (simp add: memset_aligned_def rep_stosl_fill [OF assms] memset_bottom_fill
        unat_drop_2 unat_and_3)
  also have "\<dots> = write_bytes m d (replicate (unat n) (ucast eax))"
    by (simp only: write_bytes_fill_split [symmetric] mult_div_mod_eq)
  finally show ?thesis .
qed

lemma memset_top_fill:
  "bytes32 eax = replicate 4 (ucast eax) \<Longrightarrow>
     memset_top m d eax n = write_bytes m d (replicate (unat n) (ucast eax))"
proof (induction m d eax n rule: memset_top.induct)
  case (1 m d eax n)
  show ?case
  proof (cases "n = 0 \<or> d AND 3 = 0")
    case True
    with "1.prems" show ?thesis
      by (auto simp: memset_top.simps [of m d eax n] memset_aligned_fill)
  next
    case False
    then have "unat n = Suc (unat (n - 1))" by (simp add: unat_minus_one unat_gt_0)
    moreover have "memset_top (m(d := ucast eax)) (d + 1) eax (n - 1)
        = write_bytes (m(d := ucast eax)) (d + 1) (replicate (unat (n - 1)) (ucast eax))"
      using False "1.IH" "1.prems" by blast
    ultimately show ?thesis using False by (simp add: memset_top.simps [of m d eax n])
  qed
qed

lemma memset_pattern:
  fixes c :: u32
  defines "e \<equiv> push_bit 24 (c AND 255) OR push_bit 16 (c AND 255) OR push_bit 8 (c AND 255) OR (c AND 255)"
  shows "bytes32 e = replicate 4 (ucast c)" and "ucast e = (ucast c :: u8)"
proof -
  have c: "c AND 255 = ucast (ucast c :: u8)"
  proof -
    have "c AND 255 = c AND mask 8" by (simp add: mask_eq_exp_minus_1)
    then show ?thesis by (auto intro!: bit_word_eqI simp: bit_simps)
  qed
  have e: "e = ucast (ucast c :: u8) OR push_bit 8 (ucast (ucast c :: u8))
      OR push_bit 16 (ucast (ucast c :: u8)) OR push_bit 24 (ucast (ucast c :: u8))"
    unfolding e_def c by (simp only: or.commute or.left_commute)
  have b: "bytes32 e = [ucast c, ucast c, ucast c, ucast c]"
    unfolding e by (rule bytes32_split)
  then show "bytes32 e = replicate 4 (ucast c)" by (simp add: numeral_eq_Suc)
  from b show "ucast e = (ucast c :: u8)" by (simp add: bytes32_def)
qed

lemma memset_fill: "memset m s c n = write_bytes m s (replicate (unat n) (ucast c))"
  using memset_pattern [of c] by (simp add: memset_def Let_def memset_top_fill)

lemma memset_dword_fill:
  "memset_dword m s c n = write_bytes m s (concat (replicate (unat n) (bytes32 c)))"
proof -
  have "fst (rep_stosl k m s c) = write_bytes m s (concat (replicate k (bytes32 c)))" for k
    by (induction k arbitrary: m s) (simp_all add: write_bytes_append store32_def)
  then show ?thesis by (simp add: memset_dword_def)
qed

section \<open>Properties\<close>

text \<open>
  C27. The three-phase \<open>memcpy\<close> (bytes up to an aligned destination, 32-bit words, bytes of the rest) copies
  exactly the \<open>n\<close> bytes of the source, as a single copy of the source's old contents does, unless
  the destination starts inside the source.
\<close>

theorem memcpy_copies:
  "copy_up_safe d s (unat n) \<Longrightarrow> memcpy m d s n = write_bytes m d (read_bytes m s (unat n))"
  using memcpy.copy_eq [of d s n m] by (simp add: copy_ref_def)

theorem memcpy_copies_witness:
  "memcpy (\<lambda>x. if x = 0x1001 then 7 else 0) 0x2003 0x1000 6
     = write_bytes (\<lambda>x. if x = 0x1001 then 7 else 0) 0x2003 [0, 7, 0, 0, 0, 0]"
proof -
  have "copy_up_safe 0x2003 0x1000 (unat (6 :: u32))" by (simp add: copy_up_safe_def)
  from memcpy_copies [OF this, of "\<lambda>x. if x = 0x1001 then 7 else 0"] show ?thesis
    by (simp add: read_bytes_def upt_rec)
qed

text \<open>
  C28. \<open>memmove\<close> copies the old contents of the source whether or not the two ranges overlap, in either
  direction, as long as neither range runs past the end of the address space.
\<close>

theorem memmove_copies:
  assumes "unat d + unat n \<le> 4294967296" and "unat s + unat n \<le> 4294967296"
  shows "memmove m d s n = write_bytes m d (read_bytes m s (unat n))"
  using memmove.copy_eq [of d n s m] assms by (simp add: copy_ref_def no_wrap_def)

theorem memmove_copies_witness:
  "memmove (\<lambda>x. if x = 0x1000 then 1 else if x = 0x1001 then 2 else 0) 0x1001 0x1000 3
     = write_bytes (\<lambda>x. if x = 0x1000 then 1 else if x = 0x1001 then 2 else 0) 0x1001 [1, 2, 0]"
  using memmove_copies [of "0x1001" 3 "0x1000" "\<lambda>x. if x = 0x1000 then 1 else if x = 0x1001 then 2 else 0"]
  by (simp add: read_bytes_def upt_rec)

text \<open>
  \<open>memset\<close>, with its aligned 32-bit stores of the repeated byte, fills exactly the \<open>n\<close> bytes at \<open>s\<close> with the
  low byte of \<open>c\<close>.
\<close>

lemma memset_fills: "memset m s c n = write_bytes m s (replicate (unat n) (ucast c))"
  by (rule memset_fill)

end
