(* ===== verification/Lib_String.thy ===== *)
theory Lib_String
  imports Lib_Mem
begin

text \<open>
  The string routines of \<^verbatim>\<open>src/student-distrib/lib.c\<close> over pointers into the flat
  memory: \<open>strlen\<close>, \<open>strrev\<close>, \<open>itoa\<close>, \<open>strncmp\<close>, \<open>strcpy\<close> and \<open>strncpy\<close>. A loop that
  only a NUL byte stops may run forever, so \<open>strlen\<close>, \<open>strcpy\<close> and \<open>itoa\<close> return an
  option, \<open>None\<close> for a call that does not return (or, in \<open>itoa\<close>, that divides by zero
  or reads past its digit table); the lemmas show that they return on every string, and
  with which memory.
\<close>

section \<open>The routines\<close>

partial_function (option) strlen_loop :: "mem \<Rightarrow> u32 \<Rightarrow> u32 \<Rightarrow> u32 option" where
  "strlen_loop m s len = (if m (s + len) \<noteq> 0 then strlen_loop m s (len + 1) else Some len)"

definition strlen :: "mem \<Rightarrow> u32 \<Rightarrow> u32 option" where
  "strlen m s = strlen_loop m s 0"

text \<open>\<open>beg\<close> and \<open>end\<close> are \<open>int32_t\<close>; the caller passes \<open>strlen (s) - 1\<close> as \<open>end\<close>.\<close>

function strrev_loop :: "mem \<Rightarrow> u32 \<Rightarrow> int \<Rightarrow> int \<Rightarrow> mem" where
  "strrev_loop m s beg end =
     (if beg < end then
        strrev_loop (m(s + word_of_int end := m (s + word_of_int beg),
                       s + word_of_int beg := m (s + word_of_int end))) s (beg + 1) (end - 1)
      else m)"
  by pat_completeness auto
termination
  by (relation "measure (\<lambda>(m, s, beg, end). nat (end - beg))") auto

definition strrev :: "mem \<Rightarrow> u32 \<Rightarrow> mem option" where
  "strrev m s = map_option (\<lambda>len. strrev_loop m s 0 (sint (len - 1))) (strlen m s)"

text \<open>The digit table with the NUL that ends the literal.\<close>

definition lookup_digits :: "u8 list" where
  "lookup_digits = bytes ''0123456789ABCDEFGHIJKLMNOPQRSTUVWXYZ'' @ [0]"

partial_function (option) itoa_loop :: "mem \<Rightarrow> u32 \<Rightarrow> u32 \<Rightarrow> u32 \<Rightarrow> (mem \<times> u32) option" where
  "itoa_loop m newbuf newval radix =
     (if newval > 0 then
        if radix = 0 \<or> unat (newval mod radix) \<ge> length lookup_digits then None
        else itoa_loop (m(newbuf := lookup_digits ! unat (newval mod radix))) (newbuf + 1)
               (newval div radix) radix
      else Some (m, newbuf))"

definition itoa :: "mem \<Rightarrow> u32 \<Rightarrow> u32 \<Rightarrow> u32 \<Rightarrow> mem option" where
  "itoa m value buf radix =
     (if value = 0 then Some (m(buf := byte CHR ''0'', buf + 1 := 0))
      else case itoa_loop m buf value radix of
             None \<Rightarrow> None
           | Some (m', newbuf) \<Rightarrow> strrev (m'(newbuf := 0)) buf)"

function strncmp_loop :: "mem \<Rightarrow> u32 \<Rightarrow> u32 \<Rightarrow> u32 \<Rightarrow> u32 \<Rightarrow> int" where
  "strncmp_loop m s1 s2 n i =
     (if i < n then
        if m (s1 + i) \<noteq> m (s2 + i) \<or> m (s1 + i) = 0 then sint (m (s1 + i)) - sint (m (s2 + i))
        else strncmp_loop m s1 s2 n (i + 1)
      else 0)"
  by pat_completeness auto
termination
  by (relation "measure (\<lambda>(m, s1, s2, n, i). unat n - unat i)")
    (auto simp: loop_measure32)

definition strncmp :: "mem \<Rightarrow> u32 \<Rightarrow> u32 \<Rightarrow> u32 \<Rightarrow> int" where
  "strncmp m s1 s2 n = strncmp_loop m s1 s2 n 0"

partial_function (option) strcpy_loop :: "mem \<Rightarrow> u32 \<Rightarrow> u32 \<Rightarrow> u32 \<Rightarrow> mem option" where
  "strcpy_loop m dest src i =
     (if m (src + i) \<noteq> 0 then strcpy_loop (m(dest + i := m (src + i))) dest src (i + 1)
      else Some (m(dest + i := 0)))"

definition strcpy :: "mem \<Rightarrow> u32 \<Rightarrow> u32 \<Rightarrow> mem option" where
  "strcpy m dest src = strcpy_loop m dest src 0"

function strncpy_pad :: "mem \<Rightarrow> u32 \<Rightarrow> u32 \<Rightarrow> u32 \<Rightarrow> mem" where
  "strncpy_pad m dest n i =
     (if i < n then strncpy_pad (m(dest + i := 0)) dest n (i + 1) else m)"
  by pat_completeness auto
termination
  by (relation "measure (\<lambda>(m, dest, n, i). unat n - unat i)")
    (auto simp: loop_measure32)

function strncpy_loop :: "mem \<Rightarrow> u32 \<Rightarrow> u32 \<Rightarrow> u32 \<Rightarrow> u32 \<Rightarrow> mem" where
  "strncpy_loop m dest src n i =
     (if m (src + i) \<noteq> 0 \<and> i < n
      then strncpy_loop (m(dest + i := m (src + i))) dest src n (i + 1)
      else strncpy_pad m dest n i)"
  by pat_completeness auto
termination
  by (relation "measure (\<lambda>(m, dest, src, n, i). unat n - unat i)")
    (auto simp: loop_measure32)

definition strncpy :: "mem \<Rightarrow> u32 \<Rightarrow> u32 \<Rightarrow> u32 \<Rightarrow> mem" where
  "strncpy m dest src n = strncpy_loop m dest src n 0"

declare strrev_loop.simps [simp del] strncmp_loop.simps [simp del]
  strncpy_pad.simps [simp del] strncpy_loop.simps [simp del]

section \<open>strlen\<close>

lemma cstring_length: "cstring m s cs \<Longrightarrow> length cs < 4294967296"
proof (rule ccontr)
  assume cs: "cstring m s cs" and "\<not> length cs < 4294967296"
  then have lt: "length cs mod 4294967296 < length cs" by (metis mod_less_divisor not_less
        order_less_le_trans zero_less_numeral)
  have "(word_of_nat (length cs mod 4294967296) :: u32) = word_of_nat (length cs)"
    by (rule word_of_nat_mod32)
  with cstring_end [OF cs] cstring_nonzero [OF cs lt] show False by simp
qed

lemma strlen_loop_cstring:
  "cstring m (s + i) cs \<Longrightarrow> strlen_loop m s i = Some (i + word_of_nat (length cs))"
proof (induction cs arbitrary: i)
  case Nil
  then show ?case by (simp add: strlen_loop.simps cstring_Nil)
next
  case (Cons c cs)
  then have "m (s + i) \<noteq> 0" and "cstring m (s + (i + 1)) cs"
    by (simp_all add: cstring_Cons add.assoc)
  with Cons.IH show ?case by (simp add: strlen_loop.simps [of m s i] algebra_simps)
qed

lemma strlen_cstring: "cstring m s cs \<Longrightarrow> strlen m s = Some (word_of_nat (length cs))"
  using strlen_loop_cstring [of m s 0 cs] by (simp add: strlen_def)

section \<open>strncmp\<close>

text \<open>What \<open>strncmp\<close> compares: the characters before the first NUL, at most \<open>n\<close>.\<close>

definition prefix_str :: "mem \<Rightarrow> u32 \<Rightarrow> nat \<Rightarrow> u8 list" where
  "prefix_str m s n = takeWhile (\<lambda>c. c \<noteq> 0) (read_bytes m s n)"

lemma prefix_str_0 [simp]: "prefix_str m s 0 = []"
  by (simp add: prefix_str_def)

lemma prefix_str_Suc:
  "prefix_str m s (Suc n) = (if m s = 0 then [] else m s # prefix_str m (s + 1) n)"
  by (simp add: prefix_str_def read_bytes_Suc)

lemma prefix_str_cstring: "cstring m s cs \<Longrightarrow> prefix_str m s n = take n cs"
proof (induction cs arbitrary: s n)
  case Nil
  then show ?case by (cases n) (simp_all add: prefix_str_Suc cstring_Nil)
next
  case (Cons c cs)
  then show ?case by (cases n) (simp_all add: prefix_str_Suc cstring_Cons)
qed

lemma strncmp_loop_0:
  "strncmp_loop m s1 s2 n i = 0 \<longleftrightarrow>
     prefix_str m (s1 + i) (unat n - unat i) = prefix_str m (s2 + i) (unat n - unat i)"
proof (induction m s1 s2 n i rule: strncmp_loop.induct)
  case (1 m s1 s2 n i)
  show ?case
  proof (cases "i < n")
    case True
    note k = loop_Suc32 [OF True]
    show ?thesis
      using 1 True by (auto simp: k prefix_str_Suc strncmp_loop.simps [of m s1 s2 n i] add.assoc
          sint_eq_iff8 sint_eq_0_iff8)
  next
    case False
    then show ?thesis by (simp add: strncmp_loop.simps [of m s1 s2 n i] loop_done32)
  qed
qed

lemma strncmp_eq_0: "strncmp m s1 s2 n = 0 \<longleftrightarrow> prefix_str m s1 (unat n) = prefix_str m s2 (unat n)"
  by (simp add: strncmp_def strncmp_loop_0)

text \<open>Otherwise the sign is that of the first characters that differ, as signed chars.\<close>

lemma strncmp_loop_diff:
  "unat i \<le> k \<Longrightarrow> k < unat n \<Longrightarrow>
     \<forall>j. unat i \<le> j \<and> j < k \<longrightarrow>
       m (s1 + word_of_nat j) = m (s2 + word_of_nat j) \<and> m (s1 + word_of_nat j) \<noteq> 0 \<Longrightarrow>
     m (s1 + word_of_nat k) \<noteq> m (s2 + word_of_nat k) \<Longrightarrow>
     strncmp_loop m s1 s2 n i = sint (m (s1 + word_of_nat k)) - sint (m (s2 + word_of_nat k))"
proof (induction m s1 s2 n i rule: strncmp_loop.induct)
  case (1 m s1 s2 n i)
  have lt: "i < n" using "1.prems"(1,2) by (simp add: word_less_nat_alt)
  show ?case
  proof (cases "unat i = k")
    case True
    then have "word_of_nat k = i" by auto
    with "1.prems"(4) lt show ?thesis by (simp add: strncmp_loop.simps [of m s1 s2 n i])
  next
    case False
    with "1.prems"(1) have "unat i < k" by simp
    then have eq: "m (s1 + i) = m (s2 + i)" "m (s1 + i) \<noteq> 0"
      using "1.prems"(3) [rule_format, of "unat i"] by auto
    have "\<forall>j. unat (i + 1) \<le> j \<and> j < k \<longrightarrow>
        m (s1 + word_of_nat j) = m (s2 + word_of_nat j) \<and> m (s1 + word_of_nat j) \<noteq> 0"
      using "1.prems"(3) lt by (simp only: unat_suc32) (metis Suc_leD)
    moreover have "unat (i + 1) \<le> k" using \<open>unat i < k\<close> lt by (simp add: unat_suc32)
    ultimately have "strncmp_loop m s1 s2 n (i + 1)
        = sint (m (s1 + word_of_nat k)) - sint (m (s2 + word_of_nat k))"
      using lt eq "1.IH" "1.prems"(2,4) by blast
    with lt eq show ?thesis by (simp add: strncmp_loop.simps [of m s1 s2 n i])
  qed
qed

section \<open>strcpy and strncpy\<close>

lemma strcpy_loop_cstring:
  "cstring m (src + i) cs \<Longrightarrow> copy_up_safe dest src (Suc (length cs)) \<Longrightarrow>
     Suc (length cs) \<le> 4294967296 \<Longrightarrow>
     strcpy_loop m dest src i = Some (copy_ref m (dest + i) (src + i) (Suc (length cs)))"
proof (induction cs arbitrary: m i)
  case Nil
  then show ?case
    by (simp add: strcpy_loop.simps cstring_Nil copy_ref_def read_bytes_Suc fun_upd_def)
next
  case (Cons c cs)
  let ?m = "m(dest + i := m (src + i))"
  have le: "Suc (length cs) \<le> 4294967296" using Cons.prems(3) by simp
  have safe: "copy_up_safe (dest + i) (src + i) (1 + Suc (length cs))"
    using Cons.prems(2) by (auto simp: copy_up_safe_def)
  have "read_bytes ?m (src + i + 1) (Suc (length cs)) = read_bytes m (src + i + 1) (Suc (length cs))"
  proof (rule read_bytes_cong)
    fix j assume "j < Suc (length cs)"
    then have "\<not> in_region (src + i + word_of_nat 1 + word_of_nat j) (dest + i) 1"
      using copy_tail_unread [OF safe] Cons.prems(3) by simp
    then show "?m (src + i + 1 + word_of_nat j) = m (src + i + 1 + word_of_nat j)"
      by (auto simp: in_region_def)
  qed
  moreover have "cstring m (src + i + 1) cs" using Cons.prems(1) by (simp add: cstring_Cons)
  ultimately have "cstring ?m (src + (i + 1)) cs" by (simp add: cstring_def add.assoc)
  moreover have "copy_up_safe dest src (Suc (length cs))"
    using Cons.prems(2) by (rule copy_up_safe_mono) simp
  ultimately have "strcpy_loop ?m dest src (i + 1)
      = Some (copy_ref ?m (dest + (i + 1)) (src + (i + 1)) (Suc (length cs)))"
    using le by (rule Cons.IH)
  moreover have "m (src + i) \<noteq> 0" using Cons.prems(1) by (simp add: cstring_Cons)
  ultimately show ?case
    using copy_ref_step [of "dest + i" "src + i" "Suc (length cs)" m] safe Cons.prems(3)
    by (simp add: strcpy_loop.simps [of m dest src i] add.assoc)
qed

lemma strcpy_cstring:
  "cstring m src cs \<Longrightarrow> copy_up_safe dest src (Suc (length cs)) \<Longrightarrow>
     strcpy m dest src = Some (write_bytes m dest (cs @ [0]))"
  using strcpy_loop_cstring [of m src 0 cs dest] cstring_length [of m src cs]
  by (simp add: strcpy_def copy_ref_def cstring_def)

lemma strncpy_pad_zero:
  "strncpy_pad m dest n i = write_bytes m (dest + i) (replicate (unat n - unat i) 0)"
proof (induction m dest n i rule: strncpy_pad.induct)
  case (1 m dest n i)
  show ?case
  proof (cases "i < n")
    case True
    note k = loop_Suc32 [OF True]
    have "strncpy_pad (m(dest + i := 0)) dest n (i + 1)
        = write_bytes (m(dest + i := 0)) (dest + (i + 1)) (replicate (unat n - unat (i + 1)) 0)"
      using "1.IH" True by blast
    with True k show ?thesis by (simp add: strncpy_pad.simps [of m dest n i] add.assoc)
  next
    case False
    then show ?thesis by (simp add: strncpy_pad.simps [of m dest n i] loop_done32)
  qed
qed

definition padded :: "u8 list \<Rightarrow> nat \<Rightarrow> u8 list" where
  "padded cs n = cs @ replicate (n - length cs) 0"

lemma padded_Cons: "padded (c # cs) (Suc n) = c # padded cs n"
  by (simp add: padded_def)

lemma strncpy_loop_padded:
  "disjoint_regions dest (unat n) src (unat n) \<Longrightarrow>
     strncpy_loop m dest src n i
       = write_bytes m (dest + i) (padded (prefix_str m (src + i) (unat n - unat i)) (unat n - unat i))"
proof (induction m dest src n i rule: strncpy_loop.induct)
  case (1 m dest src n i)
  show ?case
  proof (cases "m (src + i) \<noteq> 0 \<and> i < n")
    case True
    let ?m = "m(dest + i := m (src + i))"
    from True have k: "unat n - unat i = Suc (unat n - unat (i + 1))" by (simp add: loop_Suc32)
    have "in_region (dest + i) dest (unat n)"
      using True by (simp add: in_region_def word_less_nat_alt)
    then have out: "\<not> in_region (dest + i) src (unat n)"
      using "1.prems" disjoint_regionsD by blast
    have "read_bytes ?m (src + (i + 1)) (unat n - unat (i + 1))
        = read_bytes m (src + (i + 1)) (unat n - unat (i + 1))"
    proof (rule read_bytes_cong)
      fix j assume j: "j < unat n - unat (i + 1)"
      then have "in_region (src + word_of_nat (unat (i + 1) + j)) src (unat n)"
        using unat_lt32 [of n] by (intro in_region_offset) simp_all
      then have "in_region (src + (i + 1) + word_of_nat j) src (unat n)" by (simp add: add.assoc)
      with out have "src + (i + 1) + word_of_nat j \<noteq> dest + i" by metis
      then show "?m (src + (i + 1) + word_of_nat j) = m (src + (i + 1) + word_of_nat j)" by simp
    qed
    then have "strncpy_loop ?m dest src n (i + 1) = write_bytes ?m (dest + (i + 1))
        (padded (prefix_str m (src + (i + 1)) (unat n - unat (i + 1))) (unat n - unat (i + 1)))"
      using "1.IH" True "1.prems" unfolding prefix_str_def by metis
    with True k show ?thesis
      by (simp add: strncpy_loop.simps [of m dest src n i] prefix_str_Suc padded_Cons add.assoc)
  next
    case False
    then have "padded (prefix_str m (src + i) (unat n - unat i)) (unat n - unat i)
        = replicate (unat n - unat i) 0"
      by (cases "unat n - unat i") (auto simp: padded_def prefix_str_Suc word_less_nat_alt)
    with False show ?thesis
      by (auto simp: strncpy_loop.simps [of m dest src n i] strncpy_pad_zero)
  qed
qed

lemma strncpy_padded:
  "disjoint_regions dest (unat n) src (unat n) \<Longrightarrow>
     strncpy m dest src n = write_bytes m dest (padded (prefix_str m src (unat n)) (unat n))"
  using strncpy_loop_padded [of dest n src m 0] by (simp add: strncpy_def)

section \<open>strrev\<close>

lemma uint_add_diff: "0 \<le> v \<Longrightarrow> v < 4294967296 \<Longrightarrow> uint (s + word_of_int v - s) = v" for s :: u32
  by (simp add: uint_word_of_int)

lemma strrev_loop_apply:
  "0 \<le> beg \<Longrightarrow> end < 2147483648 \<Longrightarrow>
     strrev_loop m s beg end x =
       (if beg \<le> uint (x - s) \<and> uint (x - s) \<le> end
        then m (s + word_of_int (beg + end - uint (x - s))) else m x)"
proof (induction m s beg "end" rule: strrev_loop.induct)
  case (1 m s beg "end")
  let ?m = "m(s + word_of_int end := m (s + word_of_int beg),
              s + word_of_int beg := m (s + word_of_int end))"
  let ?i = "uint (x - s)"
  have x: "x = s + word_of_int ?i" by simp
  show ?case
  proof (cases "beg < end")
    case False
    have "beg \<le> ?i \<and> ?i \<le> end \<Longrightarrow> s + word_of_int (beg + end - ?i) = x"
    proof -
      assume "beg \<le> ?i \<and> ?i \<le> end"
      then have "beg + end - ?i = ?i" using False by linarith
      then show "s + word_of_int (beg + end - ?i) = x" using x by metis
    qed
    with False show ?thesis
      by (auto simp: strrev_loop.simps [of m s beg "end"] simp del: of_int_add of_int_diff)
  next
    case True
    have inj: "s + word_of_int u = s + (word_of_int v :: u32) \<longleftrightarrow> u = v"
      if "0 \<le> u" "u \<le> end" "0 \<le> v" "v \<le> end" for u v
    proof -
      have "u < 4294967296" "v < 4294967296" using that "1.prems" by linarith+
      with that uint_add_diff [of u s] uint_add_diff [of v s] show ?thesis by metis
    qed
    have IH: "strrev_loop ?m s (beg + 1) (end - 1) x =
       (if beg + 1 \<le> ?i \<and> ?i \<le> end - 1 then ?m (s + word_of_int (beg + 1 + (end - 1) - ?i)) else ?m x)"
      using 1 True by (metis add_increasing2 diff_strict_mono diff_zero zero_le_one zero_less_one)
    show ?thesis
    proof (cases "beg \<le> ?i \<and> ?i \<le> end")
      case False
      have "x \<noteq> s + word_of_int beg" "x \<noteq> s + word_of_int end"
        using False True "1.prems" uint_add_diff [of beg s] uint_add_diff [of "end" s] by auto
      with IH True False show ?thesis by (auto simp: strrev_loop.simps [of m s beg "end"])
    next
      case i: True
      then consider "?i = beg" | "?i = end" | "beg < ?i" "?i < end" by linarith
      then show ?thesis
      proof cases
        case 1
        then have "x = s + word_of_int beg" using x by metis
        with IH True 1 show ?thesis by (simp add: strrev_loop.simps [of m s beg "end"])
      next
        case 2
        then have "x = s + word_of_int end" using x by metis
        with IH True 2 inj [of "end" beg] "1.prems" show ?thesis
          by (simp add: strrev_loop.simps [of m s beg "end"])
      next
        case 3
        let ?j = "beg + end - ?i"
        have "s + word_of_int ?j \<noteq> s + word_of_int beg" "s + word_of_int ?j \<noteq> s + word_of_int end"
          using 3 inj [of ?j beg] inj [of ?j "end"] "1.prems" by auto
        with IH True 3 show ?thesis by (simp add: strrev_loop.simps [of m s beg "end"])
      qed
    qed
  qed
qed

lemma strrev_cstring:
  assumes cs: "cstring m s cs" and len: "length cs \<le> 2147483648"
  shows "strrev m s = Some (write_bytes m s (rev cs))"
proof -
  have "sint (word_of_nat (length cs) - 1 :: u32) = int (length cs) - 1"
  proof -
    have "(word_of_nat (length cs) - 1 :: u32) = word_of_int (int (length cs) - 1)" by simp
    then show ?thesis using len by (simp only: sint_sbintrunc') (simp add: signed_take_bit_int_eq_self)
  qed
  moreover have "strrev_loop m s 0 (int (length cs) - 1) = write_bytes m s (rev cs)"
  proof
    fix x
    let ?i = "unat (x - s)"
    have u: "uint (x - s) = int ?i" by simp
    have len': "int (length cs) - 1 < 2147483648" using len by simp
    note ap = strrev_loop_apply [OF order_refl len', of m s x, unfolded u]
    show "strrev_loop m s 0 (int (length cs) - 1) x = write_bytes m s (rev cs) x"
    proof (cases "?i < length cs")
      case True
      then have j: "0 + (int (length cs) - 1) - int ?i = int (length cs - Suc ?i)"
        and c: "0 \<le> int ?i \<and> int ?i \<le> int (length cs) - 1" by linarith+
      have "strrev_loop m s 0 (int (length cs) - 1) x = m (s + word_of_nat (length cs - Suc ?i))"
        using ap c unfolding j of_int_of_nat_eq by argo
      also have "\<dots> = cs ! (length cs - Suc ?i)" using True by (intro cstring_nth [OF cs]) simp
      finally show ?thesis using True len by (simp add: write_bytes_apply in_region_def rev_nth)
    next
      case False
      then have c: "\<not> (0 \<le> int ?i \<and> int ?i \<le> int (length cs) - 1)" by linarith
      have "strrev_loop m s 0 (int (length cs) - 1) x = m x" using ap c by argo
      with False len show ?thesis by (simp add: write_bytes_apply in_region_def)
    qed
  qed
  ultimately show ?thesis by (simp add: strrev_def strlen_cstring [OF cs])
qed

section \<open>itoa\<close>

text \<open>The digits of \<open>n\<close> in base \<open>r\<close>, least significant first, and the printed numeral.\<close>

fun digits :: "nat \<Rightarrow> nat \<Rightarrow> nat list" where
  "digits r n = (if n = 0 \<or> r < 2 then [] else n mod r # digits r (n div r))"

declare digits.simps [simp del]

definition numeral_str :: "nat \<Rightarrow> nat \<Rightarrow> u8 list" where
  "numeral_str r n =
     (if n = 0 then [byte CHR ''0''] else rev (map (\<lambda>d. lookup_digits ! d) (digits r n)))"

text \<open>Reading a numeral back: the value of a digit character, and of a string of them.\<close>

definition digit_value :: "u8 \<Rightarrow> nat" where
  "digit_value c = (if c \<le> byte CHR ''9'' then unat c - 48 else unat c - 55)"

definition string_value :: "nat \<Rightarrow> u8 list \<Rightarrow> nat" where
  "string_value r cs = foldl (\<lambda>a c. a * r + digit_value c) 0 cs"

lemma digits_0 [simp]: "digits r 0 = []"
  by (simp add: digits.simps)

lemma digits_pos: "0 < n \<Longrightarrow> 2 \<le> r \<Longrightarrow> digits r n = n mod r # digits r (n div r)"
  by (simp add: digits.simps [of r n])

lemma mod_less36: "2 \<le> r \<Longrightarrow> r \<le> 36 \<Longrightarrow> n mod r < (36 :: nat)"
  by (rule less_le_trans [OF mod_less_divisor]) simp_all

lemma digits_less: "2 \<le> r \<Longrightarrow> \<forall>d \<in> set (digits r n). d < r"
proof (induction r n rule: digits.induct)
  case (1 r n)
  show ?case
  proof (cases "n = 0")
    case False
    with 1 have "\<forall>d \<in> set (digits r (n div r)). d < r" by simp
    with False "1.prems" show ?thesis by (simp add: digits_pos [of n r])
  qed simp
qed

lemma digits_last: "2 \<le> r \<Longrightarrow> 0 < n \<Longrightarrow> last (digits r n) \<noteq> 0 \<and> digits r n \<noteq> []"
proof (induction r n rule: digits.induct)
  case (1 r n)
  show ?case
  proof (cases "n div r = 0")
    case True
    with "1.prems" have "n mod r = n" by (simp add: div_eq_0_iff)
    with True "1.prems" show ?thesis by (auto simp: digits_pos [of n r])
  next
    case False
    with 1 show ?thesis by (auto simp: digits_pos [of n r])
  qed
qed

lemma length_digits: "2 \<le> r \<Longrightarrow> n < 2 ^ k \<Longrightarrow> length (digits r n) \<le> k"
proof (induction r n arbitrary: k rule: digits.induct)
  case (1 r n)
  show ?case
  proof (cases "n = 0")
    case True
    then show ?thesis by simp
  next
    case False
    with "1.prems" obtain k' where k: "k = Suc k'" by (cases k) auto
    have "n div r \<le> n div 2" using "1.prems"(1) by (simp add: div_le_mono2)
    also have "\<dots> < 2 ^ k'" using "1.prems"(2) k by (simp add: less_mult_imp_div_less)
    finally have "length (digits r (n div r)) \<le> k'" using 1 False by simp
    with False "1.prems" k show ?thesis by (simp add: digits_pos [of n r])
  qed
qed

lemma length_digits_pow: "2 \<le> r \<Longrightarrow> n < r ^ k \<Longrightarrow> length (digits r n) \<le> k"
proof (induction k arbitrary: n)
  case 0
  then show ?case by simp
next
  case (Suc k)
  show ?case
  proof (cases "n = 0")
    case False
    have "n div r < r ^ k"
      using Suc.prems by (simp add: less_mult_imp_div_less mult.commute)
    then have "length (digits r (n div r)) \<le> k" using Suc by simp
    then show ?thesis using False Suc.prems(1) digits_pos [of n r] by simp
  qed simp
qed

lemma foldl_digits_append:
  "foldl (\<lambda>a c. a * r + digit_value c) 0 (xs @ [x]) = foldl (\<lambda>a c. a * r + digit_value c) 0 xs * r + digit_value x"
  by simp

text \<open>The digit table holds the 36 digit characters, none of them NUL, each at its value.\<close>

lemma lookup_digits_value: "d < 36 \<Longrightarrow> digit_value (lookup_digits ! d) = d"
proof -
  have "\<forall>d \<in> set [0..<36]. digit_value (lookup_digits ! d) = d"
    by code_simp
  then show "d < 36 \<Longrightarrow> ?thesis" by simp
qed

lemma lookup_digits_nonzero: "d < 36 \<Longrightarrow> lookup_digits ! d \<noteq> 0"
proof -
  have "\<forall>d \<in> set [0..<36]. lookup_digits ! d \<noteq> 0"
    by code_simp
  then show "d < 36 \<Longrightarrow> ?thesis" by simp
qed

lemma length_lookup_digits: "length lookup_digits = 37"
  by (simp add: lookup_digits_def)

lemma string_value_digits:
  "2 \<le> r \<Longrightarrow> r \<le> 36 \<Longrightarrow> string_value r (rev (map (\<lambda>d. lookup_digits ! d) (digits r n))) = n"
proof (induction r n rule: digits.induct)
  case (1 r n)
  show ?case
  proof (cases "n = 0")
    case True
    then show ?thesis by (simp add: string_value_def)
  next
    case False
    have "n mod r < 36" using "1.prems" by (rule mod_less36)
    with False 1 show ?thesis by (simp add: digits_pos [of n r] string_value_def lookup_digits_value)
  qed
qed

lemma string_value_numeral: "2 \<le> r \<Longrightarrow> r \<le> 36 \<Longrightarrow> string_value r (numeral_str r n) = n"
  by (simp add: numeral_str_def string_value_digits)
    (simp add: string_value_def digit_value_def byte_def)

lemma numeral_str_nonzero: "2 \<le> r \<Longrightarrow> r \<le> 36 \<Longrightarrow> 0 \<notin> set (numeral_str r n)"
proof -
  assume r: "2 \<le> r" "r \<le> 36"
  have "lookup_digits ! d \<noteq> 0" if "d \<in> set (digits r n)" for d
    using that digits_less [OF r(1), of n] r(2) by (intro lookup_digits_nonzero) auto
  then show ?thesis by (auto simp: numeral_str_def byte_def)
qed

lemma numeral_str_leading:
  assumes "2 \<le> r" "r \<le> 36" "0 < n"
  shows "digit_value (hd (numeral_str r n)) \<noteq> 0"
proof -
  have last: "last (digits r n) \<noteq> 0" "digits r n \<noteq> []"
    using assms digits_last by auto
  then have "last (digits r n) < 36"
    using digits_less [OF assms(1), of n] assms(2) last_in_set by fastforce
  with last assms show ?thesis
    by (simp add: numeral_str_def hd_rev last_map lookup_digits_value)
qed

lemma length_numeral_str: "2 \<le> r \<Longrightarrow> n < 2 ^ 32 \<Longrightarrow> length (numeral_str r n) \<le> 32"
  using length_digits [of r n 32] by (simp add: numeral_str_def)

lemma itoa_loop_digits:
  "2 \<le> unat radix \<Longrightarrow> unat radix \<le> 36 \<Longrightarrow> unat v = n \<Longrightarrow>
     itoa_loop m p v radix =
       Some (write_bytes m p (map (\<lambda>d. lookup_digits ! d) (digits (unat radix) n)),
             p + word_of_nat (length (digits (unat radix) n)))"
proof (induction "unat radix" n arbitrary: m p v rule: digits.induct)
  case (1 n)
  show ?case
  proof (cases "n = 0")
    case True
    with "1.prems" have "v = 0" by (simp add: unat_eq_0)
    with True show ?thesis by (simp add: itoa_loop.simps)
  next
    case False
    then have v: "v > 0" and r: "radix \<noteq> 0" using "1.prems" by (auto simp: word_gt_0)
    have d: "unat (v mod radix) = n mod unat radix" and q: "unat (v div radix) = n div unat radix"
      using "1.prems" by (simp_all add: unat_mod unat_div)
    have "n mod unat radix < length lookup_digits"
      using mod_less36 [OF "1.prems"(1,2), of n] by (simp add: length_lookup_digits)
    moreover have "itoa_loop (m(p := lookup_digits ! (n mod unat radix))) (p + 1) (v div radix) radix
        = Some (write_bytes (m(p := lookup_digits ! (n mod unat radix))) (p + 1)
            (map (\<lambda>d. lookup_digits ! d) (digits (unat radix) (n div unat radix))),
          p + 1 + word_of_nat (length (digits (unat radix) (n div unat radix))))"
      using "1.prems" False q by (intro "1.hyps") simp_all
    ultimately show ?thesis
      using False "1.prems" v r d by (simp add: itoa_loop.simps [of m p v radix] digits_pos [of n "unat radix"])
  qed
qed

theorem itoa_writes_numeral:
  assumes "2 \<le> unat radix" and "unat radix \<le> 36"
  shows "itoa m v buf radix = Some (write_bytes m buf (numeral_str (unat radix) (unat v) @ [0]))"
proof (cases "v = 0")
  case True
  then show ?thesis by (simp add: itoa_def numeral_str_def)
next
  case False
  let ?ds = "map (\<lambda>d. lookup_digits ! d) (digits (unat radix) (unat v))"
  let ?m = "write_bytes m buf (?ds @ [0])"
  have num: "numeral_str (unat radix) (unat v) = rev ?ds"
    using False by (simp add: numeral_str_def unat_eq_0)
  have len: "length ?ds \<le> 32"
    using length_numeral_str [OF assms(1), of "unat v"] unat_lt32 [of v] num by simp
  have "0 \<notin> set ?ds" using numeral_str_nonzero [OF assms, of "unat v"] num by simp
  then have "cstring ?m buf ?ds" using len by (intro cstring_write) simp_all
  then have "strrev ?m buf = Some (write_bytes ?m buf (rev ?ds))"
    using len by (intro strrev_cstring) simp_all
  moreover have "write_bytes ?m buf (rev ?ds) = write_bytes m buf (rev ?ds @ [0])"
  proof
    fix x
    show "write_bytes ?m buf (rev ?ds) x = write_bytes m buf (rev ?ds @ [0]) x"
      using len by (simp add: write_bytes_apply in_region_def nth_append)
  qed
  ultimately show ?thesis
    using False itoa_loop_digits [OF assms refl, of m buf v] num
    by (simp add: itoa_def write_bytes_append)
qed

section \<open>Properties\<close>

text \<open>
  C35. \<open>itoa\<close> terminates for every radix from 2 to 36 and leaves a C string of at most 32 digits in the
  buffer whose value in that radix is the number converted, without a leading zero, and nothing
  else is written.
\<close>

theorem itoa_round_trip:
  assumes "2 \<le> unat radix" and "unat radix \<le> 36"
  shows "\<exists>cs. itoa m v buf radix = Some (write_bytes m buf (cs @ [0]))
     \<and> 0 < length cs \<and> length cs \<le> 32 \<and> 0 \<notin> set cs
     \<and> string_value (unat radix) cs = unat v \<and> (0 < v \<longrightarrow> digit_value (hd cs) \<noteq> 0)"
proof -
  let ?cs = "numeral_str (unat radix) (unat v)"
  have v: "unat v < 2 ^ 32" using unat_lt32 [of v] by simp
  have "0 < length ?cs"
    using digits_last [OF assms(1), of "unat v"] by (auto simp: numeral_str_def)
  moreover have "digit_value (hd ?cs) \<noteq> 0" if "0 < v"
    using that assms by (intro numeral_str_leading) (simp_all add: unat_gt_0 word_neq_0_conv)
  ultimately show ?thesis
    using itoa_writes_numeral [OF assms, of m v buf] length_numeral_str [OF assms(1) v]
      numeral_str_nonzero [OF assms] string_value_numeral [OF assms] by blast
qed

theorem itoa_round_trip_witness:
  "\<exists>cs. itoa (\<lambda>_. 0) 0x1F 0x1000 16 = Some (write_bytes (\<lambda>_. 0) 0x1000 (cs @ [0])) \<and> string_value 16 cs = 31"
proof -
  have "\<exists>cs. itoa (\<lambda>_. 0) 0x1F 0x1000 16 = Some (write_bytes (\<lambda>_. 0) 0x1000 (cs @ [0]))
      \<and> 0 < length cs \<and> length cs \<le> 32 \<and> 0 \<notin> set cs
      \<and> string_value (unat (16 :: u32)) cs = unat (0x1F :: u32) \<and> (0 < (0x1F :: u32) \<longrightarrow> digit_value (hd cs) \<noteq> 0)"
    by (rule itoa_round_trip) simp_all
  then show ?thesis by auto
qed

text \<open>
  \<open>strncmp\<close> returns 0 exactly when the two strings agree on their first \<open>n\<close> characters (or up to the
  end of both): this is the test every name lookup of the kernel rests on.
\<close>

lemma strncmp_zero_iff:
  "strncmp m s1 s2 n = 0 \<longleftrightarrow>
     takeWhile (\<lambda>c. c \<noteq> 0) (read_bytes m s1 (unat n)) = takeWhile (\<lambda>c. c \<noteq> 0) (read_bytes m s2 (unat n))"
  using strncmp_eq_0 [of m s1 s2 n] by (simp add: prefix_str_def)

text \<open>
  \<open>strncpy\<close> writes exactly \<open>n\<close> bytes: the characters of the source up to its NUL, at most \<open>n\<close>, and
  zeros behind them. A name of \<open>n\<close> or more characters is therefore not terminated.
\<close>

lemma strncpy_pads:
  "disjoint_regions dest (unat n) src (unat n) \<Longrightarrow>
     strncpy m dest src n = write_bytes m dest (padded (prefix_str m src (unat n)) (unat n))"
  by (rule strncpy_padded)

end
