(* ===== verification/Machine.thy ===== *)
theory Machine
  imports Lib_String
begin

text \<open>
  The machine the kernel drives: the flat memory, the interrupt flag, and the I/O ports.
  A port write is appended to a log, so that a theorem can say which commands a device
  receives and in which order; a port read returns what the device presents there, a
  component of the state that no kernel code writes. The macros are those of
  \<^verbatim>\<open>src/student-distrib/lib.h\<close>. Component theories extend the record with their own
  variables, and every operation is polymorphic in the extension.
\<close>

record machine =
  mem :: mem
  interrupts :: bool
  out_log :: "(u16 \<times> u8) list"
  port_in :: "u16 \<Rightarrow> u8"

definition outb :: "u8 \<Rightarrow> u16 \<Rightarrow> 'a machine_scheme \<Rightarrow> 'a machine_scheme" where
  "outb data port s = s\<lparr>out_log := out_log s @ [(port, data)]\<rparr>"

definition inb :: "u16 \<Rightarrow> 'a machine_scheme \<Rightarrow> u8" where
  "inb port s = port_in s port"

text \<open>The wider transfers go to consecutive ports, the low byte first.\<close>

definition inw :: "u16 \<Rightarrow> 'a machine_scheme \<Rightarrow> u16" where
  "inw port s = ucast (inb port s) OR push_bit 8 (ucast (inb (port + 1) s))"

definition inl :: "u16 \<Rightarrow> 'a machine_scheme \<Rightarrow> u32" where
  "inl port s = ucast (inw port s) OR push_bit 16 (ucast (inw (port + 2) s))"

definition outw :: "u16 \<Rightarrow> u16 \<Rightarrow> 'a machine_scheme \<Rightarrow> 'a machine_scheme" where
  "outw data port s = outb (ucast (drop_bit 8 data)) (port + 1) (outb (ucast data) port s)"

definition outl :: "u32 \<Rightarrow> u16 \<Rightarrow> 'a machine_scheme \<Rightarrow> 'a machine_scheme" where
  "outl data port s = outw (ucast (drop_bit 16 data)) (port + 2) (outw (ucast data) port s)"

definition cli :: "'a machine_scheme \<Rightarrow> 'a machine_scheme" where
  "cli s = s\<lparr>interrupts := False\<rparr>"

definition sti :: "'a machine_scheme \<Rightarrow> 'a machine_scheme" where
  "sti s = s\<lparr>interrupts := True\<rparr>"

text \<open>Of the flags register the model has the interrupt flag, so this is what \<open>flags\<close> holds.\<close>

definition cli_and_save :: "'a machine_scheme \<Rightarrow> bool \<times> 'a machine_scheme" where
  "cli_and_save s = (interrupts s, cli s)"

definition restore_flags :: "bool \<Rightarrow> 'a machine_scheme \<Rightarrow> 'a machine_scheme" where
  "restore_flags flags s = s\<lparr>interrupts := flags\<rparr>"

text \<open>A byte store through a pointer.\<close>

definition poke :: "u32 \<Rightarrow> u8 \<Rightarrow> 'a machine_scheme \<Rightarrow> 'a machine_scheme" where
  "poke a b s = s\<lparr>mem := (mem s)(a := b)\<rparr>"

lemma outb_sel [frame_simps]:
  "mem (outb d p s) = mem s" "interrupts (outb d p s) = interrupts s"
  "out_log (outb d p s) = out_log s @ [(p, d)]" "port_in (outb d p s) = port_in s"
  "machine.more (outb d p s) = machine.more s"
  by (simp_all add: outb_def)

lemma cli_sel [frame_simps]:
  "mem (cli s) = mem s" "interrupts (cli s) = False"
  "out_log (cli s) = out_log s" "port_in (cli s) = port_in s"
  "machine.more (cli s) = machine.more s"
  by (simp_all add: cli_def)

lemma sti_sel [frame_simps]:
  "mem (sti s) = mem s" "interrupts (sti s) = True"
  "out_log (sti s) = out_log s" "port_in (sti s) = port_in s"
  "machine.more (sti s) = machine.more s"
  by (simp_all add: sti_def)

lemma poke_sel [frame_simps]:
  "mem (poke a b s) = (mem s)(a := b)" "interrupts (poke a b s) = interrupts s"
  "out_log (poke a b s) = out_log s" "port_in (poke a b s) = port_in s"
  "machine.more (poke a b s) = machine.more s"
  by (simp_all add: poke_def)

lemma restore_saved_flags: "cli_and_save s = (saved, t) \<Longrightarrow> interrupts (restore_flags saved u) = interrupts s \<and> \<not> interrupts t"
  by (auto simp: cli_and_save_def restore_flags_def cli_def)

lemma wide_output: "out_log (outl data port s) =
    out_log s @ [(port, ucast data), (port + 1, ucast (drop_bit 8 data)), (port + 2, ucast (drop_bit 16 data)), (port + 3, ucast (drop_bit 24 data))]"
proof -
  have "(ucast (ucast data :: u16) :: u8) = ucast data" "(ucast (drop_bit 8 (ucast data :: u16)) :: u8) = ucast (drop_bit 8 data)"
    "(ucast (ucast (drop_bit 16 data) :: u16) :: u8) = ucast (drop_bit 16 data)"
    "(ucast (drop_bit 8 (ucast (drop_bit 16 data) :: u16)) :: u8) = ucast (drop_bit 24 data)"
    by (auto simp: bit_simps intro!: bit_word_eqI)
  then show ?thesis by (simp add: outl_def outw_def frame_simps)
qed

end
