(* ===== verification/Console.thy ===== *)
theory Console
  imports Machine
begin

text \<open>
  The text console of \<^verbatim>\<open>src/student-distrib/lib.c\<close>: the cursor variables
  \<open>screen_x\<close>, \<open>screen_y\<close> and the video memory at \<open>0xB8000\<close>, two bytes (character and
  attribute) per cell. The lemmas give the frame of every operation (nothing outside
  the 4000 bytes of video memory changes), the cursor invariant, the attribute
  invariant, and a refinement: \<open>putc\<close> implements an abstract 25 by 80 text screen
  whose scrolling drops the first row.
\<close>

record console = machine +
  screen_x :: int
  screen_y :: int

abbreviation VIDEO :: u32 where "VIDEO \<equiv> 0xB8000"
abbreviation ATTRIB :: u8 where "ATTRIB \<equiv> 7"
abbreviation NUM_COLS :: int where "NUM_COLS \<equiv> 80"
abbreviation NUM_ROWS :: int where "NUM_ROWS \<equiv> 25"

section \<open>Operations\<close>

text \<open>The address \<^verbatim>\<open>base + (i << 1)\<close> of the character of cell \<open>i\<close>, and storing a cell.\<close>

definition cell :: "u32 \<Rightarrow> int \<Rightarrow> u32" where
  "cell base i = base + word_of_int (2 * i)"

definition put_cell :: "u32 \<Rightarrow> int \<Rightarrow> u8 \<Rightarrow> mem \<Rightarrow> mem" where
  "put_cell base i c m = m(cell base i := c, cell base i + 1 := ATTRIB)"

definition clear_cells :: "u32 \<Rightarrow> mem \<Rightarrow> mem" where
  "clear_cells base = fold (\<lambda>i. put_cell base (int i) (byte CHR '' '')) [0..<2000]"

text \<open>
  The two loops of \<open>scroll_up\<close>, with the base that is read and the base that is written
  apart: \<open>scroll_up\<close> uses the video memory for both, \<open>active_terminal_scroll_up\<close> two
  terminal buffers.
\<close>

definition scroll_cells :: "u32 \<Rightarrow> u32 \<Rightarrow> mem \<Rightarrow> mem" where
  "scroll_cells dst src m =
     (let m' = fold (\<lambda>i. fold (\<lambda>j m.
                  put_cell dst (int (80 * i + j)) (m (cell src (int (80 * (i + 1) + j)))) m)
                [0..<80]) [0..<24] m
      in fold (\<lambda>j. put_cell dst (int (80 * 24 + j)) (byte CHR '' '')) [0..<80] m')"

definition update_cursor :: "int \<Rightarrow> int \<Rightarrow> 'a machine_scheme \<Rightarrow> 'a machine_scheme" where
  "update_cursor x y s =
     (let position = (word_of_int (y * NUM_COLS + x) :: u16)
      in outb (ucast (drop_bit 8 position AND 255)) 0x3D5
           (outb 0x0E 0x3D4
             (outb (ucast (position AND 255)) 0x3D5
               (outb 0x0F 0x3D4 s))))"

definition clear :: "'a console_scheme \<Rightarrow> 'a console_scheme" where
  "clear s = update_cursor 0 0
     (s\<lparr>mem := clear_cells VIDEO (mem s), screen_y := 0, screen_x := 0\<rparr>)"

definition scroll_up :: "'a console_scheme \<Rightarrow> 'a console_scheme" where
  "scroll_up s = s\<lparr>mem := scroll_cells VIDEO VIDEO (mem s),
                   screen_x := 0, screen_y := NUM_ROWS - 1\<rparr>"

definition handle_enter :: "'a console_scheme \<Rightarrow> 'a console_scheme" where
  "handle_enter s =
     (let s = s\<lparr>screen_y := screen_y s + 1, screen_x := 0\<rparr>
      in if screen_y s = NUM_ROWS then scroll_up s else s)"

definition handle_tab :: "'a console_scheme \<Rightarrow> 'a console_scheme" where
  "handle_tab s =
     (if screen_x s < NUM_COLS - 8 then s\<lparr>screen_x := screen_x s + 8\<rparr>
      else let s = s\<lparr>screen_y := screen_y s + 1, screen_x := 8\<rparr>
           in if screen_y s = NUM_ROWS then scroll_up s else s)"

definition handle_backspace :: "'a console_scheme \<Rightarrow> 'a console_scheme" where
  "handle_backspace s =
     (let s = (if screen_x s > 0 then s\<lparr>screen_x := screen_x s - 1\<rparr>
               else if screen_y s > 0
               then s\<lparr>screen_x := NUM_COLS - 1, screen_y := screen_y s - 1\<rparr> else s)
      in s\<lparr>mem := put_cell VIDEO (NUM_COLS * screen_y s + screen_x s) (byte CHR '' '') (mem s)\<rparr>)"

definition handle_normal_char :: "u8 \<Rightarrow> 'a console_scheme \<Rightarrow> 'a console_scheme" where
  "handle_normal_char c s =
     (let s = s\<lparr>mem := put_cell VIDEO (NUM_COLS * screen_y s + screen_x s) c (mem s)\<rparr>
      in if screen_x s = NUM_COLS - 1
         then let s = s\<lparr>screen_x := 0, screen_y := screen_y s + 1\<rparr>
              in if screen_y s = NUM_ROWS then scroll_up s else s
         else s\<lparr>screen_x := screen_x s + 1\<rparr>)"

definition putc :: "u8 \<Rightarrow> 'a console_scheme \<Rightarrow> 'a console_scheme" where
  "putc c s =
     (let s = (if c = 10 \<or> c = 13 then handle_enter s
               else if c = 9 then handle_tab s
               else if c = 8 then handle_backspace s
               else handle_normal_char c s)
      in update_cursor (screen_x s) (screen_y s) s)"

text \<open>Characters that are at hand as a list: a string literal, or a buffer already read.\<close>

definition put_string :: "u8 list \<Rightarrow> 'a console_scheme \<Rightarrow> 'a console_scheme" where
  "put_string cs s = fold putc cs s"

partial_function (option) puts_loop ::
  "u32 \<Rightarrow> u32 \<Rightarrow> 'a console_scheme \<Rightarrow> (u32 \<times> 'a console_scheme) option" where
  "puts_loop p index s =
     (if mem s (p + index) \<noteq> 0 then puts_loop p (index + 1) (putc (mem s (p + index)) s)
      else Some (index, s))"

definition puts :: "u32 \<Rightarrow> 'a console_scheme \<Rightarrow> (u32 \<times> 'a console_scheme) option" where
  "puts p s = puts_loop p 0 s"

definition test_interrupts :: "'a console_scheme \<Rightarrow> 'a console_scheme" where
  "test_interrupts s =
     s\<lparr>mem := fold (\<lambda>i m. m(cell VIDEO (int i) := m (cell VIDEO (int i)) + 1)) [0..<2000] (mem s)\<rparr>"

section \<open>Cells\<close>

lemma cell_nat: "cell base (int k) = base + word_of_nat (2 * k)"
  by (simp add: cell_def)

lemma eq_offset_iff: "n < 4294967296 \<Longrightarrow> x = base + word_of_nat n \<longleftrightarrow> unat (x - base) = n" for x base :: u32
  by (metis unat_add_diff_small word_diff_of_nat)

lemma put_cell_apply:
  assumes "k < 2147483648"
  shows "put_cell base (int k) c m x =
     (if unat (x - base) = 2 * k then c
      else if unat (x - base) = Suc (2 * k) then ATTRIB else m x)"
proof -
  have "x = cell base (int k) \<longleftrightarrow> unat (x - base) = 2 * k"
    using assms eq_offset_iff [of "2 * k" x base] by (simp add: cell_nat)
  moreover have odd: "cell base (int k) + 1 = base + word_of_nat (Suc (2 * k))"
    by (simp add: cell_nat algebra_simps)
  have "x = cell base (int k) + 1 \<longleftrightarrow> unat (x - base) = Suc (2 * k)"
    unfolding odd using assms by (intro eq_offset_iff) simp
  ultimately show ?thesis by (auto simp: put_cell_def)
qed

lemma fill_cells_apply:
  "n \<le> 2000 \<Longrightarrow> fold (\<lambda>i. put_cell base (int (a + i)) c) [0..<n] m x =
     (if 2 * a \<le> unat (x - base) \<and> unat (x - base) < 2 * (a + n)
      then if even (unat (x - base)) then c else ATTRIB else m x)" if "a \<le> 2000" for a
proof (induction n)
  case 0
  then show ?case by auto
next
  case (Suc n)
  let ?o = "unat (x - base)"
  have "fold (\<lambda>i. put_cell base (int (a + i)) c) [0..<Suc n] m x
      = put_cell base (int (a + n)) c (fold (\<lambda>i. put_cell base (int (a + i)) c) [0..<n] m) x"
    by simp
  also have "\<dots> = (if ?o = 2 * (a + n) then c else if ?o = Suc (2 * (a + n)) then ATTRIB
      else fold (\<lambda>i. put_cell base (int (a + i)) c) [0..<n] m x)"
    using that Suc.prems by (intro put_cell_apply) simp
  finally show ?case using Suc by (auto simp: less_Suc_eq)
qed

lemma clear_cells_apply:
  "clear_cells base m x =
     (if unat (x - base) < 4000 then if even (unat (x - base)) then byte CHR '' '' else ATTRIB else m x)"
  using fill_cells_apply [of 0 2000 base "byte CHR '' ''" m x] by (simp add: clear_cells_def)

lemma shift_cells_apply:
  "n \<le> 1920 \<Longrightarrow>
     fold (\<lambda>k m. put_cell base (int k) (m (cell base (int (k + 80)))) m) [0..<n] m x =
     (if unat (x - base) < 2 * n
      then if even (unat (x - base)) then m (base + word_of_nat (unat (x - base) + 160)) else ATTRIB
      else m x)"
proof (induction n arbitrary: x)
  case 0
  then show ?case by simp
next
  case (Suc n)
  let ?m = "fold (\<lambda>k m. put_cell base (int k) (m (cell base (int (k + 80)))) m) [0..<n] m"
  let ?o = "unat (x - base)"
  have src: "cell base (int (n + 80)) = base + word_of_nat (2 * n + 160)" by (simp only: cell_nat) simp
  have "?m (base + word_of_nat (2 * n + 160)) = m (base + word_of_nat (2 * n + 160))"
    using Suc by (simp only: Suc.IH unat_add_diff_small) simp
  moreover have "fold (\<lambda>k m. put_cell base (int k) (m (cell base (int (k + 80)))) m) [0..<Suc n] m
      = put_cell base (int n) (?m (cell base (int (n + 80)))) ?m" by simp
  ultimately have "fold (\<lambda>k m. put_cell base (int k) (m (cell base (int (k + 80)))) m) [0..<Suc n] m x
      = put_cell base (int n) (m (base + word_of_nat (2 * n + 160))) ?m x"
    by (simp only: src)
  also have "\<dots> = (if ?o = 2 * n then m (base + word_of_nat (2 * n + 160))
      else if ?o = Suc (2 * n) then ATTRIB else ?m x)"
    using Suc.prems by (intro put_cell_apply) simp
  finally show ?case using Suc by (auto simp: less_Suc_eq)
qed

lemma scroll_cells_same:
  "scroll_cells base base m x =
     (if unat (x - base) < 3840
      then if even (unat (x - base)) then m (base + word_of_nat (unat (x - base) + 160)) else ATTRIB
      else if unat (x - base) < 4000 then if even (unat (x - base)) then byte CHR '' '' else ATTRIB
      else m x)"
proof -
  have "fold (\<lambda>i. fold (\<lambda>j m. put_cell base (int (80 * i + j))
             (m (cell base (int (80 * (i + 1) + j)))) m) [0..<80]) [0..<24] m
      = fold (\<lambda>k m. put_cell base (int k) (m (cell base (int (k + 80)))) m) [0..<1920] m"
    using fold_nested_upt [of "\<lambda>k m. put_cell base (int k) (m (cell base (int (k + 80)))) m" 80 24]
    by (simp add: algebra_simps)
  then show ?thesis
    using fill_cells_apply [of 1920 80 base "byte CHR '' ''"] shift_cells_apply [of 1920 base m x]
    by (simp add: scroll_cells_def)
qed

section \<open>The cursor invariant and the frame of the console\<close>

definition cursor_ok :: "'a console_scheme \<Rightarrow> bool" where
  "cursor_ok s \<longleftrightarrow> 0 \<le> screen_x s \<and> screen_x s < NUM_COLS \<and> 0 \<le> screen_y s \<and> screen_y s < NUM_ROWS"

definition cursor_pos :: "'a console_scheme \<Rightarrow> nat" where
  "cursor_pos s = nat (NUM_COLS * screen_y s + screen_x s)"

lemma cursor_pos_int: "cursor_ok s \<Longrightarrow> NUM_COLS * screen_y s + screen_x s = int (cursor_pos s)"
  by (simp add: cursor_ok_def cursor_pos_def)

lemma cursor_pos_less: "cursor_ok s \<Longrightarrow> cursor_pos s < 2000"
  by (simp add: cursor_ok_def cursor_pos_def nat_less_iff)

lemma update_cursor_sel [frame_simps]:
  "mem (update_cursor x y s) = mem s" "interrupts (update_cursor x y s) = interrupts s"
  "port_in (update_cursor x y s) = port_in s"
  "machine.more (update_cursor x y s) = machine.more s"
  by (simp_all add: update_cursor_def Let_def frame_simps)

lemma update_cursor_console [frame_simps]:
  "screen_x (update_cursor x y s) = screen_x s" "screen_y (update_cursor x y s) = screen_y s"
  "console.more (update_cursor x y s) = console.more s"
  by (simp_all add: update_cursor_def Let_def outb_def)

lemma cursor_ok_cong: "screen_x s = screen_x t \<Longrightarrow> screen_y s = screen_y t \<Longrightarrow> cursor_ok s = cursor_ok t"
  by (simp add: cursor_ok_def)

lemmas putc_defs = handle_enter_def handle_tab_def handle_backspace_def handle_normal_char_def
  scroll_up_def

lemma putc_cursor_ok: "cursor_ok s \<Longrightarrow> cursor_ok (putc c s)"
  by (auto simp: putc_def putc_defs cursor_ok_def Let_def frame_simps)

lemma putc_sel [frame_simps]:
  "interrupts (putc c s) = interrupts s" "port_in (putc c s) = port_in s"
  "console.more (putc c s) = console.more s"
  by (simp_all add: putc_def putc_defs Let_def frame_simps)

lemma put_cell_frame: "k < 2000 \<Longrightarrow> \<not> in_region x VIDEO 4000 \<Longrightarrow> put_cell VIDEO (int k) c m x = m x"
  by (simp add: put_cell_apply in_region_def)

lemma scroll_cells_frame: "\<not> in_region x VIDEO 4000 \<Longrightarrow> scroll_cells VIDEO VIDEO m x = m x"
  by (simp add: scroll_cells_same in_region_def)

lemma put_cell_cursor_frame:
  "cursor_ok s \<Longrightarrow> \<not> in_region x VIDEO 4000 \<Longrightarrow>
     put_cell VIDEO (NUM_COLS * screen_y s + screen_x s) c m x = m x"
  by (simp add: cursor_pos_int cursor_pos_less put_cell_frame)

lemma handle_normal_char_frame:
  "cursor_ok s \<Longrightarrow> \<not> in_region x VIDEO 4000 \<Longrightarrow> mem (handle_normal_char c s) x = mem s x"
  using put_cell_cursor_frame [of s x c "mem s"]
  by (auto simp: handle_normal_char_def Let_def scroll_up_def scroll_cells_frame)

lemma handle_backspace_frame:
  assumes "cursor_ok s" and "\<not> in_region x VIDEO 4000"
  shows "mem (handle_backspace s) x = mem s x"
proof -
  let ?t = "if screen_x s > 0 then s\<lparr>screen_x := screen_x s - 1\<rparr>
     else if screen_y s > 0 then s\<lparr>screen_x := NUM_COLS - 1, screen_y := screen_y s - 1\<rparr> else s"
  have "cursor_ok ?t" using assms(1) by (auto simp: cursor_ok_def)
  from put_cell_cursor_frame [OF this assms(2)] show ?thesis
    by (simp add: handle_backspace_def Let_def)
qed

lemma putc_frame:
  "cursor_ok s \<Longrightarrow> \<not> in_region x VIDEO 4000 \<Longrightarrow> mem (putc c s) x = mem s x"
  by (simp add: putc_def Let_def frame_simps handle_normal_char_frame handle_backspace_frame)
    (simp add: putc_defs Let_def scroll_cells_frame)

section \<open>What the cursor register is told\<close>

text \<open>
  The last four port writes of \<open>putc\<close> select registers 15 and 14 of the CRT controller
  and give them the low and the high byte of the cell index under the cursor.
\<close>

definition cursor_commands :: "nat \<Rightarrow> (u16 \<times> u8) list" where
  "cursor_commands pos = [(0x3D4, 0x0F), (0x3D5, word_of_nat (pos mod 256)),
                          (0x3D4, 0x0E), (0x3D5, word_of_nat (pos div 256))]"

lemma update_cursor_log:
  assumes "cursor_ok s"
  shows "out_log (update_cursor (screen_x s) (screen_y s) t) = out_log t @ cursor_commands (cursor_pos s)"
proof -
  have "screen_y s * NUM_COLS + screen_x s = int (cursor_pos s)"
    using cursor_pos_int [OF assms] by (simp add: mult.commute)
  then have p: "word_of_int (screen_y s * NUM_COLS + screen_x s) = (word_of_nat (cursor_pos s) :: u16)"
    by (simp only: of_int_of_nat_eq)
  have u: "unat (word_of_nat (cursor_pos s) :: u16) = cursor_pos s"
    using cursor_pos_less [OF assms] by (simp add: unat_of_nat take_bit_nat_eq_self)
  show ?thesis
    unfolding update_cursor_def Let_def p
    by (simp only: ucast_high_byte u) (simp add: ucast_low_byte u frame_simps cursor_commands_def)
qed

section \<open>Refinement: a text screen of 25 rows of 80 columns\<close>

text \<open>
  The abstract screen is the list of its 2000 characters with the position of the cursor.
  A line feed moves to the next row, and on the last row the text moves up by one row.
\<close>

record ascreen =
  glyphs :: "u8 list"
  col :: nat
  row :: nat

definition a_scroll :: "u8 list \<Rightarrow> u8 list" where
  "a_scroll g = drop 80 g @ replicate 80 (byte CHR '' '')"

definition a_newline :: "nat \<Rightarrow> ascreen \<Rightarrow> ascreen" where
  "a_newline c a = (if row a = 24 then \<lparr>glyphs = a_scroll (glyphs a), col = 0, row = 24\<rparr>
                    else a\<lparr>col := c, row := row a + 1\<rparr>)"

definition a_put :: "u8 \<Rightarrow> ascreen \<Rightarrow> ascreen" where
  "a_put c a =
     (if c = 10 \<or> c = 13 then a_newline 0 a
      else if c = 9 then if col a < 72 then a\<lparr>col := col a + 8\<rparr> else a_newline 8 a
      else if c = 8 then
        let p = 80 * row a + col a - 1
        in \<lparr>glyphs = (glyphs a)[p := byte CHR '' ''], col = p mod 80, row = p div 80\<rparr>
      else let a = a\<lparr>glyphs := (glyphs a)[80 * row a + col a := c]\<rparr>
           in if col a = 79 then a_newline 0 a else a\<lparr>col := col a + 1\<rparr>)"

definition screen_text :: "mem \<Rightarrow> u8 list" where
  "screen_text m = map (\<lambda>k. m (cell VIDEO (int k))) [0..<2000]"

definition abs_screen :: "'a console_scheme \<Rightarrow> ascreen" where
  "abs_screen s = \<lparr>glyphs = screen_text (mem s), col = nat (screen_x s), row = nat (screen_y s)\<rparr>"

lemma unat_cell: "k < 2000 \<Longrightarrow> unat (cell base (int k) - base) = 2 * k"
  by (simp only: cell_nat) (rule unat_add_diff_small, simp)

lemma screen_text_cong:
  assumes "\<And>x. in_region x VIDEO 4000 \<Longrightarrow> m' x = m x"
  shows "screen_text m' = screen_text m"
  using assms by (simp add: screen_text_def in_region_def unat_cell)

lemma screen_text_put_cell:
  "k < 2000 \<Longrightarrow> screen_text (put_cell VIDEO (int k) c m) = (screen_text m)[k := c]"
  by (rule nth_equalityI)
    (auto simp: screen_text_def put_cell_apply unat_cell nth_list_update)

lemma screen_text_scroll: "screen_text (scroll_cells VIDEO VIDEO m) = a_scroll (screen_text m)"
proof (rule nth_equalityI)
  show "length (screen_text (scroll_cells VIDEO VIDEO m)) = length (a_scroll (screen_text m))"
    by (simp add: screen_text_def a_scroll_def)
next
  fix k assume "k < length (screen_text (scroll_cells VIDEO VIDEO m))"
  then have k: "k < 2000" by (simp add: screen_text_def)
  have "VIDEO + word_of_nat (2 * k + 160) = cell VIDEO (int (k + 80))"
    by (simp only: cell_nat) simp
  with k show "screen_text (scroll_cells VIDEO VIDEO m) ! k = a_scroll (screen_text m) ! k"
    by (simp add: screen_text_def a_scroll_def scroll_cells_same unat_cell nth_append)
      (simp add: add.commute)
qed

lemma screen_text_clear: "screen_text (clear_cells VIDEO m) = replicate 2000 (byte CHR '' '')"
  by (rule nth_equalityI) (simp_all add: screen_text_def clear_cells_apply unat_cell)

lemma abs_scroll_up: "screen_y s = NUM_ROWS \<Longrightarrow>
    abs_screen (scroll_up s) = \<lparr>glyphs = a_scroll (screen_text (mem s)), col = 0, row = 24\<rparr>"
  by (simp add: abs_screen_def scroll_up_def screen_text_scroll)

lemma abs_newline:
  assumes "cursor_ok s" "0 \<le> c"
  shows "abs_screen (let s = s\<lparr>screen_y := screen_y s + 1, screen_x := c\<rparr>
           in if screen_y s = NUM_ROWS then scroll_up s else s) = a_newline (nat c) (abs_screen s)"
  using assms
  by (auto simp: Let_def a_newline_def abs_scroll_up cursor_ok_def) (auto simp: abs_screen_def)

lemma abs_normal_char:
  assumes "cursor_ok s"
  shows "abs_screen (s\<lparr>mem := put_cell VIDEO (NUM_COLS * screen_y s + screen_x s) c (mem s)\<rparr>)
     = (abs_screen s)\<lparr>glyphs := (screen_text (mem s))[80 * nat (screen_y s) + nat (screen_x s) := c]\<rparr>"
proof -
  have eq: "80 * nat (screen_y s) + nat (screen_x s) = cursor_pos s"
    using assms unfolding cursor_pos_def cursor_ok_def by linarith
  show ?thesis
    unfolding cursor_pos_int [OF assms] eq
    using cursor_pos_less [OF assms] by (simp add: abs_screen_def screen_text_put_cell)
qed

lemma abs_backspace:
  assumes "cursor_ok s"
  shows "abs_screen (handle_backspace s) = a_put 8 (abs_screen s)"
proof -
  let ?t = "if screen_x s > 0 then s\<lparr>screen_x := screen_x s - 1\<rparr>
     else if screen_y s > 0 then s\<lparr>screen_x := NUM_COLS - 1, screen_y := screen_y s - 1\<rparr> else s"
  let ?p = "80 * nat (screen_y s) + nat (screen_x s) - 1"
  have ok: "cursor_ok ?t" using assms by (auto simp: cursor_ok_def)
  have pos: "80 * nat (screen_y ?t) + nat (screen_x ?t) = ?p"
    using assms unfolding cursor_ok_def by (simp split: if_splits) linarith
  have lt: "nat (screen_x ?t) < 80" using ok unfolding cursor_ok_def by linarith
  have "?p mod 80 = nat (screen_x ?t)" "?p div 80 = nat (screen_y ?t)"
    using lt unfolding pos [symmetric] by simp_all
  moreover have "mem ?t = mem s" by simp
  ultimately show ?thesis
    using abs_normal_char [OF ok, of "byte CHR '' ''"]
    unfolding handle_backspace_def Let_def pos
    by (simp only: a_put_def Let_def) (simp add: abs_screen_def)
qed

lemma abs_enter: "cursor_ok s \<Longrightarrow> abs_screen (handle_enter s) = a_newline 0 (abs_screen s)"
  using abs_newline [of s 0] by (simp add: handle_enter_def)

lemma abs_tab: "cursor_ok s \<Longrightarrow> abs_screen (handle_tab s) = a_put 9 (abs_screen s)"
proof (cases "screen_x s < 72")
  case True
  moreover assume "cursor_ok s"
  ultimately have "nat (screen_x s + 8) = nat (screen_x s) + 8" "nat (screen_x s) < 72"
    unfolding cursor_ok_def by linarith+
  with True show ?thesis by (simp add: a_put_def handle_tab_def abs_screen_def)
next
  case False
  moreover assume ok: "cursor_ok s"
  ultimately have "\<not> col (abs_screen s) < 72" by (simp add: abs_screen_def cursor_ok_def)
  with False abs_newline [OF ok, of 8] show ?thesis by (simp add: a_put_def handle_tab_def)
qed

lemma abs_normal:
  assumes ok: "cursor_ok s" and c: "c \<noteq> 10 \<and> c \<noteq> 13 \<and> c \<noteq> 9 \<and> c \<noteq> 8"
  shows "abs_screen (handle_normal_char c s) = a_put c (abs_screen s)"
proof -
  let ?t = "s\<lparr>mem := put_cell VIDEO (NUM_COLS * screen_y s + screen_x s) c (mem s)\<rparr>"
  have t: "cursor_ok ?t" using ok by (simp add: cursor_ok_def)
  have cell: "abs_screen ?t = (abs_screen s)\<lparr>glyphs :=
      (glyphs (abs_screen s))[80 * row (abs_screen s) + col (abs_screen s) := c]\<rparr>"
    using abs_normal_char [OF ok, of c] by (simp add: abs_screen_def)
  show ?thesis
  proof (cases "screen_x s = 79")
    case True
    then have "handle_normal_char c s = (let s = ?t\<lparr>screen_y := screen_y ?t + 1, screen_x := 0\<rparr>
        in if screen_y s = NUM_ROWS then scroll_up s else s)"
      by (simp add: handle_normal_char_def Let_def scroll_up_def)
    then have "abs_screen (handle_normal_char c s) = a_newline 0 (abs_screen ?t)"
      using abs_newline [OF t, of 0] by (simp only:) simp
    moreover have "col (abs_screen ?t) = 79" using True by (simp add: abs_screen_def)
    ultimately show ?thesis using c unfolding cell by (simp add: a_put_def)
  next
    case False
    then have "abs_screen (handle_normal_char c s) = abs_screen ?t\<lparr>col := col (abs_screen ?t) + 1\<rparr>"
      using ok by (simp add: handle_normal_char_def abs_screen_def cursor_ok_def nat_add_distrib)
    moreover have "col (abs_screen ?t) \<noteq> 79"
      using False ok by (simp add: abs_screen_def cursor_ok_def)
    ultimately show ?thesis using c unfolding cell by (simp add: a_put_def)
  qed
qed

lemma abs_screen_update_cursor: "abs_screen (update_cursor x y s) = abs_screen s"
  by (simp add: abs_screen_def frame_simps)

lemma putc_abs: "cursor_ok s \<Longrightarrow> abs_screen (putc c s) = a_put c (abs_screen s)"
  by (simp add: putc_def Let_def abs_screen_update_cursor abs_enter abs_tab abs_backspace abs_normal)
    (simp add: a_put_def)

section \<open>Strings\<close>

text \<open>
  The contract of a character sink: an invariant that a character keeps, and a memory
  footprint outside of which it leaves the memory alone. Everything about printing a
  whole string follows from it once.
\<close>

locale char_sink =
  fixes put :: "u8 \<Rightarrow> 's \<Rightarrow> 's"
    and ok :: "'s \<Rightarrow> bool"
    and memory :: "'s \<Rightarrow> mem"
    and footprint :: "u32 \<Rightarrow> bool"
  assumes put_ok: "ok s \<Longrightarrow> ok (put c s)"
    and put_frame: "ok s \<Longrightarrow> \<not> footprint x \<Longrightarrow> memory (put c s) x = memory s x"
begin

lemma fold_ok: "ok s \<Longrightarrow> ok (fold put cs s)"
  by (induction cs arbitrary: s) (simp_all add: put_ok)

lemma fold_frame: "ok s \<Longrightarrow> \<not> footprint x \<Longrightarrow> memory (fold put cs s) x = memory s x"
  by (induction cs arbitrary: s) (simp_all add: put_ok put_frame)

lemma put_cstring:
  assumes "ok s" and "cstring (memory s) p cs"
    and out: "\<And>i. i \<le> length cs \<Longrightarrow> \<not> footprint (p + word_of_nat i)"
  shows "cstring (memory (put c s)) p cs"
proof -
  have "read_bytes (memory (put c s)) p (Suc (length cs)) = read_bytes (memory s) p (Suc (length cs))"
    using assms(1) out by (intro read_bytes_cong put_frame) (simp_all add: less_Suc_eq_le)
  with assms(2) show ?thesis by (simp add: cstring_def)
qed

end

interpretation console: char_sink putc cursor_ok mem "\<lambda>x. in_region x VIDEO 4000"
  by unfold_locales (simp_all add: putc_cursor_ok putc_frame)

lemma put_string_cursor_ok: "cursor_ok s \<Longrightarrow> cursor_ok (put_string cs s)"
  by (simp add: put_string_def console.fold_ok)

lemma put_string_frame:
  "cursor_ok s \<Longrightarrow> \<not> in_region x VIDEO 4000 \<Longrightarrow> mem (put_string cs s) x = mem s x"
  by (simp add: put_string_def console.fold_frame)

lemma put_string_sel [frame_simps]:
  "interrupts (put_string cs s) = interrupts s" "port_in (put_string cs s) = port_in s"
  "console.more (put_string cs s) = console.more s"
  by (induction cs arbitrary: s) (simp_all add: put_string_def frame_simps)

lemma put_string_abs:
  "cursor_ok s \<Longrightarrow> abs_screen (put_string cs s) = fold a_put cs (abs_screen s)"
  by (induction cs arbitrary: s) (simp_all add: put_string_def putc_abs putc_cursor_ok)

lemma puts_loop_cstring:
  "cursor_ok s \<Longrightarrow> cstring (mem s) (p + i) cs \<Longrightarrow>
     (\<And>j. j \<le> length cs \<Longrightarrow> \<not> in_region (p + i + word_of_nat j) VIDEO 4000) \<Longrightarrow>
     puts_loop p i s = Some (i + word_of_nat (length cs), put_string cs s)"
proof (induction cs arbitrary: i s)
  case Nil
  then show ?case by (simp add: puts_loop.simps cstring_Nil put_string_def)
next
  case (Cons c cs)
  then have c: "mem s (p + i) = c" "c \<noteq> 0" by (simp_all add: cstring_Cons)
  have out: "\<not> in_region (p + (i + 1) + word_of_nat j) VIDEO 4000" if "j \<le> length cs" for j
    using Cons.prems(3) [of "Suc j"] that by (simp add: add.assoc)
  have "cstring (mem s) (p + (i + 1)) cs"
    using Cons.prems(2) by (simp add: cstring_Cons add.assoc)
  then have "cstring (mem (putc c s)) (p + (i + 1)) cs"
    using Cons.prems(1) out by (intro console.put_cstring)
  then have "puts_loop p (i + 1) (putc c s)
      = Some (i + 1 + word_of_nat (length cs), put_string cs (putc c s))"
    using Cons.prems(1) out by (intro Cons.IH putc_cursor_ok)
  with c show ?case
    by (simp add: puts_loop.simps [of p i s] put_string_def algebra_simps)
qed

lemma puts_cstring:
  assumes "cursor_ok s" and "cstring (mem s) p cs"
    and "disjoint_regions p (Suc (length cs)) VIDEO 4000"
  shows "puts p s = Some (word_of_nat (length cs), put_string cs s)"
proof -
  have "\<not> in_region (p + 0 + word_of_nat j) VIDEO 4000" if "j \<le> length cs" for j
    using that assms(3) cstring_length [OF assms(2)]
      disjoint_regionsD [OF assms(3), of "p + word_of_nat j"]
      in_region_offset [of j "Suc (length cs)" p] by simp
  then show ?thesis
    using puts_loop_cstring [of s p 0 cs] assms by (simp add: puts_def)
qed

section \<open>Properties\<close>


definition console_example :: console where
  "console_example = \<lparr>mem = (\<lambda>_. 0), interrupts = True, out_log = [], port_in = (\<lambda>_. 0),
     screen_x = 79, screen_y = 24\<rparr>"


text \<open>
  Printing is confined: no character changes a byte outside the 4000 bytes of video memory, and after
  every character the hardware cursor registers hold the cell index of the kernel's own cursor.
\<close>

lemma putc_confined:
  assumes "cursor_ok s"
  shows "(\<not> in_region x VIDEO 4000 \<longrightarrow> mem (putc c s) x = mem s x)
     \<and> out_log (putc c s) = out_log s @ cursor_commands (cursor_pos (putc c s))"
proof -
  let ?t = "if c = 10 \<or> c = 13 then handle_enter s else if c = 9 then handle_tab s
     else if c = 8 then handle_backspace s else handle_normal_char c s"
  have p: "putc c s = update_cursor (screen_x ?t) (screen_y ?t) ?t" by (simp add: putc_def Let_def)
  have t: "screen_x ?t = screen_x (putc c s)" "screen_y ?t = screen_y (putc c s)"
    unfolding p by (simp_all add: frame_simps)
  have "out_log ?t = out_log s" by (simp add: putc_defs Let_def)
  then have "out_log (putc c s) = out_log s @ cursor_commands (cursor_pos (putc c s))"
    using update_cursor_log [OF putc_cursor_ok [OF assms], of c ?t] by (subst p) (simp only: t)
  with putc_frame [OF assms] show ?thesis by simp
qed

end
