(* ===== verification/Printf.thy ===== *)
theory Printf
  imports Console "HOL-Library.Monad_Syntax"
begin

text \<open>
  \<open>printf\<close> of \<^verbatim>\<open>src/student-distrib/lib.c\<close>. The format string and the arguments are read
  from memory as the code reads them: \<open>esp\<close> is the address of the parameter \<open>format\<close> on
  the stack, the arguments stand behind it, and \<open>conv_buf\<close> is the address of the local
  conversion buffer (at most 64 bytes). The loop is a partial function: it returns \<open>None\<close>
  only when a string it walks over has no end. The main result is functional: on a format
  string made of supported directives, with its arguments in place, \<open>printf\<close> returns, writes the
  rendering of the directives to the console, and returns the length of the format.
\<close>

section \<open>Operations\<close>

function pad_zeros :: "mem \<Rightarrow> u32 \<Rightarrow> int \<Rightarrow> mem" where
  "pad_zeros m conv_buf i =
     (if i < 8 then pad_zeros (m(conv_buf + word_of_int i := byte CHR ''0'')) conv_buf (i + 1) else m)"
  by pat_completeness auto
termination by (relation "measure (\<lambda>(_, _, i). nat (8 - i))") auto

declare pad_zeros.simps [simp del]

text \<open>\<open>itoa\<close> into a buffer and \<open>puts\<close> of another address, the tail of every numeric directive.\<close>

definition print_buf :: "u32 \<Rightarrow> 'a console_scheme \<Rightarrow> 'a console_scheme option" where
  "print_buf p s = do { (_, s) \<leftarrow> puts p s; Some s }"

definition print_hex :: "u32 \<Rightarrow> bool \<Rightarrow> u32 \<Rightarrow> 'a console_scheme \<Rightarrow> 'a console_scheme option" where
  "print_hex conv_buf alternate v s =
     (if \<not> alternate then do {
        m \<leftarrow> itoa (mem s) v conv_buf 16;
        print_buf conv_buf (s\<lparr>mem := m\<rparr>)
      } else do {
        m \<leftarrow> itoa (mem s) v (conv_buf + 8) 16;
        starting_index \<leftarrow> strlen m (conv_buf + 8);
        print_buf (conv_buf + starting_index)
          (s\<lparr>mem := pad_zeros m conv_buf (sint starting_index)\<rparr>)
      })"

definition print_unsigned :: "u32 \<Rightarrow> u32 \<Rightarrow> 'a console_scheme \<Rightarrow> 'a console_scheme option" where
  "print_unsigned conv_buf v s = do {
     m \<leftarrow> itoa (mem s) v conv_buf 10;
     print_buf conv_buf (s\<lparr>mem := m\<rparr>)
   }"

definition print_signed :: "u32 \<Rightarrow> u32 \<Rightarrow> 'a console_scheme \<Rightarrow> 'a console_scheme option" where
  "print_signed conv_buf v s =
     (if sint v < 0 then do {
        m \<leftarrow> itoa ((mem s)(conv_buf := byte CHR ''-'')) (- v) (conv_buf + 1) 10;
        print_buf conv_buf (s\<lparr>mem := m\<rparr>)
      } else do {
        m \<leftarrow> itoa (mem s) v conv_buf 10;
        print_buf conv_buf (s\<lparr>mem := m\<rparr>)
      })"

text \<open>
  The switch on the conversion character: the new argument pointer and the new state. A
  directive that takes no argument leaves the pointer where it is, and an unknown one
  prints nothing.
\<close>

definition print_conversion ::
  "u32 \<Rightarrow> bool \<Rightarrow> u8 \<Rightarrow> u32 \<Rightarrow> 'a console_scheme \<Rightarrow> (u32 \<times> 'a console_scheme) option" where
  "print_conversion conv_buf alternate c esp s =
     (let arg = load32 (mem s) esp; next_arg = (\<lambda>s. Some (esp + 4, s))
      in if c = byte CHR ''%'' then Some (esp, putc (byte CHR ''%'') s)
         else if c = byte CHR ''x'' then print_hex conv_buf alternate arg s \<bind> next_arg
         else if c = byte CHR ''u'' then print_unsigned conv_buf arg s \<bind> next_arg
         else if c = byte CHR ''d'' then print_signed conv_buf arg s \<bind> next_arg
         else if c = byte CHR ''c'' then next_arg (putc (ucast arg) s)
         else if c = byte CHR ''s'' then print_buf arg s \<bind> next_arg
         else Some (esp, s))"

text \<open>The \<open>goto format_char_switch\<close>: every \<open>#\<close> sets \<open>alternate\<close> and is skipped.\<close>

partial_function (option) format_char :: "mem \<Rightarrow> u32 \<Rightarrow> bool \<Rightarrow> (u32 \<times> bool) option" where
  "format_char m buf alternate =
     (if m buf = byte CHR ''#'' then format_char m (buf + 1) True else Some (buf, alternate))"

partial_function (option) printf_loop ::
  "u32 \<Rightarrow> u32 \<Rightarrow> u32 \<Rightarrow> 'a console_scheme \<Rightarrow> (u32 \<times> 'a console_scheme) option" where
  "printf_loop conv_buf buf esp s =
     (if mem s buf = 0 then Some (buf, s)
      else if mem s buf = byte CHR ''%'' then do {
        (buf, alternate) \<leftarrow> format_char (mem s) (buf + 1) False;
        (esp, s) \<leftarrow> print_conversion conv_buf alternate (mem s buf) esp s;
        printf_loop conv_buf (buf + 1) esp s
      } else printf_loop conv_buf (buf + 1) esp (putc (mem s buf) s))"

definition printf :: "u32 \<Rightarrow> u32 \<Rightarrow> 'a console_scheme \<Rightarrow> (u32 \<times> 'a console_scheme) option" where
  "printf conv_buf esp s =
     (let format = load32 (mem s) esp
      in do { (buf, s) \<leftarrow> printf_loop conv_buf format (esp + 4) s; Some (buf - format, s) })"

section \<open>What a directive prints\<close>

datatype piece = Literal u8 | Percent | Hex u32 | Hex8 u32 | Unsigned u32 | Signed u32
  | Character u32 | Text u32 "u8 list"

fun directive :: "piece \<Rightarrow> u8 list" where
  "directive (Literal c) = [c]"
| "directive Percent = bytes ''%%''"
| "directive (Hex v) = bytes ''%x''"
| "directive (Hex8 v) = bytes ''%#x''"
| "directive (Unsigned v) = bytes ''%u''"
| "directive (Signed v) = bytes ''%d''"
| "directive (Character v) = bytes ''%c''"
| "directive (Text a cs) = bytes ''%s''"

fun argument :: "piece \<Rightarrow> u32 list" where
  "argument (Literal c) = []"
| "argument Percent = []"
| "argument (Hex v) = [v]"
| "argument (Hex8 v) = [v]"
| "argument (Unsigned v) = [v]"
| "argument (Signed v) = [v]"
| "argument (Character v) = [v]"
| "argument (Text a cs) = [a]"

definition hex8_str :: "u32 \<Rightarrow> u8 list" where
  "hex8_str v = (let ds = numeral_str 16 (unat v) in replicate (8 - length ds) (byte CHR ''0'') @ ds)"

definition signed_str :: "u32 \<Rightarrow> u8 list" where
  "signed_str v = (if sint v < 0 then byte CHR ''-'' # numeral_str 10 (nat (- sint v))
                   else numeral_str 10 (nat (sint v)))"

fun rendering :: "piece \<Rightarrow> u8 list" where
  "rendering (Literal c) = [c]"
| "rendering Percent = bytes ''%''"
| "rendering (Hex v) = numeral_str 16 (unat v)"
| "rendering (Hex8 v) = hex8_str v"
| "rendering (Unsigned v) = numeral_str 10 (unat v)"
| "rendering (Signed v) = signed_str v"
| "rendering (Character v) = [ucast v]"
| "rendering (Text a cs) = cs"

text \<open>
  \<open>pieces_at m F p esp ps\<close>: the format string of \<open>ps\<close> stands at \<open>p\<close>, its arguments at \<open>esp\<close>,
  and none of these bytes, nor those of a string argument, is in the footprint \<open>F\<close>.
\<close>

definition outside :: "(u32 \<Rightarrow> bool) \<Rightarrow> u32 \<Rightarrow> nat \<Rightarrow> bool" where
  "outside F a n \<longleftrightarrow> list_all (\<lambda>i. \<not> F (a + word_of_nat i)) [0..<n]"

fun piece_at :: "mem \<Rightarrow> (u32 \<Rightarrow> bool) \<Rightarrow> piece \<Rightarrow> bool" where
  "piece_at m F (Literal c) = (c \<noteq> 0 \<and> c \<noteq> byte CHR ''%'')"
| "piece_at m F (Text a cs) = (cstring m a cs \<and> outside F a (Suc (length cs)))"
| "piece_at m F _ = True"

fun pieces_at :: "mem \<Rightarrow> (u32 \<Rightarrow> bool) \<Rightarrow> u32 \<Rightarrow> u32 \<Rightarrow> piece list \<Rightarrow> bool" where
  "pieces_at m F p esp [] = (m p = 0 \<and> \<not> F p)"
| "pieces_at m F p esp (x # xs) =
     (let d = directive x; a = argument x
      in piece_at m F x
       \<and> read_bytes m p (length d) = d \<and> outside F p (length d)
       \<and> (a \<noteq> [] \<longrightarrow> load32 m esp = hd a \<and> outside F esp 4)
       \<and> pieces_at m F (p + word_of_nat (length d)) (esp + 4 * word_of_nat (length a)) xs)"

definition footprint :: "u32 \<Rightarrow> u32 \<Rightarrow> bool" where
  "footprint conv_buf x \<longleftrightarrow> in_region x VIDEO 4000 \<or> in_region x conv_buf 64"

section \<open>Printing from the conversion buffer\<close>

text \<open>
  \<open>printed cb s out s'\<close>: \<open>s'\<close> is \<open>s\<close> after \<open>out\<close> went to the console, with nothing changed but
  the video memory, the conversion buffer and the console's own variables.
\<close>

definition printed :: "u32 \<Rightarrow> 'a console_scheme \<Rightarrow> u8 list \<Rightarrow> 'a console_scheme \<Rightarrow> bool" where
  "printed conv_buf s out s' \<longleftrightarrow> cursor_ok s' \<and> abs_screen s' = fold a_put out (abs_screen s)
     \<and> (\<forall>x. \<not> in_region x VIDEO 4000 \<longrightarrow> \<not> in_region x conv_buf 64 \<longrightarrow> mem s' x = mem s x)
     \<and> interrupts s' = interrupts s \<and> port_in s' = port_in s \<and> console.more s' = console.more s"

lemma printed_refl: "cursor_ok s \<Longrightarrow> printed cb s [] s"
  by (simp add: printed_def)

lemma printed_trans: "printed cb s out s' \<Longrightarrow> printed cb s' out' s'' \<Longrightarrow> printed cb s (out @ out') s''"
  by (simp add: printed_def)

lemma printed_cursor_ok: "printed cb s out s' \<Longrightarrow> cursor_ok s'"
  by (simp add: printed_def)

lemma printed_put_string: "cursor_ok s \<Longrightarrow> printed cb s cs (put_string cs s)"
  by (simp add: printed_def put_string_cursor_ok put_string_abs put_string_frame frame_simps)

lemma printed_putc: "cursor_ok s \<Longrightarrow> printed cb s [c] (putc c s)"
  using printed_put_string [of s cb "[c]"] by (simp add: put_string_def)

lemma printed_scratch:
  assumes "cursor_ok s" and cb: "disjoint_regions cb 64 VIDEO 4000"
    and same: "\<And>x. \<not> in_region x cb 64 \<Longrightarrow> m x = mem s x"
    and pr: "printed cb (s\<lparr>mem := m\<rparr>) out s'"
  shows "printed cb s out s'"
proof -
  have "m x = mem s x" if "in_region x VIDEO 4000" for x
    using same [of x] disjoint_regionsD [OF cb, of x] that by metis
  then have "screen_text m = screen_text (mem s)" by (rule screen_text_cong)
  then have "abs_screen (s\<lparr>mem := m\<rparr>) = abs_screen s" by (simp add: abs_screen_def)
  with pr same show ?thesis by (simp add: printed_def)
qed

lemma print_buf_cstring:
  assumes "cursor_ok s" and "cstring (mem s) p cs" and "disjoint_regions p (Suc (length cs)) VIDEO 4000"
  shows "print_buf p s = Some (put_string cs s)"
  using puts_cstring [OF assms] by (simp add: print_buf_def)

text \<open>The workhorse: a numeral written at offset \<open>k\<close> of the conversion buffer and printed.\<close>

lemma print_scratch:
  assumes ok: "cursor_ok s" and cb: "disjoint_regions cb 64 VIDEO 4000"
    and same: "\<And>x. \<not> in_region x cb 64 \<Longrightarrow> m x = mem s x"
    and cs: "cstring m (cb + word_of_nat k) cs" and len: "k + length cs < 64"
  shows "\<exists>s'. print_buf (cb + word_of_nat k) (s\<lparr>mem := m\<rparr>) = Some s' \<and> printed cb s cs s'"
proof -
  let ?t = "s\<lparr>mem := m\<rparr>"
  have t: "cursor_ok ?t" using ok by (simp add: cursor_ok_def)
  have "disjoint_regions (cb + word_of_nat k) (Suc (length cs)) VIDEO 4000"
    using cb len by (intro disjoint_regions_sub [of cb 64]) simp_all
  then have "print_buf (cb + word_of_nat k) ?t = Some (put_string cs ?t)"
    using t cs by (intro print_buf_cstring) simp_all
  moreover have "printed cb s cs (put_string cs ?t)"
    using ok cb same t by (intro printed_scratch [of s cb m]) (simp_all add: printed_put_string)
  ultimately show ?thesis by blast
qed

lemma length_hex: "length (numeral_str 16 (unat (v :: u32))) \<le> 8"
proof -
  have "unat v < 16 ^ 8" using unat_lt32 [of v] by simp
  then show ?thesis using length_digits_pow [of 16 "unat v" 8] by (simp add: numeral_str_def)
qed

lemma length_dec: "n < 4294967296 \<Longrightarrow> length (numeral_str 10 n) \<le> 32"
  using length_numeral_str [of 10 n] by simp

lemma itoa_scratch:
  assumes r: "2 \<le> unat r" "unat r \<le> 36" and k: "k \<le> 8"
    and out: "\<And>x. \<not> in_region x cb 64 \<Longrightarrow> m0 x = m x"
  shows "\<exists>m'. itoa m0 v (cb + word_of_nat k) r = Some m'
     \<and> m' = write_bytes m0 (cb + word_of_nat k) (numeral_str (unat r) (unat v) @ [0])
     \<and> cstring m' (cb + word_of_nat k) (numeral_str (unat r) (unat v))
     \<and> (\<forall>x. \<not> in_region x cb 64 \<longrightarrow> m' x = m x)"
proof -
  let ?cs = "numeral_str (unat r) (unat v)"
  let ?m = "write_bytes m0 (cb + word_of_nat k) (?cs @ [0])"
  have len: "length ?cs \<le> 32" using r(1) unat_lt32 [of v] by (intro length_numeral_str) simp_all
  have "?m x = m x" if "\<not> in_region x cb 64" for x
  proof -
    have "\<not> in_region x (cb + word_of_nat k) (length (?cs @ [0]))"
      using in_region_shift [of x cb k "length (?cs @ [0])"] that len k
        in_region_mono [of x cb "k + length (?cs @ [0])" 64] by auto
    then have "?m x = m0 x" using len by (intro write_bytes_outside) simp_all
    with that show ?thesis using out by simp
  qed
  moreover have "cstring ?m (cb + word_of_nat k) ?cs"
    using len r by (intro cstring_write numeral_str_nonzero) simp_all
  ultimately show ?thesis using itoa_writes_numeral [OF r, of m0 v "cb + word_of_nat k"] by simp
qed

lemma print_unsigned_prints:
  assumes "cursor_ok s" and "disjoint_regions cb 64 VIDEO 4000"
  shows "\<exists>s'. print_unsigned cb v s = Some s' \<and> printed cb s (numeral_str 10 (unat v)) s'"
proof -
  obtain m where m: "itoa (mem s) v cb 10 = Some m" "cstring m cb (numeral_str 10 (unat v))"
    "\<And>x. \<not> in_region x cb 64 \<Longrightarrow> m x = mem s x"
    using itoa_scratch [of 10 0 cb "mem s" "mem s" v] by auto
  have "0 + length (numeral_str 10 (unat v)) < 64" using length_dec [of "unat v"] unat_lt32 [of v] by simp
  then show ?thesis
    using print_scratch [OF assms, of m 0 "numeral_str 10 (unat v)"] m by (simp add: print_unsigned_def)
qed

lemma pad_zeros_replicate:
  "j \<le> 8 \<Longrightarrow> pad_zeros m cb (8 - int j)
     = write_bytes m (cb + word_of_nat (8 - j)) (replicate j (byte CHR ''0''))"
proof (induction j arbitrary: m)
  case 0
  then show ?case by (simp add: pad_zeros.simps)
next
  case (Suc j)
  have a: "cb + word_of_int (8 - int (Suc j)) = cb + word_of_nat (8 - Suc j)"
    using Suc.prems by (metis of_int_of_nat_eq of_nat_diff of_nat_numeral)
  have b: "cb + word_of_nat (8 - Suc j) + 1 = cb + word_of_nat (8 - j)"
    using Suc.prems by (simp add: algebra_simps flip: of_nat_Suc)
  have "pad_zeros m cb (8 - int (Suc j))
      = pad_zeros (m(cb + word_of_nat (8 - Suc j) := byte CHR ''0'')) cb (8 - int j)"
    using a by (subst pad_zeros.simps) simp
  also have "\<dots> = write_bytes (m(cb + word_of_nat (8 - Suc j) := byte CHR ''0''))
      (cb + word_of_nat (8 - j)) (replicate j (byte CHR ''0''))"
    using Suc by simp
  finally show ?case by (simp only: replicate_Suc write_bytes.simps b)
qed

lemma print_hex8_prints:
  assumes ok: "cursor_ok s" and cb: "disjoint_regions cb 64 VIDEO 4000"
  shows "\<exists>s'. print_hex cb True v s = Some s' \<and> printed cb s (hex8_str v) s'"
proof -
  let ?ds = "numeral_str 16 (unat v)"
  let ?k = "length ?ds"
  let ?zs = "replicate (8 - ?k) (byte CHR ''0'')"
  have k: "?k \<le> 8" by (rule length_hex)
  obtain m where m: "itoa (mem s) v (cb + 8) 16 = Some m" "cstring m (cb + 8) ?ds"
    and same: "\<And>x. \<not> in_region x cb 64 \<Longrightarrow> m x = mem s x"
    and m_eq: "m = write_bytes (mem s) (cb + 8) (?ds @ [0])"
    using itoa_scratch [of 16 8 cb "mem s" "mem s" v] by auto
  have start: "strlen m (cb + 8) = Some (word_of_nat ?k)" using m(2) by (rule strlen_cstring)
  have sint: "sint (word_of_nat ?k :: u32) = 8 - int (8 - ?k)"
    using k sint_of_nat32 [of ?k] by simp
  let ?p = "cb + word_of_nat ?k"
  let ?m = "pad_zeros m cb (sint (word_of_nat ?k :: u32))"
  have pad: "?m = write_bytes m ?p ?zs"
    unfolding sint using k pad_zeros_replicate [of "8 - ?k" m cb] by simp
  have p8: "?p + word_of_nat (length ?zs) = cb + 8"
    using k by (simp add: add.assoc flip: of_nat_add)
  have "?m = write_bytes m ?p (?zs @ ?ds @ [0])"
  proof -
    have r: "read_bytes ?m (cb + 8) (Suc ?k) = ?ds @ [0]"
      using read_write_bytes_after [of ?zs "Suc ?k" m ?p] m(2) k unfolding pad p8 by (simp add: cstring_def)
    have "write_bytes m ?p (?zs @ ?ds @ [0]) = write_bytes ?m (cb + 8) (read_bytes ?m (cb + 8) (Suc ?k))"
      using r by (simp only: write_bytes_append [of m ?p ?zs] p8 pad)
    also have "\<dots> = ?m" using k by (intro write_read_bytes_same) simp
    finally show ?thesis ..
  qed
  then have cs: "cstring ?m ?p (hex8_str v)"
    using cstring_write [of "hex8_str v" m ?p] k numeral_str_nonzero [of 16 "unat v"]
    by (simp add: hex8_str_def Let_def byte_def)
  have same': "?m x = mem s x" if "\<not> in_region x cb 64" for x
  proof -
    have "\<not> in_region x ?p (length ?zs)"
      using in_region_shift [of x cb ?k "length ?zs"] in_region_mono [of x cb 8 64] that k by auto
    then show ?thesis using same [OF that] pad k by (simp add: mem_simps)
  qed
  have "?k + length (hex8_str v) < 64" using k by (simp add: hex8_str_def Let_def)
  from print_scratch [OF ok cb same' cs this] show ?thesis
    using m(1) start by (simp add: print_hex_def)
qed

lemma print_hex_prints:
  assumes "cursor_ok s" and "disjoint_regions cb 64 VIDEO 4000"
  shows "\<exists>s'. print_hex cb False v s = Some s' \<and> printed cb s (numeral_str 16 (unat v)) s'"
proof -
  obtain m where m: "itoa (mem s) v cb 16 = Some m" "cstring m cb (numeral_str 16 (unat v))"
    "\<And>x. \<not> in_region x cb 64 \<Longrightarrow> m x = mem s x"
    using itoa_scratch [of 16 0 cb "mem s" "mem s" v] by auto
  have "0 + length (numeral_str 16 (unat v)) < 64" using length_hex [of v] by simp
  then show ?thesis
    using print_scratch [OF assms, of m 0 "numeral_str 16 (unat v)"] m by (simp add: print_hex_def)
qed

lemma print_signed_prints:
  assumes ok: "cursor_ok s" and cb: "disjoint_regions cb 64 VIDEO 4000"
  shows "\<exists>s'. print_signed cb v s = Some s' \<and> printed cb s (signed_str v) s'"
proof (cases "sint v < 0")
  case False
  then have "print_signed cb v s = print_unsigned cb v s" "signed_str v = numeral_str 10 (unat v)"
    by (simp_all add: print_signed_def print_unsigned_def signed_str_def unat_sint_pos)
  then show ?thesis using print_unsigned_prints [OF assms, of v] by simp
next
  case True
  let ?m0 = "(mem s)(cb := byte CHR ''-'')"
  let ?cs = "numeral_str 10 (unat (- v))"
  have "?m0 x = mem s x" if "\<not> in_region x cb 64" for x
    using that by (auto simp: in_region_def)
  then obtain m where m: "itoa ?m0 (- v) (cb + 1) 10 = Some m" "cstring m (cb + 1) ?cs"
    and same: "\<And>x. \<not> in_region x cb 64 \<Longrightarrow> m x = mem s x"
    and m_eq: "m = write_bytes ?m0 (cb + 1) (?cs @ [0])"
    using itoa_scratch [of 10 1 cb ?m0 "mem s" "- v"] by auto
  have len: "length ?cs \<le> 32" using length_dec [of "unat (- v)"] unat_lt32 [of "- v"] by simp
  have "unat (cb - (cb + 1)) = 4294967295"
    by (simp add: unsigned_minus_1_eq_mask mask_eq_exp_minus_1)
  then have "m cb = byte CHR ''-''"
    unfolding m_eq using len by (simp add: write_bytes_apply in_region_def)
  then have "cstring m (cb + word_of_nat 0) (signed_str v)"
    using m(2) True by (simp add: signed_str_def cstring_Cons unat_sint_neg byte_def)
  moreover have "0 + length (signed_str v) < 64"
    using len True by (simp add: signed_str_def unat_sint_neg)
  ultimately show ?thesis
    using print_scratch [OF ok cb same, of 0 "signed_str v"] m(1) True by (simp add: print_signed_def)
qed

section \<open>The whole format\<close>

lemma outside_iff: "outside F a n \<longleftrightarrow> (\<forall>i < n. \<not> F (a + word_of_nat i))"
  by (auto simp: outside_def list_all_iff)

lemma pieces_at_cong:
  assumes "\<And>x. \<not> F x \<Longrightarrow> m' x = m x"
  shows "pieces_at m F p esp ps \<Longrightarrow> pieces_at m' F p esp ps"
proof (induction ps arbitrary: p esp)
  case Nil
  then show ?case using assms by simp
next
  case (Cons x xs)
  let ?d = "directive x" and ?a = "argument x"
  have bytes: "read_bytes m' q n = read_bytes m q n" if "outside F q n" for q n
    using that assms by (intro read_bytes_cong) (simp add: outside_iff)
  have "piece_at m' F x"
  proof (cases x)
    case (Text a cs)
    then have "outside F a (Suc (length cs))" and c: "cstring m a cs"
      using Cons.prems by (simp_all add: Let_def)
    from bytes [OF this(1)] c have "cstring m' a cs" by (simp add: cstring_def)
    then show ?thesis using Cons.prems Text by simp
  qed (use Cons.prems in \<open>simp_all add: Let_def\<close>)
  moreover have "read_bytes m' p (length ?d) = ?d"
    using Cons.prems bytes [of p "length ?d"] by (simp add: Let_def)
  moreover have "load32 m' esp = hd ?a" if "?a \<noteq> []"
    using that Cons.prems load32_cong [OF bytes [of esp 4]] by (simp add: Let_def)
  moreover have "pieces_at m' F (p + word_of_nat (length ?d)) (esp + 4 * word_of_nat (length ?a)) xs"
    using Cons.prems by (intro Cons.IH) (simp add: Let_def)
  ultimately show ?case using Cons.prems by (simp add: Let_def)
qed

lemma pieces_at_printed:
  assumes "pieces_at (mem s) (footprint cb) p esp ps" and "printed cb s out s'"
  shows "pieces_at (mem s') (footprint cb) p esp ps"
  by (rule pieces_at_cong [OF _ assms(1)]) (use assms(2) in \<open>simp add: printed_def footprint_def\<close>)

lemma Text_region:
  assumes "cstring (mem s) a cs" and "outside (footprint cb) a (Suc (length cs))" and "cursor_ok s"
  shows "print_buf a s = Some (put_string cs s)"
proof -
  have "\<not> in_region (a + 0 + word_of_nat j) VIDEO 4000" if "j \<le> length cs" for j
    using assms(2) that by (simp add: outside_iff footprint_def)
  then show ?thesis
    using puts_loop_cstring [of s a 0 cs] assms by (simp add: print_buf_def puts_def)
qed

lemma bytes_distinct:
  "distinct (bytes ''%xudcs#'')" "0 \<notin> set (bytes ''%xudcs#'')"
  by (code_simp)+

text \<open>One directive: the loop goes on behind it, with the rendering on the screen.\<close>

lemma printf_loop_piece:
  assumes ok: "cursor_ok s" and cb: "disjoint_regions cb 64 VIDEO 4000"
    and at: "pieces_at (mem s) (footprint cb) p esp (x # xs)"
  shows "\<exists>s'. printed cb s (rendering x) s' \<and>
     printf_loop cb p esp s
       = printf_loop cb (p + word_of_nat (length (directive x))) (esp + 4 * word_of_nat (length (argument x))) s'"
proof -
  have d: "read_bytes (mem s) p (length (directive x)) = directive x" and px: "piece_at (mem s) (footprint cb) x"
    and a: "argument x \<noteq> [] \<Longrightarrow> load32 (mem s) esp = hd (argument x)"
    using at by (simp_all add: Let_def)
  note step = printf_loop.simps [of cb p esp s] format_char.simps print_conversion_def
    read_bytes_Suc bytes_distinct
  show ?thesis
  proof (cases x)
    case (Literal c)
    then show ?thesis using d px printed_putc [OF ok, of cb c] by (auto simp: step)
  next
    case Percent
    then show ?thesis using d printed_putc [OF ok, of cb "byte CHR ''%''"] bytes_distinct
      by (auto simp: step Let_def add.assoc)
  next
    case (Hex v)
    then show ?thesis using d a print_hex_prints [OF ok cb, of v] bytes_distinct
      by (auto simp: step Let_def add.assoc)
  next
    case (Hex8 v)
    then show ?thesis using d a print_hex8_prints [OF ok cb, of v] bytes_distinct
      by (auto simp: step Let_def add.assoc)
  next
    case (Unsigned v)
    then show ?thesis using d a print_unsigned_prints [OF ok cb, of v] bytes_distinct
      by (auto simp: step Let_def add.assoc)
  next
    case (Signed v)
    then show ?thesis using d a print_signed_prints [OF ok cb, of v] bytes_distinct
      by (auto simp: step Let_def add.assoc)
  next
    case (Character v)
    then show ?thesis using d a printed_putc [OF ok, of cb "ucast v"] bytes_distinct
      by (auto simp: step Let_def add.assoc)
  next
    case (Text b cs)
    then show ?thesis using d a px ok Text_region [of s b cs cb] printed_put_string [OF ok, of cb cs] bytes_distinct
      by (auto simp: step Let_def add.assoc)
  qed
qed

lemma printf_loop_pieces:
  "cursor_ok s \<Longrightarrow> disjoint_regions cb 64 VIDEO 4000 \<Longrightarrow> pieces_at (mem s) (footprint cb) p esp ps \<Longrightarrow>
     \<exists>s'. printf_loop cb p esp s = Some (p + word_of_nat (length (concat (map directive ps))), s')
        \<and> printed cb s (concat (map rendering ps)) s'"
proof (induction ps arbitrary: p esp s)
  case Nil
  then show ?case by (auto simp: printf_loop.simps printed_refl)
next
  case (Cons x xs)
  let ?p = "p + word_of_nat (length (directive x))"
  let ?e = "esp + 4 * word_of_nat (length (argument x))"
  obtain t where t: "printed cb s (rendering x) t" and eq: "printf_loop cb p esp s = printf_loop cb ?p ?e t"
    using printf_loop_piece [OF Cons.prems] by blast
  have "pieces_at (mem s) (footprint cb) ?p ?e xs" using Cons.prems(3) by (simp add: Let_def)
  then have "pieces_at (mem t) (footprint cb) ?p ?e xs" using t by (rule pieces_at_printed)
  from Cons.IH [OF printed_cursor_ok [OF t] Cons.prems(2) this] obtain s' where
    "printf_loop cb ?p ?e t = Some (?p + word_of_nat (length (concat (map directive xs))), s')"
    and "printed cb t (concat (map rendering xs)) s'" by blast
  then show ?case using eq printed_trans [OF t] by (auto simp: add.assoc)
qed

lemma printf_pieces:
  assumes "cursor_ok s" and "disjoint_regions cb 64 VIDEO 4000"
    and "pieces_at (mem s) (footprint cb) (load32 (mem s) esp) (esp + 4) ps"
  shows "\<exists>s'. printf cb esp s = Some (word_of_nat (length (concat (map directive ps))), s')
        \<and> printed cb s (concat (map rendering ps)) s'"
  using printf_loop_pieces [OF assms] by (auto simp: printf_def Let_def)

text \<open>The printed numbers read back to the argument.\<close>

lemma string_value_zeros: "string_value r (replicate k (byte CHR ''0'') @ cs) = string_value r cs"
proof -
  have "digit_value (byte CHR ''0'') = 0" by code_simp
  then have "foldl (\<lambda>a c. a * r + digit_value c) 0 (replicate k (byte CHR ''0'')) = 0"
    by (induction k) simp_all
  then show ?thesis by (simp add: string_value_def)
qed

lemma hex8_str_value: "string_value 16 (hex8_str v) = unat v"
  by (simp add: hex8_str_def Let_def string_value_zeros string_value_numeral)

lemma length_hex8_str: "length (hex8_str v) = 8"
  using length_hex [of v] by (simp add: hex8_str_def Let_def)

section \<open>printf of a literal\<close>

lemma printf_loop_literal:
  "cursor_ok s \<Longrightarrow> cstring (mem s) p cs \<Longrightarrow> byte CHR ''%'' \<notin> set cs \<Longrightarrow>
     (\<And>j. j \<le> length cs \<Longrightarrow> \<not> in_region (p + word_of_nat j) VIDEO 4000) \<Longrightarrow>
     printf_loop cb p esp s = Some (p + word_of_nat (length cs), put_string cs s)"
proof (induction cs arbitrary: p s)
  case Nil
  then show ?case by (simp add: printf_loop.simps cstring_Nil put_string_def)
next
  case (Cons c cs)
  then have c: "mem s p = c" "c \<noteq> 0" "c \<noteq> byte CHR ''%''" "cstring (mem s) (p + 1) cs"
    by (auto simp: cstring_Cons)
  have out: "\<not> in_region (p + 1 + word_of_nat j) VIDEO 4000" if "j \<le> length cs" for j
    using Cons.prems(4) [of "Suc j"] that by (simp add: add.assoc)
  have "printf_loop cb (p + 1) esp (putc c s)
      = Some (p + 1 + word_of_nat (length cs), put_string cs (putc c s))"
    using Cons.prems out c(4)
    by (intro Cons.IH console.put_cstring [of s "p + 1"] putc_cursor_ok) simp_all
  with c show ?case by (simp add: printf_loop.simps [of cb p esp s] put_string_def add.assoc)
qed

lemma printf_literal:
  assumes "cursor_ok s" and "cstring (mem s) (load32 (mem s) esp) cs" and "byte CHR ''%'' \<notin> set cs"
    and "\<And>j. j \<le> length cs \<Longrightarrow> \<not> in_region (load32 (mem s) esp + word_of_nat j) VIDEO 4000"
  shows "printf cb esp s = Some (word_of_nat (length cs), put_string cs s)"
  using printf_loop_literal [OF assms] by (simp add: printf_def)

section \<open>Properties\<close>

text \<open>
  C19. On a format string made of the supported directives, with its arguments on the stack behind it
  and none of them inside the video memory or the conversion buffer, \<open>printf\<close> returns the length of the
  format string; it has printed exactly the rendering of the directives, left the cursor on the screen,
  and changed no memory but the video memory and the 64 bytes of the conversion buffer.
\<close>

theorem printf_renders:
  assumes "cursor_ok s" and "disjoint_regions cb 64 VIDEO 4000"
    and "pieces_at (mem s) (footprint cb) (load32 (mem s) esp) (esp + 4) ps"
  shows "\<exists>s'. printf cb esp s = Some (word_of_nat (length (concat (map directive ps))), s')
     \<and> cursor_ok s' \<and> abs_screen s' = fold a_put (concat (map rendering ps)) (abs_screen s)
     \<and> (\<forall>x. \<not> footprint cb x \<longrightarrow> mem s' x = mem s x)"
  using printf_pieces [OF assms] by (auto simp: printed_def footprint_def)

definition printf_example :: console where
  "printf_example = \<lparr>mem = write_bytes (write_bytes (\<lambda>_. 0) 0x1000 (bytes ''=%#x''))
       0x3000 (bytes32 0x1000 @ bytes32 0x2A),
     interrupts = True, out_log = [], port_in = (\<lambda>_. 0), screen_x = 79, screen_y = 24\<rparr>"

theorem printf_renders_witness:
  "\<exists>s'. printf 0x2000 0x3000 printf_example = Some (4, s') \<and> cursor_ok s'
     \<and> abs_screen s' = fold a_put (bytes ''=0000002A'') (abs_screen printf_example)"
proof -
  let ?ps = "[Literal (byte CHR ''=''), Hex8 0x2A]"
  have "load32 (mem printf_example) 0x3000 = 0x1000" "load32 (mem printf_example) 0x3004 = 0x2A"
    "read_bytes (mem printf_example) 0x1000 1 = bytes ''=''"
    "read_bytes (mem printf_example) 0x1001 (Suc (Suc (Suc 0))) = bytes ''%#x''" "mem printf_example 0x1004 = 0"
    "byte CHR ''='' \<noteq> 0" "byte CHR ''='' \<noteq> byte CHR ''%''"
    by code_simp+
  then have "pieces_at (mem printf_example) (footprint 0x2000)
      (load32 (mem printf_example) 0x3000) (0x3000 + 4) ?ps"
    by (simp add: outside_def footprint_def in_region_def upt_rec)
  moreover have "length (concat (map directive ?ps)) = 4"
    "concat (map rendering ?ps) = bytes ''=0000002A''"
    by code_simp+
  moreover have "cursor_ok printf_example" by (simp add: printf_example_def cursor_ok_def)
  moreover have "disjoint_regions 0x2000 64 VIDEO 4000" by (simp add: disjoint_regions_def)
  ultimately show ?thesis
    using printf_renders [of printf_example "0x2000" "0x3000" ?ps] by auto
qed

end
