(* ===== verification/Pic.thy ===== *)
theory Pic
  imports Printf
begin

text \<open>
  The driver of the two cascaded 8259 interrupt controllers, \<^verbatim>\<open>src/student-distrib/i8259.c\<close>:
  the shadow copies of the two mask registers and the four operations on them. A \<open>printf\<close> of a
  literal message is \<open>put_string\<close> of it (lemma \<open>printf_literal\<close>). The lemmas give the command
  sequences the controllers receive, and the invariant that the interrupt lines the kernel
  lives on (timer, cascade, clock) are never masked by what the kernel does to the masks.
\<close>

section \<open>State and operations\<close>

record pic = console +
  master_bit_mask :: u8
  slave_bit_mask :: u8

abbreviation MASTER_DATA_PORT :: u16 where "MASTER_DATA_PORT \<equiv> 0x21"
abbreviation SLAVE_DATA_PORT :: u16 where "SLAVE_DATA_PORT \<equiv> 0xA1"
abbreviation ACTIVE_LOW :: u8 where "ACTIVE_LOW \<equiv> 0xFC"
abbreviation ICW1 :: u8 where "ICW1 \<equiv> 0x11"
abbreviation ICW2_MASTER :: u8 where "ICW2_MASTER \<equiv> 0x20"
abbreviation ICW2_SLAVE :: u8 where "ICW2_SLAVE \<equiv> 0x28"
abbreviation ICW3_MASTER :: u8 where "ICW3_MASTER \<equiv> 0x04"
abbreviation ICW3_SLAVE :: u8 where "ICW3_SLAVE \<equiv> 0x02"
abbreviation ICW4 :: u8 where "ICW4 \<equiv> 0x01"
abbreviation EOI :: u32 where "EOI \<equiv> 0x60"

text \<open>The shift is the source's \<^verbatim>\<open>irq_num << mask\<close> with \<open>mask\<close> holding 1.\<close>

definition enable_irq :: "u32 \<Rightarrow> 'a pic_scheme \<Rightarrow> 'a pic_scheme" where
  "enable_irq irq_num s =
     (if irq_num \<ge> 16 then put_string (bytes ''Invalid irq number'') s
      else if irq_num > 8 then
        let mask = push_bit 1 (irq_num - 8);
            s = s\<lparr>slave_bit_mask := ucast (NOT mask AND ucast (slave_bit_mask s))\<rparr>
        in outb (slave_bit_mask s) SLAVE_DATA_PORT s
      else
        let mask = push_bit 1 irq_num;
            s = s\<lparr>master_bit_mask := ucast (NOT mask AND ucast (master_bit_mask s))\<rparr>
        in outb (master_bit_mask s) MASTER_DATA_PORT s)"

definition disable_irq :: "u32 \<Rightarrow> 'a pic_scheme \<Rightarrow> 'a pic_scheme" where
  "disable_irq irq_num s =
     (if irq_num \<ge> 16 then put_string (bytes ''Invalid irq number'') s
      else if irq_num > 8 then
        let mask = push_bit 1 (irq_num - 8);
            s = s\<lparr>slave_bit_mask := ucast (mask OR ucast (master_bit_mask s))\<rparr>
        in outb (slave_bit_mask s) SLAVE_DATA_PORT s
      else
        let mask = push_bit 1 irq_num;
            s = s\<lparr>master_bit_mask := ucast (mask OR ucast (master_bit_mask s))\<rparr>
        in outb (master_bit_mask s) MASTER_DATA_PORT s)"

definition send_eoi :: "u32 \<Rightarrow> 'a pic_scheme \<Rightarrow> 'a pic_scheme" where
  "send_eoi irq_num s =
     (if irq_num > 15 then put_string (bytes ''Invalid irq_num'') s
      else if irq_num \<le> 7 then outb (ucast (EOI OR irq_num)) (MASTER_DATA_PORT - 1) s
      else let temp_irq_line = irq_num - 8
           in outb (ucast (EOI OR 2)) (MASTER_DATA_PORT - 1)
                (outb (ucast (EOI OR temp_irq_line)) (SLAVE_DATA_PORT - 1) s))"

definition i8259_init :: "'a pic_scheme \<Rightarrow> 'a pic_scheme" where
  "i8259_init s =
     (let s = s\<lparr>master_bit_mask := ACTIVE_LOW, slave_bit_mask := ACTIVE_LOW\<rparr>;
          s = outb ACTIVE_LOW MASTER_DATA_PORT s;
          s = outb ICW1 (MASTER_DATA_PORT - 1) s;
          s = outb ICW2_MASTER MASTER_DATA_PORT s;
          s = outb ICW3_MASTER MASTER_DATA_PORT s;
          s = outb ICW4 MASTER_DATA_PORT s;
          s = outb ACTIVE_LOW SLAVE_DATA_PORT s;
          s = outb ICW1 (SLAVE_DATA_PORT - 1) s;
          s = outb ICW2_SLAVE SLAVE_DATA_PORT s;
          s = outb ICW3_SLAVE SLAVE_DATA_PORT s;
          s = outb ICW4 SLAVE_DATA_PORT s
      in enable_irq 2 s)"

section \<open>Frames\<close>

lemma outb_pic [frame_simps]:
  "master_bit_mask (outb d p s) = master_bit_mask s" "slave_bit_mask (outb d p s) = slave_bit_mask s"
  "screen_x (outb d p s) = screen_x s" "screen_y (outb d p s) = screen_y s"
  "pic.more (outb d p s) = pic.more s" "console.more (outb d p s) = console.more s"
  by (simp_all add: outb_def)

lemma put_string_pic [frame_simps]:
  "master_bit_mask (put_string cs s) = master_bit_mask s"
  "slave_bit_mask (put_string cs s) = slave_bit_mask s" "pic.more (put_string cs s) = pic.more s"
proof -
  have "console.more (put_string cs s) = console.more s" by (simp add: frame_simps)
  then show "master_bit_mask (put_string cs s) = master_bit_mask s"
    "slave_bit_mask (put_string cs s) = slave_bit_mask s" "pic.more (put_string cs s) = pic.more s"
    by (cases s; cases "put_string cs s"; simp)+
qed

lemma irq_mem [frame_simps]:
  "irq < 16 \<Longrightarrow> mem (enable_irq irq s) = mem s" "irq < 16 \<Longrightarrow> mem (disable_irq irq s) = mem s"
  "irq < 16 \<Longrightarrow> mem (send_eoi irq s) = mem s"
  by (auto simp: enable_irq_def disable_irq_def send_eoi_def Let_def frame_simps word_less_nat_alt word_le_nat_alt)

lemma irq_interrupts [frame_simps]:
  "interrupts (enable_irq irq s) = interrupts s" "interrupts (disable_irq irq s) = interrupts s"
  "interrupts (send_eoi irq s) = interrupts s"
  by (simp_all add: enable_irq_def disable_irq_def send_eoi_def Let_def frame_simps)

lemma irq_more [frame_simps]:
  "pic.more (enable_irq irq s) = pic.more s" "pic.more (disable_irq irq s) = pic.more s"
  "pic.more (send_eoi irq s) = pic.more s"
  by (simp_all add: enable_irq_def disable_irq_def send_eoi_def Let_def frame_simps)

lemma send_eoi_masks [frame_simps]:
  "master_bit_mask (send_eoi irq s) = master_bit_mask s"
  "slave_bit_mask (send_eoi irq s) = slave_bit_mask s"
  by (simp_all add: send_eoi_def Let_def frame_simps)

section \<open>The mask registers\<close>

text \<open>A mask bit of a controller after an operation: the number that is masked is twice the line.\<close>

lemma enable_irq_master_bit:
  assumes "irq \<le> 8" and "n < 8"
  shows "bit (master_bit_mask (enable_irq irq s)) n
           \<longleftrightarrow> bit (master_bit_mask s) n \<and> \<not> bit (push_bit 1 irq) n"
proof -
  have "\<not> irq \<ge> 16" "\<not> irq > 8" using assms(1) by (auto simp: word_le_nat_alt word_less_nat_alt)
  then show ?thesis using assms(2)
    by (auto simp: enable_irq_def Let_def frame_simps bit_simps)
qed

lemma disable_irq_master_bit:
  assumes "irq \<le> 8" and "n < 8"
  shows "bit (master_bit_mask (disable_irq irq s)) n
           \<longleftrightarrow> bit (master_bit_mask s) n \<or> bit (push_bit 1 irq) n"
proof -
  have "\<not> irq \<ge> 16" "\<not> irq > 8" using assms(1) by (auto simp: word_le_nat_alt word_less_nat_alt)
  then show ?thesis using assms(2)
    by (auto simp: disable_irq_def Let_def frame_simps bit_simps)
qed

lemma irq_slave [frame_simps]:
  "irq \<le> 8 \<Longrightarrow> slave_bit_mask (enable_irq irq s) = slave_bit_mask s"
  "irq \<le> 8 \<Longrightarrow> slave_bit_mask (disable_irq irq s) = slave_bit_mask s"
  by (auto simp: enable_irq_def disable_irq_def Let_def frame_simps)

lemma irq_log:
  "irq \<le> 8 \<Longrightarrow> out_log (enable_irq irq s) = out_log s @ [(0x21, master_bit_mask (enable_irq irq s))]"
  "irq \<le> 8 \<Longrightarrow> out_log (disable_irq irq s) = out_log s @ [(0x21, master_bit_mask (disable_irq irq s))]"
  by (auto simp: enable_irq_def disable_irq_def Let_def frame_simps word_less_nat_alt word_le_nat_alt)

lemma send_eoi_log:
  "irq \<le> 15 \<Longrightarrow> out_log (send_eoi irq s) = out_log s @
     (if irq \<le> 7 then [(0x20, ucast (0x60 OR irq))]
      else [(0xA0, ucast (0x60 OR (irq - 8))), (0x20, 0x62)])"
  by (auto simp: send_eoi_def Let_def frame_simps)

lemma i8259_init_masks:
  "master_bit_mask (i8259_init s) = 0xF8" "slave_bit_mask (i8259_init s) = 0xFC"
  by (simp_all add: i8259_init_def enable_irq_def Let_def frame_simps) 

section \<open>Which lines stay open\<close>

text \<open>
  The controller under everything the kernel does with it after \<open>i8259_init\<close>: it enables the lines
  0 (timer), 1 (keyboard), 2 (cascade) and 8 (clock), disables line 1, and acknowledges interrupts.
\<close>

inductive pic_reach :: "'a pic_scheme \<Rightarrow> bool" where
  init: "pic_reach (i8259_init s)"
| enable: "pic_reach s \<Longrightarrow> irq \<in> {0, 1, 2, 8} \<Longrightarrow> pic_reach (enable_irq irq s)"
| disable: "pic_reach s \<Longrightarrow> pic_reach (disable_irq 1 s)"
| eoi: "pic_reach s \<Longrightarrow> pic_reach (send_eoi irq s)"
| other: "pic_reach s \<Longrightarrow> master_bit_mask t = master_bit_mask s \<Longrightarrow> slave_bit_mask t = slave_bit_mask s
    \<Longrightarrow> pic_reach t"

definition lines_open :: "'a pic_scheme \<Rightarrow> bool" where
  "lines_open s \<longleftrightarrow> \<not> bit (master_bit_mask s) 0 \<and> \<not> bit (master_bit_mask s) 2 \<and> \<not> bit (slave_bit_mask s) 0"

lemma lines_open_enable: "irq \<le> 8 \<Longrightarrow> lines_open s \<Longrightarrow> lines_open (enable_irq irq s)"
  by (simp add: lines_open_def enable_irq_master_bit frame_simps)

lemma lines_open_disable: "lines_open s \<Longrightarrow> lines_open (disable_irq 1 s)"
  by (simp add: lines_open_def disable_irq_master_bit frame_simps bit_simps)

lemma lines_open_cong:
  "master_bit_mask t = master_bit_mask s \<Longrightarrow> slave_bit_mask t = slave_bit_mask s \<Longrightarrow>
     lines_open t = lines_open s"
  by (simp add: lines_open_def)

lemma pic_reach_lines_open: "pic_reach s \<Longrightarrow> lines_open s"
proof (induction rule: pic_reach.induct)
  case (init s)
  then show ?case by (simp add: lines_open_def i8259_init_masks)
next
  case (enable s irq)
  then show ?case by (auto intro: lines_open_enable)
next
  case (disable s)
  then show ?case by (intro lines_open_disable)
next
  case (eoi s irq)
  then show ?case by (simp add: lines_open_def frame_simps)
next
  case (other s t)
  then show ?case by (simp add: lines_open_def)
qed

section \<open>Properties\<close>

text \<open>
  Masking and unmasking the keyboard. Disabling line 1 and enabling it again is what the scheduler
  and the keyboard handler do around a critical section: bit 1 of the master mask follows, every other
  bit of both masks stays, and the controller is told the new master mask.
\<close>

lemma keyboard_line_toggle:
  "n < 8 \<Longrightarrow> (bit (master_bit_mask (disable_irq 1 s)) n \<longleftrightarrow> n = 1 \<or> bit (master_bit_mask s) n)
     \<and> (bit (master_bit_mask (enable_irq 1 s)) n \<longleftrightarrow> n \<noteq> 1 \<and> bit (master_bit_mask s) n)
     \<and> slave_bit_mask (disable_irq 1 s) = slave_bit_mask s
     \<and> slave_bit_mask (enable_irq 1 s) = slave_bit_mask s
     \<and> out_log (disable_irq 1 s) = out_log s @ [(0x21, master_bit_mask (disable_irq 1 s))]
     \<and> out_log (enable_irq 1 s) = out_log s @ [(0x21, master_bit_mask (enable_irq 1 s))]"
proof -
  assume n: "n < 8"
  have "bit (push_bit 1 1 :: u32) n \<longleftrightarrow> n = 1" using n by (auto simp: bit_simps)
  moreover have "out_log (disable_irq 1 s) = out_log s @ [(0x21, master_bit_mask (disable_irq 1 s))]"
    "out_log (enable_irq 1 s) = out_log s @ [(0x21, master_bit_mask (enable_irq 1 s))]"
    by (simp_all add: irq_log)
  ultimately show ?thesis
    using n by (auto simp: disable_irq_master_bit enable_irq_master_bit frame_simps)
qed

definition pic_example :: pic where
  "pic_example = \<lparr>mem = (\<lambda>_. 0), interrupts = True, out_log = [], port_in = (\<lambda>_. 0),
     screen_x = 0, screen_y = 0, master_bit_mask = 0, slave_bit_mask = 0\<rparr>"

text \<open>
  C33. The timer line, the cascade line and the clock line are never masked, whatever sequence of the mask
  operations the kernel performs after \<open>i8259_init\<close>.
\<close>

theorem kernel_lines_never_masked:
  "pic_reach s \<Longrightarrow> \<not> bit (master_bit_mask s) 0 \<and> \<not> bit (master_bit_mask s) 2 \<and> \<not> bit (slave_bit_mask s) 0"
  using pic_reach_lines_open [of s] by (simp add: lines_open_def)

theorem kernel_lines_never_masked_witness:
  "\<not> bit (master_bit_mask (enable_irq 8 (disable_irq 1 (i8259_init pic_example)))) 0
     \<and> \<not> bit (slave_bit_mask (enable_irq 8 (disable_irq 1 (i8259_init pic_example)))) 0"
  using kernel_lines_never_masked [of "enable_irq 8 (disable_irq 1 (i8259_init pic_example))"]
  by (simp add: pic_reach.intros)

text \<open>
  Every interrupt of the 16 lines is acknowledged at the controller it came from: a specific
  end-of-interrupt to the master for lines 0 to 7, and for lines 8 to 15 one for the line at the slave
  followed by one for the cascade line at the master. The masks are left alone.
\<close>

lemma send_eoi_acknowledges:
  assumes "irq \<le> 15"
  shows "out_log (send_eoi irq s) = out_log s @
     (if irq \<le> 7 then [(0x20, ucast (0x60 OR irq))]
      else [(0xA0, ucast (0x60 OR (irq - 8))), (0x20, 0x62)])
     \<and> master_bit_mask (send_eoi irq s) = master_bit_mask s
     \<and> slave_bit_mask (send_eoi irq s) = slave_bit_mask s"
  using assms by (simp add: send_eoi_log frame_simps)

text \<open>
  Outside lines 1 and 2 the shift operands are the wrong way round: enabling line 5 leaves line 5
  masked (it clears the mask bits of the number 10), enabling the clock line 8 clears bit 4 of the
  master, and enabling the timer line 0 changes nothing.
\<close>

lemma enable_irq_shifts_the_line:
  "bit (master_bit_mask (enable_irq 5 s)) 5 = bit (master_bit_mask s) 5
     \<and> \<not> bit (master_bit_mask (enable_irq 5 s)) 1 \<and> \<not> bit (master_bit_mask (enable_irq 5 s)) 3
     \<and> \<not> bit (master_bit_mask (enable_irq 8 s)) 4
     \<and> slave_bit_mask (enable_irq 8 s) = slave_bit_mask s
     \<and> master_bit_mask (enable_irq 0 s) = master_bit_mask s"
proof -
  have "master_bit_mask (enable_irq 0 s) = master_bit_mask s"
    by (rule bit_word_eqI) (simp add: enable_irq_master_bit)
  then show ?thesis by (simp add: enable_irq_master_bit frame_simps bit_simps)
qed

end
