(* ===== verification/Rtc.thy ===== *)
theory Rtc
  imports Pic
begin

text \<open>
  The real-time clock driver, \<^verbatim>\<open>src/student-distrib/rtc.c\<close>: its interrupt flag, the interrupt
  handler and the four file operations. The busy-waiting loop of \<open>rtc_read\<close> is run against an
  explicit list of what happens between two of its checks, so that a theorem can say when the
  call returns. The local variable of \<open>rtc_open\<close> is at an address that is a parameter.
\<close>

record rtc = pic +
  is_rtc_interrupt_flag :: int

abbreviation RTC_INPUT_PORT :: u16 where "RTC_INPUT_PORT \<equiv> 0x70"
abbreviation RTC_RW_PORT :: u16 where "RTC_RW_PORT \<equiv> 0x71"
abbreviation RTC_DEFAULT_RATE :: u32 where "RTC_DEFAULT_RATE \<equiv> 2"

section \<open>Operations\<close>

definition rtc_init :: "'a rtc_scheme \<Rightarrow> 'a rtc_scheme" where
  "rtc_init s =
     (let s = cli s;
          s = outb 0x8B RTC_INPUT_PORT s;
          prev = inb RTC_RW_PORT s;
          s = outb 0x8B RTC_INPUT_PORT s;
          s = outb (prev OR 0x40) RTC_RW_PORT s;
          s = enable_irq 8 s
      in sti s)"

definition rtc_handle_interrupt :: "'a rtc_scheme \<Rightarrow> 'a rtc_scheme" where
  "rtc_handle_interrupt s =
     (let s = cli s;
          s = send_eoi 8 s;
          s = s\<lparr>is_rtc_interrupt_flag := 0\<rparr>;
          s = outb 0x8C RTC_INPUT_PORT s
      in sti s)"

definition frequency_options :: "int list" where
  "frequency_options = [1024, 512, 256, 128, 64, 32, 16, 8, 4, 2]"

text \<open>The rate of the loop over \<open>frequency_options\<close>: 0 when the loop finds nothing.\<close>

definition rate_of :: "int \<Rightarrow> int" where
  "rate_of interrupt_rate =
     (case scan (\<lambda>f. interrupt_rate = f) frequency_options of None \<Rightarrow> 0 | Some i \<Rightarrow> int i + 6)"

definition rtc_write :: "int \<Rightarrow> u32 \<Rightarrow> int \<Rightarrow> 'a rtc_scheme \<Rightarrow> int \<times> 'a rtc_scheme" where
  "rtc_write fd buf nbytes s =
     (if buf = 0 \<or> nbytes \<noteq> 4 then (-1, s)
      else let interrupt_rate = sint (load32 (mem s) buf); rate = rate_of interrupt_rate
           in if rate \<le> 2 \<or> rate > 15 then (-1, s)
              else let rate = (word_of_int rate AND 0x0F :: u8);
                       s = outb 0x8A RTC_INPUT_PORT s;
                       prev = inb RTC_RW_PORT s;
                       s = outb 0x8A RTC_INPUT_PORT s;
                       s = outb ((prev AND 0xF0) OR rate) RTC_RW_PORT s
                   in (0, s))"

definition rtc_open :: "u32 \<Rightarrow> u32 \<Rightarrow> 'a rtc_scheme \<Rightarrow> int \<times> 'a rtc_scheme" where
  "rtc_open init_frequency filename s =
     (let s = s\<lparr>mem := store32 (mem s) init_frequency RTC_DEFAULT_RATE\<rparr>
      in (0, snd (rtc_write 0 init_frequency 4 s)))"

definition rtc_close :: "int \<Rightarrow> 'a rtc_scheme \<Rightarrow> int \<times> 'a rtc_scheme" where
  "rtc_close fd s = (0, s)"

text \<open>
  \<open>rtc_read\<close> sets the flag and spins. Every element of \<open>events\<close> is what the machine does before the
  next check of the flag: an RTC interrupt (\<open>True\<close>) or nothing that touches the flag (\<open>False\<close>).
  \<open>None\<close>: still spinning when the events are used up.
\<close>

fun rtc_read_loop :: "bool list \<Rightarrow> 'a rtc_scheme \<Rightarrow> (int \<times> 'a rtc_scheme) option" where
  "rtc_read_loop [] s = None"
| "rtc_read_loop (irq # events) s =
     (let s = (if irq then rtc_handle_interrupt s else s)
      in if is_rtc_interrupt_flag s = 0 then Some (0, s) else rtc_read_loop events s)"

definition rtc_read :: "bool list \<Rightarrow> int \<Rightarrow> u32 \<Rightarrow> int \<Rightarrow> 'a rtc_scheme \<Rightarrow> (int \<times> 'a rtc_scheme) option" where
  "rtc_read events fd buf nbytes s = rtc_read_loop events (s\<lparr>is_rtc_interrupt_flag := 1\<rparr>)"

section \<open>Lemmas\<close>

lemma rate_of_options:
  "rate_of f = (if f = 1024 then 6 else if f = 512 then 7 else if f = 256 then 8 else if f = 128 then 9
     else if f = 64 then 10 else if f = 32 then 11 else if f = 16 then 12 else if f = 8 then 13
     else if f = 4 then 14 else if f = 2 then 15 else 0)"
  by (simp add: rate_of_def frequency_options_def scan_def)

text \<open>The data sheet's formula: rate \<open>r\<close> gives \<open>32768 >> (r - 1)\<close> interrupts per second.\<close>

lemma rate_of_frequency: "f \<in> set frequency_options \<Longrightarrow> 3 \<le> rate_of f \<and> rate_of f \<le> 15
     \<and> 32768 div 2 ^ nat (rate_of f - 1) = f"
  by (auto simp: rate_of_options frequency_options_def)

lemma rate_of_other: "f \<notin> set frequency_options \<Longrightarrow> rate_of f = 0"
  by (simp add: rate_of_options frequency_options_def)

lemma frequency_powers: "f \<in> set frequency_options \<longleftrightarrow> (\<exists>k \<in> {1..10 :: nat}. f = 2 ^ k)"
proof -
  have eq: "frequency_options = map (\<lambda>k. 2 ^ k) (rev [1..<11])" by code_simp
  have "{1..<11} = {1..10 :: nat}" by auto
  then show ?thesis unfolding eq by (simp only: set_map set_rev set_upt image_iff)
qed

lemma rate_of_nibble:
  assumes "f \<in> set frequency_options"
  shows "(word_of_int (rate_of f) AND 0x0F :: u8) = word_of_int (rate_of f)"
proof -
  have "rate_of f \<in> {6, 7, 8, 9, 10, 11, 12, 13, 14, 15}"
    using assms by (auto simp: frequency_options_def rate_of_options)
  then show ?thesis by auto
qed

lemma rtc_write_ok:
  assumes "buf \<noteq> 0" and "sint (load32 (mem s) buf) \<in> set frequency_options"
  shows "rtc_write fd buf 4 s = (0, s\<lparr>out_log := out_log s @ [(0x70, 0x8A), (0x70, 0x8A),
      (0x71, (port_in s 0x71 AND 0xF0) OR word_of_int (rate_of (sint (load32 (mem s) buf))))]\<rparr>)"
proof -
  let ?r = "rate_of (sint (load32 (mem s) buf))"
  have r: "3 \<le> ?r" "?r \<le> 15" using rate_of_frequency [OF assms(2)] by simp_all
  note rate_of_nibble [OF assms(2)]
  with r assms(1) show ?thesis by (simp add: rtc_write_def Let_def outb_def inb_def)
qed

lemma rtc_write_bad:
  "buf = 0 \<or> nbytes \<noteq> 4 \<or> sint (load32 (mem s) buf) \<notin> set frequency_options \<Longrightarrow>
     rtc_write fd buf nbytes s = (-1, s)"
  by (auto simp: rtc_write_def Let_def rate_of_other)

lemma rtc_handle_interrupt_flag: "is_rtc_interrupt_flag (rtc_handle_interrupt s) = 0"
  by (simp add: rtc_handle_interrupt_def Let_def sti_def outb_def)

lemma rtc_read_loop_returns:
  "is_rtc_interrupt_flag s \<noteq> 0 \<Longrightarrow>
     rtc_read_loop events s = (if True \<in> set events then Some (0, rtc_handle_interrupt s) else None)"
  by (induction events arbitrary: s) (auto simp: Let_def rtc_handle_interrupt_flag)

section \<open>Properties\<close>

text \<open>
  \<open>rtc_write\<close> accepts exactly a 4-byte power of two between 2 and 1024, and then it sets the low
  nibble of the clock's register A to the rate \<open>r\<close> for which \<open>32768 >> (r - 1)\<close> is the frequency asked
  for, keeping the high nibble; it returns 0, and nothing but the three port writes happens. Otherwise it returns
  -1 and changes nothing.
\<close>

lemma rtc_write_sets_rate:
  "if buf \<noteq> 0 \<and> nbytes = 4 \<and> (\<exists>k \<in> {1..10 :: nat}. sint (load32 (mem s) buf) = 2 ^ k)
   then \<exists>r \<in> {3..15 :: nat}. 32768 div 2 ^ (r - 1) = sint (load32 (mem s) buf)
      \<and> rtc_write fd buf nbytes s = (0, s\<lparr>out_log := out_log s @
          [(0x70, 0x8A), (0x70, 0x8A), (0x71, (port_in s 0x71 AND 0xF0) OR word_of_nat r)]\<rparr>)
   else rtc_write fd buf nbytes s = (-1, s)"
proof (cases "buf \<noteq> 0 \<and> nbytes = 4 \<and> sint (load32 (mem s) buf) \<in> set frequency_options")
  case True
  let ?f = "sint (load32 (mem s) buf)"
  have r: "3 \<le> rate_of ?f" "rate_of ?f \<le> 15" "32768 div 2 ^ nat (rate_of ?f - 1) = ?f"
    using rate_of_frequency [of ?f] True by simp_all
  have "nat (rate_of ?f) \<in> {3..15}" "word_of_nat (nat (rate_of ?f)) = (word_of_int (rate_of ?f) :: u8)"
    "32768 div 2 ^ (nat (rate_of ?f) - 1) = ?f"
    using r by (simp_all add: nat_diff_distrib le_nat_iff nat_le_iff)
  then show ?thesis
    using True rtc_write_ok [of buf s fd] unfolding frequency_powers by (auto intro!: bexI [of _ "nat (rate_of ?f)"])
next
  case False
  then show ?thesis using rtc_write_bad [of buf nbytes s fd] unfolding frequency_powers by auto
qed

text \<open>
  C34. \<open>rtc_read\<close> returns 0 once an RTC interrupt arrives, and does not return before one does.
\<close>

theorem rtc_read_waits_for_interrupt:
  "rtc_read events fd buf nbytes s =
     (if True \<in> set events then Some (0, rtc_handle_interrupt (s\<lparr>is_rtc_interrupt_flag := 1\<rparr>)) else None)"
  by (simp add: rtc_read_def rtc_read_loop_returns)

text \<open>
  Opening the clock programs it to 2 Hz (rate 15), whatever it ran at before, and succeeds.
\<close>

lemma rtc_open_two_hertz:
  "init_frequency \<noteq> 0 \<Longrightarrow>
     fst (rtc_open init_frequency filename s) = 0
     \<and> out_log (snd (rtc_open init_frequency filename s))
         = out_log s @ [(0x70, 0x8A), (0x70, 0x8A), (0x71, (port_in s 0x71 AND 0xF0) OR 15)]"
proof -
  assume nz: "init_frequency \<noteq> 0"
  let ?t = "s\<lparr>mem := store32 (mem s) init_frequency 2\<rparr>"
  have f: "sint (load32 (mem ?t) init_frequency) = 2" by (simp add: load_store32)
  then have "sint (load32 (mem ?t) init_frequency) \<in> set frequency_options"
    by (simp add: frequency_options_def)
  from rtc_write_ok [OF nz this, of 0] f show ?thesis by (simp add: rtc_open_def rate_of_options)
qed

definition rtc_example :: rtc where
  "rtc_example = pic.extend pic_example \<lparr>is_rtc_interrupt_flag = 0\<rparr>"

end
