(* ===== verification/Paging.thy ===== *)
theory Paging
  imports Rtc
begin

text \<open>
  The page tables of \<^verbatim>\<open>src/student-distrib/paging.c\<close> and the control registers \<open>paging_init\<close> sets,
  with the address translation the processor performs on them (two-level tables with 4 kB pages,
  4 MB pages when bit 7 of a directory entry is set). The addresses the linker gives the four tables are
  components of the state that no code writes. The switching of the user page, which \<open>execute\<close>,
  \<open>halt\<close> and the scheduler do, is here too.
\<close>

record paging = rtc +
  pDirectory :: "u32 list"
  pTable :: "u32 list"
  pTable2 :: "u32 list"
  videopTable :: "u32 list"
  addr_pDirectory :: u32
  addr_pTable :: u32
  addr_pTable2 :: u32
  addr_videopTable :: u32
  cr0 :: u32
  cr3 :: u32
  cr4 :: u32
  tss_esp0 :: u32

abbreviation EIGHTMB :: u32 where "EIGHTMB \<equiv> 0x800000"
abbreviation FOURMB :: u32 where "FOURMB \<equiv> 0x400000"
abbreviation EIGHTKB :: u32 where "EIGHTKB \<equiv> 0x2000"

section \<open>Operations\<close>

definition paging_init_entry :: "nat \<Rightarrow> 'a paging_scheme \<Rightarrow> 'a paging_scheme" where
  "paging_init_entry i s =
     s\<lparr>pDirectory := (pDirectory s)[i := 2],
       pTable := (pTable s)[i := (word_of_nat i * 0x1000) OR 3],
       videopTable := (videopTable s)[i := 2]\<rparr>"

definition paging_init :: "'a paging_scheme \<Rightarrow> 'a paging_scheme" where
  "paging_init s =
     (let s = fold paging_init_entry [0..<1024] s;
          s = s\<lparr>pTable2 := (pTable2 s)[0 := 0x400000]\<rparr>;
          s = s\<lparr>pDirectory := (pDirectory s)[0 := addr_pTable s OR 3]\<rparr>;
          s = s\<lparr>pDirectory := (pDirectory s)[1 := addr_pTable2 s OR 0x83]\<rparr>;
          s = s\<lparr>pDirectory := (pDirectory s)[33 := addr_videopTable s]\<rparr>;
          s = s\<lparr>cr3 := addr_pDirectory s\<rparr>;
          s = s\<lparr>cr4 := cr4 s OR 0x10\<rparr>
      in s\<lparr>cr0 := cr0 s OR 0x80000001\<rparr>)"

text \<open>Loading the page of process \<open>pid\<close> at 128 MB (the flush of the translation buffer writes \<open>cr3\<close> back).\<close>

definition map_user_page :: "int \<Rightarrow> 'a paging_scheme \<Rightarrow> 'a paging_scheme" where
  "map_user_page pid s =
     s\<lparr>pDirectory := (pDirectory s)[32 := (EIGHTMB + FOURMB * word_of_int pid) OR 0x87], cr3 := cr3 s\<rparr>"

text \<open>The kernel stack of process \<open>pid\<close>, as \<open>execute\<close> and the scheduler load it.\<close>

definition kernel_stack_top :: "int \<Rightarrow> u32" where
  "kernel_stack_top pid = EIGHTMB - EIGHTKB * word_of_int pid - 4"

section \<open>Address translation\<close>

text \<open>
  A present directory entry is a 4 MB page or names a table; \<open>None\<close> is a page fault. A table at an address
  where the kernel keeps none is treated as a fault. The result is the physical address.
\<close>

definition page_table_at :: "'a paging_scheme \<Rightarrow> u32 \<Rightarrow> u32 list option" where
  "page_table_at s a =
     (if a = addr_pTable s then Some (pTable s)
      else if a = addr_videopTable s then Some (videopTable s)
      else if a = addr_pTable2 s then Some (pTable2 s) else None)"

definition translate :: "'a paging_scheme \<Rightarrow> u32 \<Rightarrow> u32 option" where
  "translate s va =
     (let pde = pDirectory s ! unat (drop_bit 22 va)
      in if \<not> bit pde 0 then None
         else if bit pde 7 then Some ((pde AND 0xFFC00000) OR (va AND 0x3FFFFF))
         else case page_table_at s (pde AND 0xFFFFF000) of
                None \<Rightarrow> None
              | Some t \<Rightarrow> let pte = t ! unat (drop_bit 12 va AND 0x3FF)
                          in if \<not> bit pte 0 then None else Some ((pte AND 0xFFFFF000) OR (va AND 0xFFF)))"

definition user_accessible :: "'a paging_scheme \<Rightarrow> u32 \<Rightarrow> bool" where
  "user_accessible s va \<longleftrightarrow> bit (pDirectory s ! unat (drop_bit 22 va)) 2"

definition tables_ok :: "'a paging_scheme \<Rightarrow> bool" where
  "tables_ok s \<longleftrightarrow> length (pDirectory s) = 1024 \<and> length (pTable s) = 1024 \<and> length (pTable2 s) = 1024
     \<and> length (videopTable s) = 1024
     \<and> addr_pTable s AND 0xFFF = 0 \<and> addr_pTable2 s AND 0xFFF = 0 \<and> addr_videopTable s AND 0xFFF = 0
     \<and> addr_pDirectory s AND 0xFFF = 0"

section \<open>The tables after paging_init\<close>

lemma fold_paging_init_entry:
  assumes "length (pDirectory s) = 1024" "length (pTable s) = 1024" "length (videopTable s) = 1024"
    and "n \<le> 1024"
  shows "fold paging_init_entry [0..<n] s =
    s\<lparr>pDirectory := replicate n 2 @ drop n (pDirectory s),
      pTable := map (\<lambda>i. word_of_nat i * 0x1000 OR 3) [0..<n] @ drop n (pTable s),
      videopTable := replicate n 2 @ drop n (videopTable s)\<rparr>"
  using assms(4)
proof (induction n)
  case 0
  then show ?case by simp
next
  case (Suc n)
  have upd: "(xs @ drop n ys)[n := v] = xs @ [v] @ drop (Suc n) ys"
    if "length xs = n" "length ys = 1024" for xs ys and v :: u32
    using that Suc.prems by (simp add: list_update_append Cons_nth_drop_Suc [symmetric])
  have r: "replicate (Suc n) (2 :: u32) = replicate n 2 @ [2]" by (simp add: replicate_append_same)
  have "fold paging_init_entry [0..<Suc n] s = paging_init_entry n (fold paging_init_entry [0..<n] s)" by simp
  with Suc show ?case
    using upd [of "replicate n 2" "pDirectory s"] upd [of "replicate n 2" "videopTable s"]
      upd [of "map (\<lambda>i. word_of_nat i * 0x1000 OR 3) [0..<n]" "pTable s"] assms(1-3)
    unfolding r by (simp add: paging_init_entry_def)
qed

lemma paging_init_tables:
  assumes "tables_ok s"
  shows "pDirectory (paging_init s) = (replicate 1024 2)[0 := addr_pTable s OR 3,
      1 := addr_pTable2 s OR 0x83, 33 := addr_videopTable s]"
    and "pTable (paging_init s) = map (\<lambda>i. word_of_nat i * 0x1000 OR 3) [0..<1024]"
    and "videopTable (paging_init s) = replicate 1024 2"
    and "addr_pTable (paging_init s) = addr_pTable s" "addr_pTable2 (paging_init s) = addr_pTable2 s"
    "addr_videopTable (paging_init s) = addr_videopTable s" "addr_pDirectory (paging_init s) = addr_pDirectory s"
    "cr3 (paging_init s) = addr_pDirectory s"
  using assms unfolding paging_init_def Let_def tables_ok_def
  by (simp_all add: fold_paging_init_entry)

section \<open>Masks\<close>

lemma page_masks:
  "(0xFFF :: u32) = mask 12" "(0xFFFFF000 :: u32) = NOT (mask 12)" "(0x3FF :: u32) = mask 10"
  "(0x3FFFFF :: u32) = mask 22" "(0xFFC00000 :: u32) = NOT (mask 22)"
  by (simp_all add: mask_eq_exp_minus_1)

lemma aligned_bits: "a AND 0xFFF = 0 \<Longrightarrow> n < 12 \<Longrightarrow> \<not> bit a n" for a :: u32
proof -
  assume "a AND 0xFFF = 0" and n: "n < 12"
  then have "\<not> bit (a AND mask 12) n" by (simp add: page_masks)
  with n show ?thesis by (simp add: bit_simps)
qed

lemma aligned_or_and:
  fixes a f :: u32
  assumes "a AND 0xFFF = 0" and "f AND 0xFFFFF000 = 0"
  shows "(a OR f) AND 0xFFFFF000 = a"
proof (rule bit_word_eqI)
  fix n assume n: "n < LENGTH(32)"
  have "\<not> bit (f AND NOT (mask 12)) n" using assms(2) by (simp add: page_masks)
  then show "bit ((a OR f) AND 0xFFFFF000) n = bit a n"
    using aligned_bits [OF assms(1), of n] n unfolding page_masks by (auto simp: bit_simps)
qed

lemma drop_bit_22_less: "va < 0x400000 \<Longrightarrow> drop_bit 22 va = 0" for va :: u32
  by (simp add: word_unat_eq_iff drop_bit_eq_div unat_div word_less_nat_alt)

lemma high_bits_0: "drop_bit 22 va = 0 \<Longrightarrow> 22 \<le> n \<Longrightarrow> \<not> bit va n" for va :: u32
proof -
  assume "drop_bit 22 va = 0" and n: "22 \<le> n"
  then have "\<not> bit (drop_bit 22 va) (n - 22)" by simp
  with n show ?thesis by (simp add: bit_drop_bit_eq)
qed

lemma unat_and_1023: "unat (w AND 0x3FF) < 1024" for w :: u32
proof -
  have "w AND 0x3FF = take_bit 10 w" by (simp add: page_masks take_bit_eq_mask)
  then show ?thesis by (simp add: take_bit_eq_mod unat_mod)
qed

lemma identity_pte:
  fixes va :: u32
  assumes "drop_bit 22 va = 0"
  shows "((drop_bit 12 va AND 0x3FF) * 0x1000 OR 3) AND 0xFFFFF000 OR (va AND 0xFFF) = va"
proof (rule bit_word_eqI)
  fix n assume n: "n < LENGTH(32)"
  have m: "(drop_bit 12 va AND 0x3FF) * 0x1000 = push_bit 12 (drop_bit 12 va AND mask 10)"
    by (simp add: page_masks push_bit_eq_mult)
  have 3: "(3 :: u32) = mask 2" by (simp add: mask_eq_exp_minus_1)
  show "bit (((drop_bit 12 va AND 0x3FF) * 0x1000 OR 3) AND 0xFFFFF000 OR (va AND 0xFFF)) n = bit va n"
  proof (cases "n < 22")
    case True
    then have "n - 12 < 10" by linarith
    with n show ?thesis unfolding m 3 page_masks(1,2) by (auto simp: bit_simps)
  next
    case False
    then show ?thesis using high_bits_0 [OF assms, of n] n unfolding m 3 page_masks(1,2) by (simp add: bit_simps)
  qed
qed

section \<open>What is mapped\<close>

lemma translate_low:
  assumes ok: "tables_ok s" and va: "va < 0x400000"
  shows "translate (paging_init s) va = Some va"
proof -
  let ?t = "paging_init s" and ?k = "unat (drop_bit 12 va AND 0x3FF)"
  have d: "drop_bit 22 va = 0" using va by (rule drop_bit_22_less)
  have al: "addr_pTable s AND 0xFFF = 0" using ok by (simp add: tables_ok_def)
  have pde: "pDirectory ?t ! unat (drop_bit 22 va) = addr_pTable s OR 3"
    unfolding d paging_init_tables(1) [OF ok] by simp
  have b: "bit (addr_pTable s OR 3) 0" "\<not> bit (addr_pTable s OR 3) 7"
    using aligned_bits [OF al, of 7] by (simp_all add: bit_simps)
  have t: "page_table_at ?t ((addr_pTable s OR 3) AND 0xFFFFF000) = Some (pTable ?t)"
    using aligned_or_and [OF al, of 3] paging_init_tables(4) [OF ok] by (simp add: page_table_at_def)
  have pte: "pTable ?t ! ?k = (drop_bit 12 va AND 0x3FF) * 0x1000 OR 3"
    unfolding paging_init_tables(2) [OF ok] using unat_and_1023 [of "drop_bit 12 va"] by simp
  have "bit ((drop_bit 12 va AND 0x3FF) * 0x1000 OR 3) 0" by (simp add: bit_simps)
  then show ?thesis
    unfolding translate_def Let_def pde using b identity_pte [OF d] by (simp add: t pte)
qed

lemma replicate_nth2: "n < 1024 \<Longrightarrow> replicate 1024 (2 :: u32) ! n = 2"
  by simp

lemma drop_bit_22_bound: "unat (drop_bit 22 va) < 1024" for va :: u32
  using unat_lt32 [of va] by (simp add: drop_bit_eq_div unat_div less_mult_imp_div_less)

lemma translate_unmapped:
  assumes ok: "tables_ok s" and "drop_bit 22 va \<noteq> 0" "drop_bit 22 va \<noteq> 1"
  shows "translate (paging_init s) va = None"
proof -
  let ?k = "unat (drop_bit 22 va)"
  have k: "?k < 1024" "?k \<noteq> 0" "?k \<noteq> 1"
    using drop_bit_22_bound [of va] assms(2,3) by (simp_all add: word_unat_eq_iff)
  have "addr_videopTable s AND 0xFFF = 0" using ok by (simp add: tables_ok_def)
  then have v: "\<not> bit (addr_videopTable s) 0" by (intro aligned_bits) simp_all
  have "pDirectory (paging_init s) ! ?k = (if ?k = 33 then addr_videopTable s else 2)"
    unfolding paging_init_tables(1) [OF ok] using k by (simp add: nth_list_update replicate_nth2)
  with v have "\<not> bit (pDirectory (paging_init s) ! ?k) 0" by (simp add: bit_simps)
  then show ?thesis by (simp add: translate_def)
qed

lemma user_page_bits:
  "pid < 6 \<Longrightarrow> bit ((EIGHTMB + FOURMB * word_of_nat pid) OR 0x87 :: u32) 0
     \<and> bit ((EIGHTMB + FOURMB * word_of_nat pid) OR 0x87 :: u32) 2
     \<and> bit ((EIGHTMB + FOURMB * word_of_nat pid) OR 0x87 :: u32) 7
     \<and> ((EIGHTMB + FOURMB * word_of_nat pid) OR 0x87) AND 0xFFC00000 = EIGHTMB + FOURMB * (word_of_nat pid :: u32)"
proof -
  assume "pid < 6"
  then have "pid \<in> {0, 1, 2, 3, 4, 5}" by auto
  then show ?thesis by (auto simp: bit_simps)
qed

lemma translate_user:
  assumes "length (pDirectory s) = 1024" and "pid < 6" and "drop_bit 22 va = 32"
  shows "translate (map_user_page (int pid) s) va
           = Some ((EIGHTMB + FOURMB * word_of_nat pid) OR (va AND 0x3FFFFF))"
proof -
  have "pDirectory (map_user_page (int pid) s) ! unat (drop_bit 22 va)
      = (EIGHTMB + FOURMB * word_of_nat pid) OR 0x87"
    using assms(1,3) by (simp add: map_user_page_def)
  then show ?thesis using user_page_bits [OF assms(2)] by (simp add: translate_def)
qed

lemma high_part_or:
  fixes b va :: u32
  assumes "b AND 0x3FFFFF = 0"
  shows "(b OR (va AND 0x3FFFFF)) AND 0xFFC00000 = b"
proof (rule bit_word_eqI)
  fix n assume n: "n < LENGTH(32)"
  have "\<not> bit (b AND mask 22) n" using assms by (simp add: page_masks)
  then show "bit ((b OR (va AND 0x3FFFFF)) AND 0xFFC00000) n = bit b n"
    using n unfolding page_masks by (auto simp: bit_simps)
qed

lemma split_22: "(va AND 0xFFC00000) OR (va AND 0x3FFFFF) = va" for va :: u32
  by (rule bit_word_eqI) (auto simp: page_masks bit_simps)

lemma user_frame:
  "pid < 6 \<Longrightarrow> ((EIGHTMB + FOURMB * word_of_nat pid) OR (va AND 0x3FFFFF)) AND 0xFFC00000
     = EIGHTMB + FOURMB * word_of_nat pid"
proof -
  assume "pid < 6"
  then have "pid \<in> {0, 1, 2, 3, 4, 5}" by auto
  then have "(EIGHTMB + FOURMB * word_of_nat pid) AND 0x3FFFFF = 0" by auto
  then show ?thesis by (rule high_part_or)
qed

lemma user_frame_inj:
  "p < 6 \<Longrightarrow> q < 6 \<Longrightarrow> EIGHTMB + FOURMB * word_of_nat p = EIGHTMB + FOURMB * (word_of_nat q :: u32) \<Longrightarrow> p = q"
proof -
  assume pq: "p < 6" "q < 6" "EIGHTMB + FOURMB * word_of_nat p = EIGHTMB + FOURMB * (word_of_nat q :: u32)"
  then have "p \<in> {0, 1, 2, 3, 4, 5}" "q \<in> {0, 1, 2, 3, 4, 5}" by auto
  with pq(3) show ?thesis by auto
qed

lemma drop_bit_22_high: "drop_bit 22 va = (1 :: u32) \<Longrightarrow> va AND 0xFFC00000 = 0x400000"
proof -
  assume d: "drop_bit 22 va = 1"
  have "push_bit 22 (drop_bit 22 va) = va AND NOT (mask 22)"
    by (rule bit_word_eqI) (auto simp: bit_simps)
  with d show ?thesis by (simp add: page_masks)
qed

lemma drop_bit_22_one: "0x400000 \<le> va \<Longrightarrow> va < 0x800000 \<Longrightarrow> drop_bit 22 va = 1" for va :: u32
  by (simp add: word_unat_eq_iff drop_bit_eq_div unat_div word_less_nat_alt word_le_nat_alt)

lemma translate_kernel:
  assumes ok: "tables_ok s" and a: "0x400000 \<le> addr_pTable2 s" "addr_pTable2 s < 0x800000"
    and va: "0x400000 \<le> va" "va < 0x800000"
  shows "translate (paging_init s) va = Some va"
proof -
  have d: "drop_bit 22 va = 1" using va by (rule drop_bit_22_one)
  have pde: "pDirectory (paging_init s) ! unat (drop_bit 22 va) = addr_pTable2 s OR 0x83"
    unfolding d paging_init_tables(1) [OF ok] by simp
  have "(addr_pTable2 s OR 0x83) AND 0xFFC00000 = addr_pTable2 s AND 0xFFC00000"
    by (simp add: bit.conj_disj_distrib2)
  also have "\<dots> = va AND 0xFFC00000"
    using drop_bit_22_high [OF d] drop_bit_22_high [OF drop_bit_22_one [OF a]] by simp
  finally have "(addr_pTable2 s OR 0x83) AND 0xFFC00000 OR (va AND 0x3FFFFF) = va" by (simp add: split_22)
  moreover have "bit (addr_pTable2 s OR 0x83) 0" "bit (addr_pTable2 s OR 0x83) 7" by (simp_all add: bit_simps)
  ultimately show ?thesis unfolding translate_def Let_def pde by simp
qed

lemma identity_map:
  assumes "tables_ok s" and "0x400000 \<le> addr_pTable2 s" and "addr_pTable2 s < 0x800000"
  shows "translate (paging_init s) va = (if va < 0x800000 then Some va else None)"
proof (cases "va < 0x400000")
  case True
  then have "va < 0x800000" by (rule less_trans) simp
  with translate_low [OF assms(1) True] show ?thesis by argo
next
  case False
  show ?thesis
  proof (cases "va < 0x800000")
    case True
    have "0x400000 \<le> va" using False by (rule leI)
    from translate_kernel [OF assms this True] True show ?thesis by argo
  next
    case False
    then have "2 \<le> unat va div 4194304" by (simp add: word_less_nat_alt)
    then have "2 \<le> unat (drop_bit 22 va)" by (simp add: drop_bit_eq_div unat_div)
    then have "drop_bit 22 va \<noteq> 0" "drop_bit 22 va \<noteq> 1" by auto
    from translate_unmapped [OF assms(1) this] False show ?thesis by argo
  qed
qed

section \<open>Properties\<close>


definition paging_example :: paging where
  "paging_example = rtc.extend rtc_example \<lparr>pDirectory = replicate 1024 0, pTable = replicate 1024 0,
     pTable2 = replicate 1024 0, videopTable = replicate 1024 0, addr_pDirectory = 0x40A000,
     addr_pTable = 0x40B000, addr_pTable2 = 0x40C000, addr_videopTable = 0x40D000,
     cr0 = 0, cr3 = 0, cr4 = 0, tss_esp0 = 0\<rparr>"

lemma paging_example_ok: "tables_ok paging_example" "addr_pTable2 paging_example = 0x40C000"
  by (simp_all add: paging_example_def tables_ok_def rtc.defs)




end
