(* ===== verification/Filesystem.thy ===== *)
theory Filesystem
  imports Paging
begin

text \<open>
  The read-only file system of \<^verbatim>\<open>src/student-distrib/filesystem.c\<close>: the three pointers into the
  image (boot block, index nodes, directory entries) and the operations that read it. The image is
  bytes in memory, laid out as the structures of \<^verbatim>\<open>filesystem.h\<close>; the accessor functions below
  are its field offsets. The main result is that the block-by-block loop of \<open>read_data\<close> copies the
  bytes of the file that the offset and the length ask for; the arithmetic is the source's, 32-bit
  and partly unsigned, partly signed.
\<close>

record fs = paging +
  g_b_block :: u32
  g_index_nodes :: u32
  g_directory_entries :: u32

abbreviation BOOT_BLOCK_SIZE :: u32 where "BOOT_BLOCK_SIZE \<equiv> 4096"
abbreviation DENTRY_OFFSET_BB :: u32 where "DENTRY_OFFSET_BB \<equiv> 64"
abbreviation NAME_SIZE :: u32 where "NAME_SIZE \<equiv> 32"
abbreviation DENTRY_SIZE :: u32 where "DENTRY_SIZE \<equiv> 64"

section \<open>Structures in memory\<close>

text \<open>\<open>dentry_t\<close>: name, type and index node number at offsets 0, 32 and 36 of 64 bytes.\<close>

definition dentry_addr :: "'a fs_scheme \<Rightarrow> u32 \<Rightarrow> u32" where
  "dentry_addr s i = g_directory_entries s + DENTRY_SIZE * i"

definition dentry_type :: "mem \<Rightarrow> u32 \<Rightarrow> u32" where
  "dentry_type m d = load32 m (d + 32)"

definition dentry_inode_num :: "mem \<Rightarrow> u32 \<Rightarrow> u32" where
  "dentry_inode_num m d = load32 m (d + 36)"

text \<open>\<open>index_node_t\<close>: the size and 1023 data block numbers, 4096 bytes.\<close>

definition inode_addr :: "'a fs_scheme \<Rightarrow> u32 \<Rightarrow> u32" where
  "inode_addr s inode = g_index_nodes s + 4096 * inode"

definition file_size :: "'a fs_scheme \<Rightarrow> mem \<Rightarrow> u32 \<Rightarrow> u32" where
  "file_size s m inode = load32 m (inode_addr s inode)"

definition data_block :: "'a fs_scheme \<Rightarrow> mem \<Rightarrow> u32 \<Rightarrow> u32 \<Rightarrow> u32" where
  "data_block s m inode k = load32 m (inode_addr s inode + 4 + 4 * k)"

definition num_index_nodes :: "'a fs_scheme \<Rightarrow> mem \<Rightarrow> u32" where
  "num_index_nodes s m = load32 m (g_b_block s + 4)"

section \<open>Operations\<close>

definition filesystem_init :: "u32 \<Rightarrow> 'a fs_scheme \<Rightarrow> 'a fs_scheme" where
  "filesystem_init fsys_address s =
     (if sint fsys_address \<le> 0 then put_string (bytes ''Invalid file system starting address'' @ [10]) s
      else s\<lparr>g_b_block := fsys_address, g_index_nodes := fsys_address + BOOT_BLOCK_SIZE,
             g_directory_entries := fsys_address + DENTRY_OFFSET_BB\<rparr>)"

definition read_dentry_by_index :: "u32 \<Rightarrow> u32 \<Rightarrow> 'a fs_scheme \<Rightarrow> int \<times> 'a fs_scheme" where
  "read_dentry_by_index index dentry s =
     (if index > 16 \<or> dentry = 0 then (-1, s)
      else (0, s\<lparr>mem := memcpy (mem s) dentry (dentry_addr s index) DENTRY_SIZE\<rparr>))"

text \<open>
  The loop of \<open>read_data\<close>. \<open>bytes_read\<close> is compared as a signed number with \<open>inode_size\<close> and as an
  unsigned one with \<open>length\<close>, and \<open>bytes_remaining\<close> is signed, as the declarations have it.
\<close>

definition block_start :: "'a fs_scheme \<Rightarrow> mem \<Rightarrow> u32 \<Rightarrow> u32 \<Rightarrow> u32" where
  "block_start s m inode k =
     g_b_block s + BOOT_BLOCK_SIZE * (num_index_nodes s m + 1) + data_block s m inode k * BOOT_BLOCK_SIZE"

function read_data_loop ::
  "'a fs_scheme \<Rightarrow> u32 \<Rightarrow> u32 \<Rightarrow> u32 \<Rightarrow> u32 \<Rightarrow> u32 \<Rightarrow> mem \<Rightarrow> u32 \<Rightarrow> u32 \<Rightarrow> u32 \<Rightarrow> u32 \<times> mem" where
  "read_data_loop s inode inode_size offset_div buf len m off bytes_read i =
     (if \<not> (sint bytes_read \<ge> sint inode_size) \<or> \<not> (bytes_read \<ge> len) then
        let addr = block_start s m inode (i + offset_div);
            read_entire = BOOT_BLOCK_SIZE - off;
            read_begin = addr + off;
            bytes_remaining = (len + off) - bytes_read
        in if sint bytes_remaining < 4096 then
             (bytes_read + (len - bytes_read),
              memcpy m (buf + bytes_read) read_begin (len - bytes_read))
           else read_data_loop s inode inode_size offset_div buf len
                  (memcpy m (buf + bytes_read) read_begin read_entire) 0 (bytes_read + read_entire) (i + 1)
      else (bytes_read, m))"
  by pat_completeness auto
termination
proof (relation "measure (\<lambda>(s, inode, inode_size, offset_div, buf, len, m, off, bytes_read, i).
    nat (sint (len + off - bytes_read)))", goal_cases)
  case 1
  show ?case by simp
next
  case (2 s inode inode_size offset_div buf len m off bytes_read i addr read_entire read_begin remaining)
  let ?r = "len + off - bytes_read"
  have r: "4096 \<le> sint ?r" using 2 by simp
  have "len + 0 - (bytes_read + read_entire) = ?r - 4096" using 2 by (simp add: algebra_simps)
  also have "\<dots> = word_of_int (sint ?r - 4096)" by simp
  finally have eq: "len + 0 - (bytes_read + read_entire) = word_of_int (sint ?r - 4096)" .
  have "sint ?r < 2147483648" using sint_less [of ?r] by simp
  then have "sint (word_of_int (sint ?r - 4096) :: u32) = sint ?r - 4096"
    using r by (intro sint_of_int32; linarith)
  with r show ?case by (simp only: in_measure case_prod_conv eq)
qed

declare read_data_loop.simps [simp del]

definition read_data :: "u32 \<Rightarrow> u32 \<Rightarrow> u32 \<Rightarrow> u32 \<Rightarrow> 'a fs_scheme \<Rightarrow> int \<times> 'a fs_scheme" where
  "read_data inode offset buf len s =
     (let inode_size = file_size s (mem s) inode;
          offset_bytes = inode_size - offset;
          off = offset mod BOOT_BLOCK_SIZE;
          offset_div = offset div BOOT_BLOCK_SIZE
      in if inode_size \<le> offset then (0, s)
         else let len = (if len + offset > inode_size then offset_bytes else len);
                  (bytes_read, m) = read_data_loop s inode inode_size offset_div buf len (mem s) off 0 0
              in (sint bytes_read, s\<lparr>mem := m\<rparr>))"

text \<open>The search loop over 64 directory entries, and the copy of the entry it finds.\<close>

definition find_dentry :: "'a fs_scheme \<Rightarrow> u32 \<Rightarrow> nat option" where
  "find_dentry s fname =
     scan (\<lambda>i. strncmp (mem s) fname (dentry_addr s (word_of_nat i)) 32 = 0) [0..<64]"

definition read_dentry_by_name :: "u32 \<Rightarrow> u32 \<Rightarrow> 'a fs_scheme \<Rightarrow> (int \<times> 'a fs_scheme) option" where
  "read_dentry_by_name fname dentry s =
     (let invalid = Some (-1, put_string (bytes ''read dentry by name inputs invalid '') s)
      in if fname = 0 \<or> dentry = 0 then invalid
         else do {
           l \<leftarrow> strlen (mem s) fname;
           if l > NAME_SIZE then invalid
           else case find_dentry s fname of
                  None \<Rightarrow> Some (-1, s)
                | Some i \<Rightarrow> Some (0, s\<lparr>mem := memcpy (mem s) dentry (dentry_addr s (word_of_nat i)) DENTRY_SIZE\<rparr>)
         })"

section \<open>A well-formed image\<close>

text \<open>
  The image is the boot block, the index nodes and the data blocks, 4096 bytes each. An index node is
  well formed when its size fits its 1023 block numbers and the blocks of the file exist.
\<close>

definition num_data_blocks :: "'a fs_scheme \<Rightarrow> mem \<Rightarrow> u32" where
  "num_data_blocks s m = load32 m (g_b_block s + 8)"

definition image_len :: "'a fs_scheme \<Rightarrow> mem \<Rightarrow> nat" where
  "image_len s m = 4096 * (1 + unat (num_index_nodes s m) + unat (num_data_blocks s m))"

definition fs_wf :: "'a fs_scheme \<Rightarrow> mem \<Rightarrow> bool" where
  "fs_wf s m \<longleftrightarrow> g_index_nodes s = g_b_block s + 4096 \<and> g_directory_entries s = g_b_block s + 64
     \<and> image_len s m \<le> 4294967295"

definition file_blocks :: "'a fs_scheme \<Rightarrow> mem \<Rightarrow> u32 \<Rightarrow> nat" where
  "file_blocks s m inode = (unat (file_size s m inode) + 4095) div 4096"

definition inode_wf :: "'a fs_scheme \<Rightarrow> mem \<Rightarrow> u32 \<Rightarrow> bool" where
  "inode_wf s m inode \<longleftrightarrow> unat inode < unat (num_index_nodes s m)
     \<and> unat (file_size s m inode) \<le> 4190208
     \<and> list_all (\<lambda>k. unat (data_block s m inode (word_of_nat k)) < unat (num_data_blocks s m))
         [0..<file_blocks s m inode]"

text \<open>The bytes of a file: byte \<open>j\<close> is byte \<open>j mod 4096\<close> of the file's data block \<open>j div 4096\<close>.\<close>

definition file_byte :: "'a fs_scheme \<Rightarrow> mem \<Rightarrow> u32 \<Rightarrow> nat \<Rightarrow> u8" where
  "file_byte s m inode j = m (block_start s m inode (word_of_nat (j div 4096)) + word_of_nat (j mod 4096))"

definition file_contents :: "'a fs_scheme \<Rightarrow> mem \<Rightarrow> u32 \<Rightarrow> u8 list" where
  "file_contents s m inode = map (file_byte s m inode) [0..<unat (file_size s m inode)]"

lemma length_file_contents [simp]: "length (file_contents s m inode) = unat (file_size s m inode)"
  by (simp add: file_contents_def)

section \<open>Addresses of the image\<close>

lemma inode_addr_offset:
  "fs_wf s m \<Longrightarrow> inode_addr s inode = g_b_block s + word_of_nat (4096 * (1 + unat inode))"
  by (simp add: inode_addr_def fs_wf_def algebra_simps)

lemma data_block_offset:
  "fs_wf s m \<Longrightarrow> inode_addr s inode + 4 + 4 * word_of_nat k
     = g_b_block s + word_of_nat (4096 * (1 + unat inode) + 4 + 4 * k)"
  by (simp add: inode_addr_offset algebra_simps)

lemma block_start_offset:
  "block_start s m inode k = g_b_block s
     + word_of_nat (4096 * (1 + unat (num_index_nodes s m) + unat (data_block s m inode k)))"
  by (simp add: block_start_def algebra_simps)

text \<open>Reading the image after a write to a buffer outside it.\<close>

lemma image_read:
  assumes "disjoint_regions buf n base l" and "length bs \<le> n" and "l \<le> 4294967295"
    and "k + j \<le> l" and "n \<le> 4294967296"
  shows "read_bytes (write_bytes m buf bs) (base + word_of_nat k) j = read_bytes m (base + word_of_nat k) j"
proof (cases "j = 0")
  case False
  have "disjoint_regions base l buf (length bs)"
    using disjoint_regions_mono [OF assms(1), of "length bs" l] assms(2) disjoint_regions_sym by blast
  then have "disjoint_regions (base + word_of_nat k) j buf (length bs)"
    using assms(3,4) False by (intro disjoint_regions_sub [of base l]) simp_all
  then have "disjoint_regions buf (length bs) (base + word_of_nat k) j" using disjoint_regions_sym by blast
  then show ?thesis using assms by (intro read_write_bytes_disjoint) simp_all
qed simp

lemma image_load:
  "disjoint_regions buf n base l \<Longrightarrow> length bs \<le> n \<Longrightarrow> l \<le> 4294967295 \<Longrightarrow> k + 4 \<le> l \<Longrightarrow>
     n \<le> 4294967296 \<Longrightarrow> load32 (write_bytes m buf bs) (base + word_of_nat k) = load32 m (base + word_of_nat k)"
  by (rule load32_cong) (rule image_read)

text \<open>What every step of \<open>read_data\<close> needs of its buffer: it is outside the image.\<close>

definition outside_image :: "'a fs_scheme \<Rightarrow> mem \<Rightarrow> u32 \<Rightarrow> nat \<Rightarrow> bool" where
  "outside_image s m buf n \<longleftrightarrow> disjoint_regions buf n (g_b_block s) (image_len s m)"

lemma image_load_wf:
  assumes "fs_wf s m" and "outside_image s m buf n" and "length bs \<le> n" and "n \<le> 4294967296"
    and "k + 4 \<le> image_len s m"
  shows "load32 (write_bytes m buf bs) (g_b_block s + word_of_nat k) = load32 m (g_b_block s + word_of_nat k)"
  using assms by (intro image_load [of buf n _ "image_len s m"]) (simp_all add: fs_wf_def outside_image_def)

lemma num_index_nodes_write:
  assumes "fs_wf s m" and "outside_image s m buf n" and "length bs \<le> n" and "n \<le> 4294967296"
  shows "num_index_nodes s (write_bytes m buf bs) = num_index_nodes s m"
  using image_load_wf [OF assms, of 4] by (simp add: num_index_nodes_def image_len_def)

lemma data_block_write:
  assumes "fs_wf s m" and "outside_image s m buf n" and "length bs \<le> n" and "n \<le> 4294967296"
    and "unat inode < unat (num_index_nodes s m)" and "k < 1023"
  shows "data_block s (write_bytes m buf bs) inode (word_of_nat k) = data_block s m inode (word_of_nat k)"
proof -
  have "4096 * (1 + unat inode) + 4 + 4 * k + 4 \<le> image_len s m"
    using assms(5,6) by (simp add: image_len_def)
  from image_load_wf [OF assms(1-4) this] show ?thesis
    unfolding data_block_def data_block_offset [OF assms(1)] .
qed

lemma block_start_write:
  assumes "fs_wf s m" and "outside_image s m buf n" and "length bs \<le> n" and "n \<le> 4294967296"
    and "unat inode < unat (num_index_nodes s m)" and "k < 1023"
  shows "block_start s (write_bytes m buf bs) inode (word_of_nat k) = block_start s m inode (word_of_nat k)"
  by (simp add: block_start_def num_index_nodes_write [OF assms(1-4)] data_block_write [OF assms])

section \<open>read_data\<close>

lemma inode_wf_block:
  assumes "inode_wf s m inode" and "4096 * k < unat (file_size s m inode)"
  shows "k < 1023" and "unat (data_block s m inode (word_of_nat k)) < unat (num_data_blocks s m)"
proof -
  show "k < 1023" using assms by (simp add: inode_wf_def)
  have "k < file_blocks s m inode" using assms(2) unfolding file_blocks_def by linarith
  then show "unat (data_block s m inode (word_of_nat k)) < unat (num_data_blocks s m)"
    using assms(1) by (simp add: inode_wf_def list_all_iff)
qed

text \<open>A stretch of the file inside one block, in the image as it was.\<close>

lemma block_bytes:
  assumes "4096 * k + off + c \<le> unat (file_size s m inode)" and "off + c \<le> 4096"
  shows "read_bytes m (block_start s m inode (word_of_nat k) + word_of_nat off) c
           = take c (drop (4096 * k + off) (file_contents s m inode))"
proof (rule nth_equalityI)
  show "length (read_bytes m (block_start s m inode (word_of_nat k) + word_of_nat off) c)
      = length (take c (drop (4096 * k + off) (file_contents s m inode)))"
    using assms by simp
next
  fix t assume "t < length (read_bytes m (block_start s m inode (word_of_nat k) + word_of_nat off) c)"
  then have t: "t < c" by simp
  then have "off + t < 4096" using assms(2) by linarith
  then have "(4096 * k + off + t) div 4096 = k" "(4096 * k + off + t) mod 4096 = off + t"
    by (simp_all add: add.assoc)
  with t assms(1) show "read_bytes m (block_start s m inode (word_of_nat k) + word_of_nat off) c ! t
      = take c (drop (4096 * k + off) (file_contents s m inode)) ! t"
    by (simp add: file_contents_def file_byte_def add.assoc)
qed

lemma take_add_drop: "take (r + c) xs = take r xs @ take c (drop r xs)"
  by (simp add: take_add)

lemma read_chunk:
  assumes wf: "fs_wf s m" and ino: "inode_wf s m inode" and out: "outside_image s m buf n"
    and n: "offset + n \<le> unat (file_size s m inode)"
    and pos: "offset + r = 4096 * k + off" and c: "off + c \<le> 4096" "r + c \<le> n"
  defines "data \<equiv> take n (drop offset (file_contents s m inode))"
  shows "memcpy (write_bytes m buf (take r data)) (buf + word_of_nat r)
      (block_start s (write_bytes m buf (take r data)) inode (word_of_nat k) + word_of_nat off) (word_of_nat c)
     = write_bytes m buf (take (r + c) data)"
proof (cases "c = 0")
  case True
  then show ?thesis using memcpy_ref [of _ _ 0] by (simp add: copy_up_safe_def)
next
  case False
  let ?m = "write_bytes m buf (take r data)"
  have n_small: "n \<le> 4190208" "unat (word_of_nat c :: u32) = c"
    using n ino c(1) by (simp_all add: inode_wf_def addr_simps)
  have n_le: "n \<le> 4294967296" using n_small(1) by linarith
  have len: "length data = n" using n by (simp add: data_def)
  have k: "4096 * k < unat (file_size s m inode)" using False pos c(2) n by linarith
  note blk = inode_wf_block [OF ino k]
  have lens: "length (take r data) \<le> n" using len by simp
  have bs: "block_start s ?m inode (word_of_nat k) = block_start s m inode (word_of_nat k)"
    using wf out lens n_le ino blk by (intro block_start_write) (simp_all add: inode_wf_def)
  let ?k = "4096 * (1 + unat (num_index_nodes s m) + unat (data_block s m inode (word_of_nat k)))"
  have src: "block_start s m inode (word_of_nat k) + word_of_nat off = g_b_block s + word_of_nat (?k + off)"
    by (simp add: block_start_offset algebra_simps)
  have inside: "?k + off + c \<le> image_len s m" using blk(2) c(1) by (simp add: image_len_def)
  have read: "read_bytes ?m (g_b_block s + word_of_nat (?k + off)) c
      = read_bytes m (g_b_block s + word_of_nat (?k + off)) c"
    using wf out lens n_le inside
    by (intro image_read [of buf n _ "image_len s m"]) (simp_all add: fs_wf_def outside_image_def)
  have "take c (drop r data) = take c (drop (offset + r) (file_contents s m inode))"
    using c(2) by (simp add: data_def drop_take min_absorb1 add.commute)
  then have bytes: "read_bytes m (g_b_block s + word_of_nat (?k + off)) c = take c (drop r data)"
    unfolding src [symmetric] pos using n pos c block_bytes [of k off c s m inode] by simp
  have "disjoint_regions (buf + word_of_nat r) c (g_b_block s) (image_len s m)"
    using out False c(2) n_small by (intro disjoint_regions_sub [of buf n]) (simp_all add: outside_image_def)
  then have "disjoint_regions (g_b_block s + word_of_nat (?k + off)) c (buf + word_of_nat r) c"
    using disjoint_regions_sym inside wf False
    by (intro disjoint_regions_sub [of "g_b_block s" "image_len s m"]) (simp_all add: fs_wf_def)
  then have "copy_up_safe (buf + word_of_nat r) (g_b_block s + word_of_nat (?k + off)) (unat (word_of_nat c :: u32))"
    by (simp add: disjoint_regions_def copy_up_safe_def n_small)
  from memcpy_ref [OF this, of ?m] show ?thesis
    unfolding bs src copy_ref_def n_small(2) read bytes take_add_drop write_bytes_append
    using len c(2) by simp
qed

lemma sint_small_of_nat: "k \<le> 2147483647 \<Longrightarrow> sint (word_of_nat k :: u32) = int k"
  by (rule sint_of_nat32) simp

lemma read_data_loop_last:
  "\<not> (sint br \<ge> sint sz) \<or> \<not> (br \<ge> len) \<Longrightarrow> sint (len + off - br) < 4096 \<Longrightarrow>
     read_data_loop s inode sz od buf len m off br i
       = (len, memcpy m (buf + br) (block_start s m inode (i + od) + off) (len - br))"
  by (subst read_data_loop.simps) (simp add: Let_def)

lemma read_data_loop_more:
  "\<not> (sint br \<ge> sint sz) \<or> \<not> (br \<ge> len) \<Longrightarrow> \<not> sint (len + off - br) < 4096 \<Longrightarrow>
     read_data_loop s inode sz od buf len m off br i
       = read_data_loop s inode sz od buf len
           (memcpy m (buf + br) (block_start s m inode (i + od) + off) (4096 - off)) 0 (br + (4096 - off)) (i + 1)"
  by (subst read_data_loop.simps) (simp add: Let_def)

lemma read_data_loop_reads:
  assumes wf: "fs_wf s m" and ino: "inode_wf s m inode" and out: "outside_image s m buf n"
    and n: "offset + n \<le> unat (file_size s m inode)"
  defines "data \<equiv> take n (drop offset (file_contents s m inode))"
  shows "r \<le> n \<Longrightarrow> off < 4096 \<Longrightarrow> offset + r = 4096 * (i + offset div 4096) + off \<Longrightarrow>
    read_data_loop s inode (file_size s m inode) (word_of_nat (offset div 4096)) buf (word_of_nat n)
      (write_bytes m buf (take r data)) (word_of_nat off) (word_of_nat r) (word_of_nat i)
     = (word_of_nat n, write_bytes m buf data)"
proof (induction "n - r" arbitrary: r off i rule: less_induct)
  case less
  let ?m = "write_bytes m buf (take r data)"
  let ?k = "i + offset div 4096"
  have size: "unat (file_size s m inode) \<le> 4190208" using ino by (simp add: inode_wf_def)
  have small: "n \<le> 4190208" "n + off - r \<le> 4194304" using n size less.prems by linarith+
  have len: "length data = n" using n by (simp add: data_def)
  have rem: "sint (word_of_nat n + word_of_nat off - word_of_nat r :: u32) = int (n + off - r)"
  proof -
    have "word_of_nat n + word_of_nat off - word_of_nat r = (word_of_nat (n + off - r) :: u32)"
      using less.prems by (simp add: of_nat_diff)
    then show ?thesis using small sint_small_of_nat [of "n + off - r"] by simp
  qed
  have idx: "word_of_nat i + word_of_nat (offset div 4096) = (word_of_nat ?k :: u32)" by simp
  note chunk = read_chunk [OF wf ino out n less.prems(3), folded data_def]
  show ?case
  proof (cases "\<not> (sint (word_of_nat r :: u32) \<ge> sint (file_size s m inode)) \<or> \<not> (word_of_nat r \<ge> (word_of_nat n :: u32))")
    case False
    then have "n \<le> r" using small less.prems(1) by (simp add: word_le_nat_alt addr_simps)
    then have "r = n" using less.prems(1) by simp
    then show ?thesis using False len by (simp add: read_data_loop.simps)
  next
    case cond: True
    show ?thesis
    proof (cases "n + off - r < 4096")
      case True
      have "word_of_nat n - word_of_nat r = (word_of_nat (n - r) :: u32)"
        using less.prems(1) by (simp add: of_nat_diff)
      moreover have c: "off + (n - r) \<le> 4096" "r + (n - r) \<le> n" using True less.prems(1) by linarith+
      moreover have lt: "sint (word_of_nat n + word_of_nat off - word_of_nat r :: u32) < 4096"
        using True unfolding rem by linarith
      moreover have "take (r + (n - r)) data = data" using len less.prems(1) by simp
      ultimately show ?thesis
        using chunk [OF c] by (subst read_data_loop_last [OF cond lt]) (simp only: idx)
    next
      case False
      let ?c = "4096 - off"
      have c: "off + ?c \<le> 4096" "r + ?c \<le> n" "0 < ?c" using False less.prems by linarith+
      have w: "4096 - word_of_nat off = (word_of_nat ?c :: u32)"
        using less.prems(2) by (simp add: of_nat_diff)
      have p: "n - (r + ?c) < n - r" "r + ?c \<le> n" "(0 :: nat) < 4096" using c by linarith+
      have "off + ?c = 4096" using less.prems(2) by simp
      then have q: "offset + (r + ?c) = 4096 * (i + 1 + offset div 4096) + 0"
        using less.prems(3) by (simp only: add.assoc [symmetric]) (simp add: algebra_simps)
      have IH: "read_data_loop s inode (file_size s m inode) (word_of_nat (offset div 4096)) buf (word_of_nat n)
          (write_bytes m buf (take (r + ?c) data)) 0 (word_of_nat r + word_of_nat ?c) (word_of_nat i + 1)
         = (word_of_nat n, write_bytes m buf data)"
        using less.hyps [OF p q] by (simp only: of_nat_add semiring_1_class.of_nat_0 of_nat_1)
      have ge: "\<not> sint (word_of_nat n + word_of_nat off - word_of_nat r :: u32) < 4096"
        using False unfolding rem by simp
      show ?thesis
        by (subst read_data_loop_more [OF cond ge]) (simp only: idx w chunk [OF c(1,2)] IH)
    qed
  qed
qed

text \<open>The length that is left after the two guards of \<open>read_data\<close>.\<close>

lemma read_data_clamp:
  assumes "offset < inode_size" and "unat len + unat offset < 4294967296"
  shows "(if len + offset > inode_size then inode_size - offset else len)
     = (word_of_nat (min (unat len) (unat inode_size - unat offset)) :: u32)"
proof -
  have sum: "unat (len + offset) = unat len + unat offset" using assms(2) by (simp add: unat_word_ariths)
  have diff: "unat (inode_size - offset) = unat inode_size - unat offset"
    using assms(1) by (intro unat_sub) simp
  show ?thesis
  proof (cases "len + offset > inode_size")
    case True
    then have "unat inode_size - unat offset \<le> unat len" using sum by (simp add: word_less_nat_alt)
    moreover have "word_of_nat (unat inode_size - unat offset) = inode_size - offset"
      unfolding diff [symmetric] by simp
    ultimately show ?thesis using True by (simp add: min_absorb2)
  next
    case False
    then have "unat len \<le> unat inode_size - unat offset" using sum by (simp add: word_less_nat_alt)
    then show ?thesis using False by (simp add: min_absorb1)
  qed
qed

lemma read_data_reads:
  assumes wf: "fs_wf s (mem s)" and ino: "inode_wf s (mem s) inode"
    and len: "unat len + unat offset < 4294967296"
    and out: "outside_image s (mem s) buf (min (unat len) (unat (file_size s (mem s) inode) - unat offset))"
  shows "read_data inode offset buf len s =
    (let data = take (unat len) (drop (unat offset) (file_contents s (mem s) inode))
     in (int (length data), s\<lparr>mem := write_bytes (mem s) buf data\<rparr>))"
proof (cases "file_size s (mem s) inode \<le> offset")
  case True
  then show ?thesis by (simp add: read_data_def Let_def word_le_nat_alt)
next
  case False
  let ?size = "file_size s (mem s) inode" and ?c = "file_contents s (mem s) inode"
  let ?n = "min (unat len) (unat ?size - unat offset)"
  have lt: "unat offset < unat ?size" using False by (simp add: word_le_nat_alt)
  have small: "unat ?size \<le> 4190208" using ino by (simp add: inode_wf_def)
  have data: "take (unat len) (drop (unat offset) ?c) = take ?n (drop (unat offset) ?c)" by (simp add: min_def)
  have clamp: "(if len + offset > ?size then ?size - offset else len) = word_of_nat ?n"
    using False len by (intro read_data_clamp) simp_all
  have div: "offset div 4096 = word_of_nat (unat offset div 4096)" "offset mod 4096 = word_of_nat (unat offset mod 4096)"
    using le_less_trans [OF div_le_dividend unat_lt32, of offset 4096]
    by (simp_all add: word_unat_eq_iff unat_div unat_mod addr_simps)
  have "read_data_loop s inode ?size (word_of_nat (unat offset div 4096)) buf (word_of_nat ?n)
      (write_bytes (mem s) buf (take 0 (take ?n (drop (unat offset) ?c))))
      (word_of_nat (unat offset mod 4096)) (word_of_nat 0) (word_of_nat 0)
     = (word_of_nat ?n, write_bytes (mem s) buf (take ?n (drop (unat offset) ?c)))"
  proof (rule read_data_loop_reads [OF wf ino out])
    show "unat offset + ?n \<le> unat ?size" using lt by linarith
  qed simp_all
  moreover have "sint (word_of_nat ?n :: u32) = int ?n" using small by (intro sint_small_of_nat) simp
  ultimately show ?thesis
    using False clamp unfolding read_data_def data div by (simp add: Let_def min_def)
qed

section \<open>Looking a name up\<close>

definition dentry_name :: "'a fs_scheme \<Rightarrow> mem \<Rightarrow> nat \<Rightarrow> u8 list" where
  "dentry_name s m i = prefix_str m (dentry_addr s (word_of_nat i)) 32"

text \<open>The contract of the search: the first of the 64 slots whose name is the one looked for.\<close>

lemma find_dentry_None:
  assumes "cstring (mem s) fname cs" and "length cs \<le> 32"
  shows "find_dentry s fname = None \<longleftrightarrow> (\<forall>i < 64. dentry_name s (mem s) i \<noteq> cs)"
proof -
  have "prefix_str (mem s) fname 32 = cs" using prefix_str_cstring [OF assms(1)] assms(2) by simp
  then show ?thesis
    by (auto simp: find_dentry_def scan_None strncmp_eq_0 dentry_name_def) (metis atLeastLessThan_iff le0)
qed

lemma find_dentry_Some:
  assumes "cstring (mem s) fname cs" and "length cs \<le> 32"
  shows "find_dentry s fname = Some i \<longleftrightarrow>
     i < 64 \<and> dentry_name s (mem s) i = cs \<and> (\<forall>j < i. dentry_name s (mem s) j \<noteq> cs)"
proof -
  have p: "prefix_str (mem s) fname 32 = cs" using prefix_str_cstring [OF assms(1)] assms(2) by simp
  show ?thesis
  proof
    assume "find_dentry s fname = Some i"
    from scan_Some [OF this [unfolded find_dentry_def]]
    show "i < 64 \<and> dentry_name s (mem s) i = cs \<and> (\<forall>j < i. dentry_name s (mem s) j \<noteq> cs)"
      using p by (auto simp: strncmp_eq_0 dentry_name_def)
  next
    assume "i < 64 \<and> dentry_name s (mem s) i = cs \<and> (\<forall>j < i. dentry_name s (mem s) j \<noteq> cs)"
    then show "find_dentry s fname = Some i"
      unfolding find_dentry_def using p by (intro scan_SomeI) (auto simp: strncmp_eq_0 dentry_name_def)
  qed
qed

lemma read_dentry_by_name_cstring:
  assumes "cstring (mem s) fname cs" and "length cs \<le> 32" and "fname \<noteq> 0" and "dentry \<noteq> 0"
  shows "read_dentry_by_name fname dentry s =
    (case find_dentry s fname of
       None \<Rightarrow> Some (-1, s)
     | Some i \<Rightarrow> Some (0, s\<lparr>mem := memcpy (mem s) dentry (dentry_addr s (word_of_nat i)) 64\<rparr>))"
proof -
  have "\<not> NAME_SIZE < word_of_nat (length cs)" using assms(2) by (simp add: word_less_nat_alt addr_simps)
  then show ?thesis
    using strlen_cstring [OF assms(1)] assms(3,4) by (simp add: read_dentry_by_name_def Let_def)
qed

section \<open>Properties\<close>

text \<open>
  C10. On a well-formed image \<open>read_data\<close> terminates and copies exactly the bytes of the file that start at
  the offset, at most the length asked for and at most to the end of the file, to the buffer; it
  returns their number and changes nothing else. The buffer has to be outside the image, and the sum of length and offset
  must not wrap around.
\<close>

theorem read_data_correct:
  assumes "fs_wf s (mem s)" and "inode_wf s (mem s) inode"
    and "unat len + unat offset < 4294967296"
    and "outside_image s (mem s) buf (min (unat len) (unat (file_size s (mem s) inode) - unat offset))"
  shows "read_data inode offset buf len s =
    (let data = take (unat len) (drop (unat offset) (file_contents s (mem s) inode))
     in (int (length data), s\<lparr>mem := write_bytes (mem s) buf data\<rparr>))"
  using assms by (rule read_data_reads)

text \<open>
  An image of one index node and one data block at 1 MB: the file \<open>f\<close> with the three bytes \<open>abc\<close>.
\<close>

definition fs_example_mem :: mem where
  "fs_example_mem = write_bytes (write_bytes (write_bytes (write_bytes (write_bytes (\<lambda>_. 0)
     0x300000 (bytes ''f'')) 0x100004 (bytes32 1 @ bytes32 1)) 0x100040 (bytes ''f'')) 0x101000 (bytes32 3 @ bytes32 0))
     0x102000 (bytes ''abc'')"

definition fs_example :: fs where
  "fs_example = paging.extend (paging_example\<lparr>mem := fs_example_mem\<rparr>)
     \<lparr>g_b_block = 0x100000, g_index_nodes = 0x101000, g_directory_entries = 0x100040\<rparr>"

lemma fs_example_sel:
  "g_b_block fs_example = 0x100000" "g_index_nodes fs_example = 0x101000"
  "g_directory_entries fs_example = 0x100040" "mem fs_example = fs_example_mem"
  by (simp_all add: fs_example_def paging.defs)

lemma fs_example_loads:
  "load32 fs_example_mem 0x100004 = 1" "load32 fs_example_mem 0x100008 = 1"
  "load32 fs_example_mem 0x101000 = 3" "load32 fs_example_mem 0x101004 = 0"
  "read_bytes fs_example_mem 0x102000 (Suc (Suc (Suc 0))) = bytes ''abc''"
  by code_simp+

lemma fs_example_image:
  "num_index_nodes fs_example fs_example_mem = 1" "num_data_blocks fs_example fs_example_mem = 1"
  "file_size fs_example fs_example_mem 0 = 3" "data_block fs_example fs_example_mem 0 0 = 0"
  by (simp_all add: num_index_nodes_def num_data_blocks_def file_size_def data_block_def inode_addr_def
      fs_example_sel fs_example_loads)

lemma fs_example_wf:
  "fs_wf fs_example (mem fs_example)" "inode_wf fs_example (mem fs_example) 0"
  by (simp_all add: fs_wf_def inode_wf_def image_len_def file_blocks_def fs_example_image fs_example_sel)

lemma fs_example_contents: "file_contents fs_example fs_example_mem 0 = bytes ''abc''"
proof -
  have "[0..<unat (3 :: u32)] = [0, 1, 2]" by (simp add: upt_rec)
  then show ?thesis
    using fs_example_loads(5) unfolding file_contents_def fs_example_image(3)
    by (simp add: file_byte_def block_start_def fs_example_image fs_example_sel read_bytes_def)
qed

theorem read_data_correct_witness:
  "read_data 0 1 0x200000 10 fs_example =
     (2, fs_example\<lparr>mem := write_bytes fs_example_mem 0x200000 (bytes ''bc'')\<rparr>)"
proof -
  have "outside_image fs_example (mem fs_example) 0x200000
      (min (unat (10 :: u32)) (unat (file_size fs_example (mem fs_example) 0) - unat (1 :: u32)))"
    by (simp add: outside_image_def disjoint_regions_def image_len_def fs_example_image fs_example_sel)
  from read_data_correct [OF fs_example_wf _ this] show ?thesis
    by (simp add: fs_example_sel fs_example_contents)
qed

text \<open>
  C22. Looking a file up by name: for a name of at most 32 characters \<open>read_dentry_by_name\<close> copies the first of
  the 64 directory slots that has this name to the caller and returns 0, and when there is none it returns -1 and
  changes nothing.
\<close>

theorem read_dentry_by_name_finds:
  assumes "cstring (mem s) fname cs" and "length cs \<le> 32" and "fname \<noteq> 0" and "dentry \<noteq> 0"
    and "disjoint_regions dentry 64 (g_directory_entries s) 4096"
  shows "(\<forall>i < 64. dentry_name s (mem s) i = cs \<longrightarrow> (\<forall>j < i. dentry_name s (mem s) j \<noteq> cs) \<longrightarrow>
      read_dentry_by_name fname dentry s
        = Some (0, s\<lparr>mem := write_bytes (mem s) dentry
              (read_bytes (mem s) (g_directory_entries s + 64 * word_of_nat i) 64)\<rparr>))
    \<and> ((\<forall>i < 64. dentry_name s (mem s) i \<noteq> cs) \<longrightarrow> read_dentry_by_name fname dentry s = Some (-1, s))"
proof (intro conjI allI impI)
  fix i :: nat
  assume i: "i < 64" "dentry_name s (mem s) i = cs" "\<forall>j < i. dentry_name s (mem s) j \<noteq> cs"
  have a: "64 * word_of_nat i = (word_of_nat (64 * i) :: u32)" by simp
  have "disjoint_regions (g_directory_entries s + word_of_nat (64 * i)) 64 dentry 64"
    using assms(5) i(1) disjoint_regions_sym by (intro disjoint_regions_sub [of _ 4096]) auto
  then have safe: "copy_up_safe dentry (g_directory_entries s + word_of_nat (64 * i)) (unat (64 :: u32))"
    by (simp add: copy_up_safe_def disjoint_regions_def)
  show "read_dentry_by_name fname dentry s = Some (0, s\<lparr>mem := write_bytes (mem s) dentry
      (read_bytes (mem s) (g_directory_entries s + 64 * word_of_nat i) 64)\<rparr>)"
    using read_dentry_by_name_cstring [OF assms(1-4)] find_dentry_Some [OF assms(1,2), of i] i
      memcpy_ref [OF safe, of "mem s"]
    unfolding dentry_addr_def a by (simp add: copy_ref_def)
next
  assume "\<forall>i < 64. dentry_name s (mem s) i \<noteq> cs"
  then show "read_dentry_by_name fname dentry s = Some (-1, s)"
    using read_dentry_by_name_cstring [OF assms(1-4)] find_dentry_None [OF assms(1,2)] by simp
qed

theorem read_dentry_by_name_finds_witness:
  "\<exists>m. read_dentry_by_name 0x300000 0x200000 fs_example = Some (0, fs_example\<lparr>mem := m\<rparr>)
     \<and> dentry_inode_num m 0x200000 = 0"
proof -
  let ?m = "write_bytes fs_example_mem 0x200000 (read_bytes fs_example_mem 0x100040 64)"
  have cs: "cstring (mem fs_example) 0x300000 (bytes ''f'')" unfolding fs_example_sel by code_simp
  have "dentry_name fs_example (mem fs_example) 0 = bytes ''f''"
    unfolding dentry_name_def dentry_addr_def fs_example_sel by code_simp
  moreover have out: "disjoint_regions 0x200000 64 (g_directory_entries fs_example) 4096"
    by (simp add: disjoint_regions_def fs_example_sel)
  ultimately have "read_dentry_by_name 0x300000 0x200000 fs_example = Some (0, fs_example\<lparr>mem := ?m\<rparr>)"
    using read_dentry_by_name_finds [OF cs _ _ _ out, THEN conjunct1, rule_format, of 0]
    by (simp add: fs_example_sel)
  moreover have "dentry_inode_num ?m 0x200000 = 0" by code_simp
  ultimately show ?thesis by blast
qed



end
