(* ===== verification/Terminal.thy ===== *)
theory Terminal
  imports Filesystem
begin

text \<open>
  The three terminals: the driver of \<^verbatim>\<open>src/student-distrib/terminal.c\<close>, with the variant of the
  console that writes into the saved screen of a background terminal, and the terminal switch
  \<open>save_and_switch_term\<close> of \<^verbatim>\<open>systemcalls.c\<close>. An index into \<open>terminal\<close> is a C \<open>int\<close>; the operations below
  are meant for the indices 0 to 2 and do nothing to \<open>terminal\<close> for any other. Waiting for a
  line is run against an explicit list of events, each the effect of an interrupt handler.
\<close>

section \<open>State\<close>

record terminal_t =
  x_position :: int
  y_position :: int
  keyboard_buffer :: "u8 list"
  buffer_index :: int
  read_index :: int
  read_flag :: int
  shell_process_num :: int
  process_num :: int
  previous_process_num :: int
  process_activated :: int
  video_memory_storage_location :: u32
  rtc_lock :: int
  current_esp :: u32
  current_ebp :: u32

record sched_t =
  current_running_process_count :: int
  next_terminal_in_schedule :: int
  schedule_activated :: int

record tty = fs +
  terminal :: "terminal_t list"
  active_terminal :: int
  is_visible :: int
  active_schedule :: sched_t

abbreviation BUFF_SIZE :: nat where "BUFF_SIZE \<equiv> 128"
abbreviation FOUR_KB :: u32 where "FOUR_KB \<equiv> 4096"

definition term_at :: "int \<Rightarrow> 'a tty_scheme \<Rightarrow> terminal_t" where
  "term_at i s = terminal s ! nat i"

definition term_upd :: "int \<Rightarrow> (terminal_t \<Rightarrow> terminal_t) \<Rightarrow> 'a tty_scheme \<Rightarrow> 'a tty_scheme" where
  "term_upd i f s =
     (if 0 \<le> i \<and> i < 3 then s\<lparr>terminal := (terminal s)[nat i := f (terminal s ! nat i)]\<rparr> else s)"

abbreviation active :: "'a tty_scheme \<Rightarrow> terminal_t" where
  "active s \<equiv> term_at (active_terminal s) s"

section \<open>The driver\<close>

definition terminal_open_one :: "nat \<Rightarrow> 'a tty_scheme \<Rightarrow> 'a tty_scheme" where
  "terminal_open_one j s =
     (let s = term_upd (int j) (\<lambda>t. t\<lparr>
                video_memory_storage_location := VIDEO + FOUR_KB * (word_of_nat j + 1),
                x_position := 0, y_position := 0,
                keyboard_buffer := replicate BUFF_SIZE 0\<rparr>) s;
          s = s\<lparr>mem := clear_cells (video_memory_storage_location (term_at (int j) s)) (mem s)\<rparr>
      in term_upd (int j) (\<lambda>t. t\<lparr>buffer_index := 0, read_index := 0, read_flag := 0,
           process_activated := 0, current_esp := 0, current_ebp := 0, rtc_lock := 0\<rparr>) s)"

definition terminal_open :: "u32 \<Rightarrow> 'a tty_scheme \<Rightarrow> int \<times> 'a tty_scheme" where
  "terminal_open filename s = (0, fold terminal_open_one [0..<3] s)"

definition terminal_close :: "int \<Rightarrow> 'a tty_scheme \<Rightarrow> int \<times> 'a tty_scheme" where
  "terminal_close fd s = (0, s)"

text \<open>The loop \<^verbatim>\<open>while (terminal[active_terminal].read_flag != 1);\<close> against a list of events.\<close>

fun wait_line :: "('a tty_scheme \<Rightarrow> 'a tty_scheme) list \<Rightarrow> 'a tty_scheme \<Rightarrow> 'a tty_scheme option" where
  "wait_line [] s = (if read_flag (active s) = 1 then Some s else None)"
| "wait_line (e # es) s = (if read_flag (active s) = 1 then Some s else wait_line es (e s))"

definition copy_line :: "u32 \<Rightarrow> 'a tty_scheme \<Rightarrow> int \<times> 'a tty_scheme" where
  "copy_line temp_buffer s =
     (let s = fold (\<lambda>i s. poke (temp_buffer + word_of_nat i) (keyboard_buffer (active s) ! i) s)
                [0..<nat (read_index (active s))] s;
          s = poke (temp_buffer + word_of_int (read_index (active s))) 10 s;
          s = term_upd (active_terminal s) (\<lambda>t. t\<lparr>read_index := read_index t + 1\<rparr>) s;
          s = poke (temp_buffer + word_of_int (read_index (active s))) 0 s;
          s = term_upd (active_terminal s) (\<lambda>t. t\<lparr>read_flag := 0\<rparr>) s
      in (read_index (active s), s))"

definition terminal_read ::
  "('a tty_scheme \<Rightarrow> 'a tty_scheme) list \<Rightarrow> int \<Rightarrow> u32 \<Rightarrow> int \<Rightarrow> 'a tty_scheme \<Rightarrow> (int \<times> 'a tty_scheme) option" where
  "terminal_read events fd buffer nbytes s =
     (if buffer = 0 \<or> nbytes < 0 then Some (-1, put_string (bytes ''fail'') s)
      else if nbytes = 0 then Some (0, put_string (bytes ''no bytes'') s)
      else do { s \<leftarrow> wait_line events s; Some (copy_line buffer s) })"

section \<open>The console of a background terminal\<close>

definition active_terminal_scroll_up :: "int \<Rightarrow> 'a tty_scheme \<Rightarrow> 'a tty_scheme" where
  "active_terminal_scroll_up num_of_active s =
     (let s = s\<lparr>mem := scroll_cells (video_memory_storage_location (term_at num_of_active s))
                         (video_memory_storage_location (active s)) (mem s)\<rparr>
      in term_upd num_of_active (\<lambda>t. t\<lparr>x_position := 0, y_position := NUM_ROWS - 1\<rparr>) s)"

definition active_terminal_handle_enter :: "int \<Rightarrow> 'a tty_scheme \<Rightarrow> 'a tty_scheme" where
  "active_terminal_handle_enter num_of_active s =
     (let s = term_upd num_of_active (\<lambda>t. t\<lparr>y_position := y_position t + 1, x_position := 0\<rparr>) s
      in if y_position (term_at num_of_active s) = NUM_ROWS
         then active_terminal_scroll_up num_of_active s else s)"

definition active_terminal_handle_tab :: "int \<Rightarrow> 'a tty_scheme \<Rightarrow> 'a tty_scheme" where
  "active_terminal_handle_tab num_of_active s =
     (if x_position (term_at num_of_active s) < NUM_COLS - 8
      then term_upd num_of_active (\<lambda>t. t\<lparr>x_position := x_position t + 8\<rparr>) s
      else let s = term_upd num_of_active (\<lambda>t. t\<lparr>y_position := y_position t + 1, x_position := 8\<rparr>) s
           in if y_position (term_at num_of_active s) = NUM_ROWS
              then active_terminal_scroll_up num_of_active s else s)"

text \<open>The cell of the terminal's own cursor in its saved screen.\<close>

definition put_saved :: "int \<Rightarrow> u8 \<Rightarrow> 'a tty_scheme \<Rightarrow> 'a tty_scheme" where
  "put_saved i c s =
     (let t = term_at i s
      in s\<lparr>mem := put_cell (video_memory_storage_location t) (NUM_COLS * y_position t + x_position t) c (mem s)\<rparr>)"

definition active_terminal_handle_backspace :: "int \<Rightarrow> 'a tty_scheme \<Rightarrow> 'a tty_scheme" where
  "active_terminal_handle_backspace num_of_active s =
     (let s = (if x_position (term_at num_of_active s) > 0
               then term_upd num_of_active (\<lambda>t. t\<lparr>x_position := x_position t - 1\<rparr>) s
               else if screen_y s > 0
               then term_upd num_of_active (\<lambda>t. t\<lparr>x_position := NUM_COLS - 1, y_position := y_position t - 1\<rparr>) s
               else s)
      in put_saved num_of_active (byte CHR '' '') s)"

definition active_terminal_handle_normal_char :: "int \<Rightarrow> u8 \<Rightarrow> 'a tty_scheme \<Rightarrow> 'a tty_scheme" where
  "active_terminal_handle_normal_char num_of_active c s =
     (let s = put_saved num_of_active c s
      in if screen_x s = NUM_COLS - 1
         then let s = term_upd num_of_active (\<lambda>t. t\<lparr>x_position := 0, y_position := y_position t + 1\<rparr>) s
              in if y_position (term_at num_of_active s) = NUM_ROWS
                 then active_terminal_scroll_up num_of_active s else s
         else term_upd num_of_active (\<lambda>t. t\<lparr>x_position := x_position t + 1\<rparr>) s)"

definition active_terminal_putc :: "int \<Rightarrow> u8 \<Rightarrow> 'a tty_scheme \<Rightarrow> 'a tty_scheme" where
  "active_terminal_putc num_of_active c s =
     (if c = 10 \<or> c = 13 then active_terminal_handle_enter num_of_active s
      else if c = 9 then active_terminal_handle_tab num_of_active s
      else if c = 8 then active_terminal_handle_backspace num_of_active s
      else active_terminal_handle_normal_char num_of_active c s)"

section \<open>Writing\<close>

text \<open>
  The body of the loop of \<open>terminal_write\<close>. The bytes come from memory for a system call and from the
  keyboard buffer, an array of the kernel, when the keyboard handler echoes a key; \<open>fetch\<close> abstracts
  from where.
\<close>

definition terminal_emit :: "u8 \<Rightarrow> 'a tty_scheme \<Rightarrow> 'a tty_scheme" where
  "terminal_emit c s =
     (if c \<noteq> 0 then
        if current_running_process_count (active_schedule s) < 3
           \<or> next_terminal_in_schedule (active_schedule s) = active_terminal s
        then putc c s
        else active_terminal_putc (next_terminal_in_schedule (active_schedule s)) c s
      else s)"

definition terminal_write_from ::
  "(nat \<Rightarrow> 'a tty_scheme \<Rightarrow> u8) \<Rightarrow> int \<Rightarrow> 'a tty_scheme \<Rightarrow> int \<times> 'a tty_scheme" where
  "terminal_write_from fetch nbytes s =
     (if nbytes < 0 then (-1, s)
      else if buffer_index (active s) = int BUFF_SIZE then (0, s)
      else (nbytes, sti (fold (\<lambda>i s. terminal_emit (fetch i s) s) [0..<nat nbytes] (cli s))))"

definition terminal_write :: "int \<Rightarrow> u32 \<Rightarrow> int \<Rightarrow> 'a tty_scheme \<Rightarrow> int \<times> 'a tty_scheme" where
  "terminal_write fd buffer nbytes s =
     (if buffer = 0 then (-1, s)
      else terminal_write_from (\<lambda>i s. mem s (buffer + word_of_nat i)) nbytes s)"

section \<open>Switching\<close>

definition save_and_switch_term :: "int \<Rightarrow> 'a tty_scheme \<Rightarrow> 'a tty_scheme" where
  "save_and_switch_term new_active s =
     (if new_active = active_terminal s then s
      else
        let s = s\<lparr>mem := memcpy (mem s) (video_memory_storage_location (active s)) VIDEO FOUR_KB\<rparr>;
            s = s\<lparr>mem := memcpy (mem s) VIDEO (video_memory_storage_location (term_at new_active s)) FOUR_KB\<rparr>;
            s = term_upd (active_terminal s) (\<lambda>t. t\<lparr>y_position := screen_y s, x_position := screen_x s\<rparr>) s;
            s = s\<lparr>screen_y := y_position (term_at new_active s), screen_x := x_position (term_at new_active s)\<rparr>;
            s = update_cursor (screen_x s) (screen_y s) s
        in s\<lparr>active_terminal := new_active\<rparr>)"

section \<open>Well-formed terminals\<close>

definition tty_wf :: "'a tty_scheme \<Rightarrow> bool" where
  "tty_wf s \<longleftrightarrow> length (terminal s) = 3 \<and> 0 \<le> active_terminal s \<and> active_terminal s < 3
     \<and> list_all (\<lambda>j. video_memory_storage_location (terminal s ! j) = VIDEO + FOUR_KB * (word_of_nat j + 1)
          \<and> length (keyboard_buffer (terminal s ! j)) = BUFF_SIZE
          \<and> 0 \<le> buffer_index (terminal s ! j) \<and> buffer_index (terminal s ! j) \<le> int BUFF_SIZE
          \<and> 0 \<le> read_index (terminal s ! j)) [0..<3]"

lemma tty_wfD:
  assumes "tty_wf s" and "0 \<le> i" and "i < 3"
  shows "video_memory_storage_location (term_at i s) = VIDEO + FOUR_KB * (word_of_int i + 1)"
    and "length (keyboard_buffer (term_at i s)) = 128"
    and "0 \<le> buffer_index (term_at i s)" and "buffer_index (term_at i s) \<le> 128"
    and "0 \<le> read_index (term_at i s)"
proof -
  have "nat i \<in> set [0..<3]" using assms(2,3) by auto
  moreover have "word_of_nat (nat i) = (word_of_int i :: u32)" using assms(2) by simp
  ultimately show "video_memory_storage_location (term_at i s) = VIDEO + FOUR_KB * (word_of_int i + 1)"
    "length (keyboard_buffer (term_at i s)) = 128" "0 \<le> buffer_index (term_at i s)"
    "buffer_index (term_at i s) \<le> 128" "0 \<le> read_index (term_at i s)"
    using assms(1) unfolding tty_wf_def term_at_def list_all_iff by fastforce+
qed

lemma term_at_upd:
  "length (terminal s) = 3 \<Longrightarrow> 0 \<le> i \<Longrightarrow> i < 3 \<Longrightarrow> 0 \<le> j \<Longrightarrow>
     term_at j (term_upd i f s) = (if i = j then f (term_at i s) else term_at j s)"
  by (auto simp: term_at_def term_upd_def nth_list_update)

lemma term_upd_sel [frame_simps]:
  "mem (term_upd i f s) = mem s" "screen_x (term_upd i f s) = screen_x s"
  "screen_y (term_upd i f s) = screen_y s" "active_terminal (term_upd i f s) = active_terminal s"
  "active_schedule (term_upd i f s) = active_schedule s" "interrupts (term_upd i f s) = interrupts s"
  "length (terminal (term_upd i f s)) = length (terminal s)" "out_log (term_upd i f s) = out_log s"
  "is_visible (term_upd i f s) = is_visible s" "tty.more (term_upd i f s) = tty.more s"
  by (simp_all add: term_upd_def)

lemma term_at_cong: "terminal s = terminal t \<Longrightarrow> term_at i s = term_at i t"
  by (simp add: term_at_def)

lemma update_cursor_tty [frame_simps]:
  "terminal (update_cursor x y s) = terminal s" "active_terminal (update_cursor x y s) = active_terminal s"
  "active_schedule (update_cursor x y s) = active_schedule s" "is_visible (update_cursor x y s) = is_visible s"
  "tty.more (update_cursor x y s) = tty.more s"
  by (simp_all add: update_cursor_def Let_def outb_def)

section \<open>The four screens in memory\<close>

text \<open>Page 0 is the video memory, page \<open>j + 1\<close> the saved screen of terminal \<open>j\<close>.\<close>

definition screen_page :: "nat \<Rightarrow> u32" where
  "screen_page k = VIDEO + 4096 * word_of_nat k"

lemma screen_pages_disjoint:
  assumes "i \<le> 3" and "j \<le> 3" and "i \<noteq> j"
  shows "disjoint_regions (screen_page i) 4096 (screen_page j) 4096"
proof -
  have "i \<in> {0, 1, 2, 3}" "j \<in> {0, 1, 2, 3}" using assms by auto
  with assms(3) show ?thesis by (auto simp: screen_page_def disjoint_regions_def)
qed

lemma memcpy_screen:
  assumes "i \<le> 3" and "j \<le> 3" and "i \<noteq> j"
  shows "memcpy m (screen_page i) (screen_page j) 4096 x
     = (if in_region x (screen_page i) 4096 then m (screen_page j + (x - screen_page i)) else m x)"
proof -
  have "copy_up_safe (screen_page i) (screen_page j) (unat (4096 :: u32))"
    using screen_pages_disjoint [OF assms] by (simp add: copy_up_safe_def disjoint_regions_def)
  from memcpy_ref [OF this, of m] show ?thesis by (simp add: copy_ref_apply)
qed

lemma in_region_move: "in_region (b + (x - a)) b n = in_region x a n"
  by (simp add: in_region_def)

lemma screen_page_storage:
  "tty_wf s \<Longrightarrow> 0 \<le> i \<Longrightarrow> i < 3 \<Longrightarrow> video_memory_storage_location (term_at i s) = screen_page (nat i + 1)"
  by (simp add: tty_wfD screen_page_def algebra_simps)

lemma VIDEO_page: "VIDEO = screen_page 0"
  by (simp add: screen_page_def)

lemma switch_mem:
  assumes "tty_wf s" and "0 \<le> b" "b < 3" and "b \<noteq> active_terminal s"
  shows "mem (save_and_switch_term b s) x =
    (if in_region x VIDEO 4096 then mem s (video_memory_storage_location (term_at b s) + (x - VIDEO))
     else if in_region x (video_memory_storage_location (active s)) 4096
     then mem s (VIDEO + (x - video_memory_storage_location (active s))) else mem s x)"
proof -
  let ?a = "active_terminal s"
  have a: "0 \<le> ?a" "?a < 3" using assms(1) by (simp_all add: tty_wf_def)
  have pa: "video_memory_storage_location (term_at ?a s) = screen_page (nat ?a + 1)"
    using assms(1) a by (rule screen_page_storage)
  have pb: "video_memory_storage_location (term_at b s) = screen_page (nat b + 1)"
    using assms(1-3) by (rule screen_page_storage)
  let ?m = "memcpy (mem s) (screen_page (nat ?a + 1)) (screen_page 0) 4096"
  have "mem (save_and_switch_term b s) = memcpy ?m (screen_page 0) (screen_page (nat b + 1)) 4096"
    using assms(4) pa pb by (simp add: save_and_switch_term_def Let_def frame_simps term_at_def VIDEO_page)
  moreover have "nat ?a \<noteq> nat b" using assms a by auto
  moreover have "\<not> in_region (screen_page (nat b + 1) + (x - screen_page 0)) (screen_page (nat ?a + 1)) 4096"
    if "in_region x (screen_page 0) 4096"
  proof -
    have "nat b + 1 \<le> 3" "nat ?a + 1 \<le> 3" "nat b + 1 \<noteq> nat ?a + 1" using assms a by auto
    from disjoint_regionsD [OF screen_pages_disjoint [OF this]] that show ?thesis
      by (simp add: in_region_move)
  qed
  ultimately show ?thesis
    using assms a unfolding pa pb VIDEO_page by (simp add: memcpy_screen)
qed

lemma save_and_switch_term_sel:
  assumes "tty_wf s" and "0 \<le> b" "b < 3" and "b \<noteq> active_terminal s"
  shows "active_terminal (save_and_switch_term b s) = b"
    and "screen_x (save_and_switch_term b s) = x_position (term_at b s)"
    and "screen_y (save_and_switch_term b s) = y_position (term_at b s)"
    and "0 \<le> j \<Longrightarrow> term_at j (save_and_switch_term b s) = (if j = active_terminal s
           then (term_at j s)\<lparr>y_position := screen_y s, x_position := screen_x s\<rparr> else term_at j s)"
    and "length (terminal (save_and_switch_term b s)) = 3"
proof -
  have wf: "length (terminal s) = 3" "0 \<le> active_terminal s" "active_terminal s < 3"
    using assms(1) by (simp_all add: tty_wf_def)
  have at: "term_at j (term_upd (active_terminal s) f (s\<lparr>mem := m\<rparr>))
      = (if j = active_terminal s then f (term_at j s) else term_at j s)" if "0 \<le> j" for j f m
    using that wf term_at_upd [of "s\<lparr>mem := m\<rparr>" "active_terminal s" j f] by (auto simp: term_at_def)
  show "active_terminal (save_and_switch_term b s) = b"
    "length (terminal (save_and_switch_term b s)) = 3"
    using assms(4) wf by (simp_all add: save_and_switch_term_def Let_def frame_simps)
  show "screen_x (save_and_switch_term b s) = x_position (term_at b s)"
    "screen_y (save_and_switch_term b s) = y_position (term_at b s)"
    using assms(2,4) at [of b] by (simp_all add: save_and_switch_term_def Let_def frame_simps)
  show "term_at j (save_and_switch_term b s) = (if j = active_terminal s
           then (term_at j s)\<lparr>y_position := screen_y s, x_position := screen_x s\<rparr> else term_at j s)"
    if "0 \<le> j"
  proof -
    have "terminal (save_and_switch_term b s) = terminal (term_upd (active_terminal s)
        (\<lambda>t. t\<lparr>y_position := screen_y s, x_position := screen_x s\<rparr>) (s\<lparr>mem := mem s\<rparr>))"
      using assms(4) by (simp add: save_and_switch_term_def Let_def frame_simps term_upd_def)
    then show ?thesis using at [OF that, of _ "mem s"] by (metis term_at_cong)
  qed
qed

lemma tty_wf_switch:
  assumes "tty_wf s" and "0 \<le> b" "b < 3"
  shows "tty_wf (save_and_switch_term b s)"
proof (cases "b = active_terminal s")
  case True
  then show ?thesis using assms(1) by (simp add: save_and_switch_term_def)
next
  case False
  note sel = save_and_switch_term_sel [OF assms False]
  have "terminal (save_and_switch_term b s) ! j
      = (if int j = active_terminal s then (terminal s ! j)\<lparr>y_position := screen_y s, x_position := screen_x s\<rparr>
         else terminal s ! j)" for j
    using sel(4) [of "int j"] unfolding term_at_def nat_int by simp
  then show ?thesis
    using assms sel(1,5) unfolding tty_wf_def list_all_iff by simp
qed

text \<open>Switching away and back: the video memory and the cursor are as before.\<close>

lemma switch_round_trip:
  assumes wf: "tty_wf s" and b: "0 \<le> b" "b < 3" "b \<noteq> active_terminal s"
  defines "t \<equiv> save_and_switch_term (active_terminal s) (save_and_switch_term b s)"
  shows "active_terminal t = active_terminal s" and "screen_x t = screen_x s" and "screen_y t = screen_y s"
    and "in_region x VIDEO 4096 \<Longrightarrow> mem t x = mem s x"
    and "\<not> in_region x (video_memory_storage_location (active s)) 4096 \<Longrightarrow> mem t x = mem s x"
proof -
  let ?a = "active_terminal s" and ?u = "save_and_switch_term b s"
  have a: "0 \<le> ?a" "?a < 3" using wf by (simp_all add: tty_wf_def)
  note sel = save_and_switch_term_sel [OF wf b]
  have wfu: "tty_wf ?u" using wf b(1,2) by (rule tty_wf_switch)
  have ne: "?a \<noteq> active_terminal ?u" using b(3) sel(1) by simp
  note sel2 = save_and_switch_term_sel [OF wfu a ne, folded t_def]
  show "active_terminal t = ?a" "screen_x t = screen_x s" "screen_y t = screen_y s"
    using sel2 sel(4) [of ?a] a by simp_all
  let ?pa = "screen_page (nat ?a + 1)" and ?pb = "screen_page (nat b + 1)"
  have pa: "video_memory_storage_location (term_at ?a s) = ?pa" "video_memory_storage_location (term_at ?a ?u) = ?pa"
    using screen_page_storage [OF wf a] screen_page_storage [OF wfu a] by simp_all
  have pb: "video_memory_storage_location (term_at b s) = ?pb" "video_memory_storage_location (term_at b ?u) = ?pb"
    using screen_page_storage [OF wf b(1,2)] screen_page_storage [OF wfu b(1,2)] by simp_all
  have le: "nat b + 1 \<le> 3" "nat ?a + 1 \<le> 3" "nat b + 1 \<noteq> nat ?a + 1" using b a by auto
  have "\<not> in_region y ?pa 4096" "\<not> in_region y VIDEO 4096" if "in_region y ?pb 4096" for y
    using disjoint_regionsD [OF screen_pages_disjoint [OF le] that]
      disjoint_regionsD [OF screen_pages_disjoint [OF le(1), of 0] that] by (simp_all add: screen_page_def)
  note dpb = this
  have dpa: "\<not> in_region y VIDEO 4096" if "in_region y ?pa 4096" for y
    using disjoint_regionsD [OF screen_pages_disjoint [OF le(2), of 0] that] by (simp add: screen_page_def)
  note m1 = switch_mem [OF wf b, unfolded pa pb] and m2 = switch_mem [OF wfu a ne, folded t_def, unfolded sel(1) pa pb]
  show v: "mem t x = mem s x" if "in_region x VIDEO 4096"
    using that dpa [of "?pa + (x - VIDEO)"] by (simp add: m1 m2 in_region_move)
  show "mem t x = mem s x" if "\<not> in_region x (video_memory_storage_location (active s)) 4096"
  proof (cases "in_region x VIDEO 4096")
    case True
    then show ?thesis by (rule v)
  next
    case False
    show ?thesis
    proof (cases "in_region x ?pb 4096")
      case True
      then have "in_region (VIDEO + (x - ?pb)) VIDEO 4096" by (simp add: in_region_move)
      with False True show ?thesis by (simp add: m1 m2)
    next
      case nb: False
      with False that show ?thesis by (simp add: m1 m2 pa)
    qed
  qed
qed

section \<open>Reading a line\<close>

lemma poke_tty [frame_simps]:
  "terminal (poke a b s) = terminal s" "active_terminal (poke a b s) = active_terminal s"
  "active_schedule (poke a b s) = active_schedule s"
  by (simp_all add: poke_def)

lemma term_at_poke [frame_simps]: "term_at i (poke a b s) = term_at i s"
  by (simp add: term_at_def frame_simps)

lemma fold_poke_line:
  "n \<le> length (keyboard_buffer (active s)) \<Longrightarrow>
     fold (\<lambda>i s. poke (b + word_of_nat i) (keyboard_buffer (active s) ! i) s) [0..<n] s
       = s\<lparr>mem := write_bytes (mem s) b (take n (keyboard_buffer (active s)))\<rparr>"
proof (induction n)
  case 0
  then show ?case by simp
next
  case (Suc n)
  let ?kb = "keyboard_buffer (active s)"
  have "take (Suc n) ?kb = take n ?kb @ [?kb ! n]" using Suc.prems by (simp add: take_Suc_conv_app_nth)
  then have w: "write_bytes (mem s) b (take (Suc n) ?kb)
      = (write_bytes (mem s) b (take n ?kb))(b + word_of_nat n := ?kb ! n)"
    using Suc.prems by (simp add: write_bytes_append min_absorb2)
  have IH: "fold (\<lambda>i s. poke (b + word_of_nat i) (keyboard_buffer (active s) ! i) s) [0..<n] s
      = s\<lparr>mem := write_bytes (mem s) b (take n ?kb)\<rparr>"
    using Suc by simp
  show ?case unfolding w upt_Suc_append [OF le0] fold_append comp_apply IH
    by (simp add: poke_def term_at_def) (simp add: fun_upd_def)
qed

lemma copy_line_reads:
  assumes "tty_wf s" and "read_index (active s) \<le> 128"
  defines "n \<equiv> nat (read_index (active s))"
  shows "copy_line b s = (int n + 1,
     term_upd (active_terminal s) (\<lambda>t. t\<lparr>read_index := int n + 1, read_flag := 0\<rparr>)
       (s\<lparr>mem := write_bytes (mem s) b (take n (keyboard_buffer (active s)) @ [10, 0])\<rparr>))"
proof -
  let ?a = "active_terminal s" and ?kb = "keyboard_buffer (active s)"
  have a: "0 \<le> ?a" "?a < 3" "length (terminal s) = 3" using assms(1) by (simp_all add: tty_wf_def)
  have kb: "length ?kb = 128" "0 \<le> read_index (active s)" using tty_wfD [OF assms(1) a(1,2)] by simp_all
  then have n: "int n = read_index (active s)" "n \<le> length ?kb" using assms(2) by (simp_all add: n_def)
  have w: "word_of_int (read_index (active s)) = (word_of_nat n :: u32)" using n(1) by (metis of_int_of_nat_eq)
  have w1: "b + word_of_int (read_index (active s) + 1) = b + word_of_nat n + (1 :: u32)"
    using w by (simp add: algebra_simps)
  let ?m = "write_bytes (mem s) b (take n ?kb)"
  have loop: "fold (\<lambda>i s. poke (b + word_of_nat i) (keyboard_buffer (active s) ! i) s) [0..<n] s = s\<lparr>mem := ?m\<rparr>"
    using n(2) by (rule fold_poke_line)
  have at: "term_at i (s\<lparr>mem := m\<rparr>) = term_at i s" for i m by (simp add: term_at_def)
  have "write_bytes (mem s) b (take n ?kb @ [10, 0]) = ?m(b + word_of_nat n := 10, b + word_of_nat n + 1 := 0)"
    using n(2) kb by (simp add: write_bytes_append min_absorb2)
  then show ?thesis
    unfolding copy_line_def Let_def n_def [symmetric] loop
    using a n(1) w w1 by (simp add: term_upd_def term_at_def poke_def fun_upd_def add.assoc)
qed

section \<open>Writing to the visible terminal\<close>

lemma putc_tty [frame_simps]:
  "terminal (putc c s) = terminal s" "active_terminal (putc c s) = active_terminal s"
  "active_schedule (putc c s) = active_schedule s" "is_visible (putc c s) = is_visible s"
  by (simp_all add: putc_def putc_defs Let_def frame_simps)

lemma put_string_tty [frame_simps]:
  "terminal (put_string cs s) = terminal s" "active_terminal (put_string cs s) = active_terminal s"
  "active_schedule (put_string cs s) = active_schedule s" "is_visible (put_string cs s) = is_visible s"
  by (induction cs arbitrary: s) (simp_all add: put_string_def frame_simps)

lemma put_string_append: "put_string (cs @ ds) s = put_string ds (put_string cs s)"
  by (simp add: put_string_def)

definition foreground :: "'a tty_scheme \<Rightarrow> bool" where
  "foreground s \<longleftrightarrow> current_running_process_count (active_schedule s) < 3
     \<or> next_terminal_in_schedule (active_schedule s) = active_terminal s"

lemma fold_emit_foreground:
  assumes "foreground s" and ok: "cursor_ok s" and out: "disjoint_regions b n VIDEO 4000" and "n \<le> 4294967296"
  shows "k \<le> n \<Longrightarrow> fold (\<lambda>i s. terminal_emit (mem s (b + word_of_nat i)) s) [0..<k] s
     = put_string (filter (\<lambda>c. c \<noteq> 0) (read_bytes (mem s) b k)) s"
proof (induction k)
  case 0
  then show ?case by (simp add: put_string_def)
next
  case (Suc k)
  let ?t = "put_string (filter (\<lambda>c. c \<noteq> 0) (read_bytes (mem s) b k)) s"
  have "in_region (b + word_of_nat k) b n" using Suc.prems assms(4) by (intro in_region_offset) simp_all
  then have "mem ?t (b + word_of_nat k) = mem s (b + word_of_nat k)"
    using put_string_frame [OF ok] disjoint_regionsD [OF out] by blast
  moreover have "foreground ?t" using assms(1) by (simp add: foreground_def frame_simps)
  moreover have "read_bytes (mem s) b (Suc k) = read_bytes (mem s) b k @ [mem s (b + word_of_nat k)]"
    using read_bytes_append [of "mem s" b k 1] by (simp add: read_bytes_Suc)
  ultimately show ?case
    using Suc by (simp add: terminal_emit_def foreground_def put_string_append) (simp add: put_string_def)
qed

lemma cli_tty [frame_simps]:
  "terminal (cli s) = terminal s" "active_terminal (cli s) = active_terminal s"
  "active_schedule (cli s) = active_schedule s" "screen_x (cli s) = screen_x s" "screen_y (cli s) = screen_y s"
  by (simp_all add: cli_def)

lemma terminal_write_foreground:
  assumes "foreground s" and "cursor_ok s" and "disjoint_regions buf (nat n) VIDEO 4000" and "buf \<noteq> 0"
    and "0 \<le> n" "n < 4294967296" and "buffer_index (active s) \<noteq> 128"
  shows "terminal_write fd buf n s =
    (n, sti (put_string (filter (\<lambda>c. c \<noteq> 0) (read_bytes (mem s) buf (nat n))) (cli s)))"
proof -
  have "foreground (cli s)" "cursor_ok (cli s)" using assms(1,2) by (simp_all add: foreground_def cursor_ok_def frame_simps)
  from fold_emit_foreground [OF this assms(3), of "nat n"] assms(4-7) show ?thesis
    by (simp add: terminal_write_def terminal_write_from_def frame_simps)
qed

section \<open>Writing to a background terminal\<close>

lemma put_saved_sel [frame_simps]:
  "terminal (put_saved i c s) = terminal s" "active_terminal (put_saved i c s) = active_terminal s"
  "screen_x (put_saved i c s) = screen_x s" "screen_y (put_saved i c s) = screen_y s"
  by (simp_all add: put_saved_def Let_def)

lemma background_char_advances:
  assumes "length (terminal s) = 3" and "0 \<le> i" "i < 3" and "screen_x s \<noteq> 79"
  shows "x_position (term_at i (active_terminal_handle_normal_char i c s)) = x_position (term_at i s) + 1"
    and "y_position (term_at i (active_terminal_handle_normal_char i c s)) = y_position (term_at i s)"
    and "length (terminal (active_terminal_handle_normal_char i c s)) = 3"
    and "screen_x (active_terminal_handle_normal_char i c s) = screen_x s"
proof -
  have at: "term_at i (put_saved i c s) = term_at i s" by (simp add: term_at_def frame_simps)
  have "active_terminal_handle_normal_char i c s
      = term_upd i (\<lambda>t. t\<lparr>x_position := x_position t + 1\<rparr>) (put_saved i c s)"
    using assms(4) by (simp add: active_terminal_handle_normal_char_def Let_def frame_simps)
  then show "x_position (term_at i (active_terminal_handle_normal_char i c s)) = x_position (term_at i s) + 1"
    "y_position (term_at i (active_terminal_handle_normal_char i c s)) = y_position (term_at i s)"
    "length (terminal (active_terminal_handle_normal_char i c s)) = 3"
    "screen_x (active_terminal_handle_normal_char i c s) = screen_x s"
    using assms at by (simp_all add: term_at_upd frame_simps)
qed

lemma background_cursor_runs:
  "length (terminal s) = 3 \<Longrightarrow> 0 \<le> i \<Longrightarrow> i < 3 \<Longrightarrow> screen_x s \<noteq> 79 \<Longrightarrow>
     x_position (term_at i (fold (active_terminal_handle_normal_char i) cs s))
       = x_position (term_at i s) + int (length cs)"
  by (induction cs arbitrary: s) (simp_all add: background_char_advances)

section \<open>Properties\<close>

text \<open>
  Switching terminals. The switch puts the saved screen of the new terminal into the video memory and
  the video memory into the saved screen of the old one, byte for byte; the cursor is saved and
  restored with it; every other byte, and so the screen of the third terminal, is untouched.
\<close>

lemma switch_swaps_screens:
  assumes "tty_wf s" and "0 \<le> b" "b < 3" and "b \<noteq> active_terminal s"
  shows "read_bytes (mem (save_and_switch_term b s)) VIDEO 4096
       = read_bytes (mem s) (video_memory_storage_location (term_at b s)) 4096
     \<and> read_bytes (mem (save_and_switch_term b s)) (video_memory_storage_location (active s)) 4096
       = read_bytes (mem s) VIDEO 4096
     \<and> (\<forall>x. \<not> in_region x VIDEO 4096 \<longrightarrow> \<not> in_region x (video_memory_storage_location (active s)) 4096 \<longrightarrow>
          mem (save_and_switch_term b s) x = mem s x)
     \<and> screen_x (save_and_switch_term b s) = x_position (term_at b s)
     \<and> screen_y (save_and_switch_term b s) = y_position (term_at b s)
     \<and> x_position (term_at (active_terminal s) (save_and_switch_term b s)) = screen_x s
     \<and> y_position (term_at (active_terminal s) (save_and_switch_term b s)) = screen_y s
     \<and> active_terminal (save_and_switch_term b s) = b \<and> tty_wf (save_and_switch_term b s)"
proof -
  let ?pa = "video_memory_storage_location (active s)"
  have a: "0 \<le> active_terminal s" "active_terminal s < 3" using assms(1) by (simp_all add: tty_wf_def)
  note m = switch_mem [OF assms] and sel = save_and_switch_term_sel [OF assms]
  have v: "in_region (VIDEO + word_of_nat i) VIDEO 4096" "in_region (?pa + word_of_nat i) ?pa 4096"
    if "i < 4096" for i using that by (simp_all add: in_region_offset)
  have le: "nat (active_terminal s) + 1 \<le> 3" "nat (active_terminal s) + 1 \<noteq> 0" using a by auto
  have d: "\<not> in_region x VIDEO 4096" if "in_region x ?pa 4096" for x
    using disjoint_regionsD [OF screen_pages_disjoint [OF le(1) _ le(2)], of x] that
      screen_page_storage [OF assms(1) a] by (simp add: VIDEO_page)
  have "read_bytes (mem (save_and_switch_term b s)) VIDEO 4096
       = read_bytes (mem s) (video_memory_storage_location (term_at b s)) 4096"
    by (rule nth_equalityI) (simp_all add: m v)
  moreover have "read_bytes (mem (save_and_switch_term b s)) ?pa 4096 = read_bytes (mem s) VIDEO 4096"
    by (rule nth_equalityI) (simp_all add: m v d)
  moreover have "tty_wf (save_and_switch_term b s)" using assms(1-3) by (rule tty_wf_switch)
  ultimately show ?thesis using m sel a by simp
qed

definition terminal_example :: "nat \<Rightarrow> terminal_t" where
  "terminal_example j = \<lparr>x_position = 0, y_position = 0, keyboard_buffer = replicate 128 0,
     buffer_index = 0, read_index = 0, read_flag = 0, shell_process_num = 0, process_num = int j,
     previous_process_num = 0, process_activated = 0,
     video_memory_storage_location = VIDEO + FOUR_KB * (word_of_nat j + 1), rtc_lock = 0,
     current_esp = 0, current_ebp = 0\<rparr>"

definition tty_example :: tty where
  "tty_example = fs.extend fs_example \<lparr>terminal = [terminal_example 0, terminal_example 1, terminal_example 2],
     active_terminal = 0, is_visible = 0,
     active_schedule = \<lparr>current_running_process_count = 1, next_terminal_in_schedule = 2, schedule_activated = 1\<rparr>\<rparr>"

lemma tty_example_sel:
  "terminal tty_example = [terminal_example 0, terminal_example 1, terminal_example 2]"
  "active_terminal tty_example = 0" "mem tty_example = fs_example_mem"
  "screen_x tty_example = 0" "screen_y tty_example = 0"
  "active_schedule tty_example
     = \<lparr>current_running_process_count = 1, next_terminal_in_schedule = 2, schedule_activated = 1\<rparr>"
  by (simp_all add: tty_example_def fs.defs fs_example_def paging.defs paging_example_def rtc.defs
      rtc_example_def pic.defs pic_example_def)

lemma tty_example_wf: "tty_wf tty_example"
  by (simp add: tty_wf_def tty_example_sel upt_rec terminal_example_def)

text \<open>
  C18. Switching to another terminal and back is invisible: the whole video memory, the cursor and the active
  terminal are as before, and the only bytes that may differ are those of the saved copy of the terminal's own screen.
\<close>

theorem switch_back_restores:
  assumes "tty_wf s" and "0 \<le> b" "b < 3" and "b \<noteq> active_terminal s"
  shows "let t = save_and_switch_term (active_terminal s) (save_and_switch_term b s)
     in active_terminal t = active_terminal s \<and> screen_x t = screen_x s \<and> screen_y t = screen_y s
        \<and> (\<forall>x. in_region x VIDEO 4096 \<longrightarrow> mem t x = mem s x)
        \<and> (\<forall>x. \<not> in_region x (video_memory_storage_location (active s)) 4096 \<longrightarrow> mem t x = mem s x)"
  using switch_round_trip [OF assms] by (simp add: Let_def)

theorem switch_back_restores_witness:
  "screen_x (save_and_switch_term 0 (save_and_switch_term 1 tty_example)) = 0"
  using switch_back_restores [OF tty_example_wf, of 1] by (simp add: tty_example_sel Let_def)



text \<open>
  C31. Writing to the terminal on the screen prints exactly the bytes of the buffer that are not NUL, in order,
  as \<open>putc\<close> prints them, and reports all of them as written; interrupts are on afterwards.
\<close>

theorem terminal_write_prints:
  assumes "foreground s" and "cursor_ok s" and "disjoint_regions buf (nat n) VIDEO 4000" and "buf \<noteq> 0"
    and "0 \<le> n" "n < 4294967296" and "buffer_index (active s) \<noteq> 128"
  shows "\<exists>t. terminal_write fd buf n s = (n, t) \<and> interrupts t \<and> cursor_ok t
     \<and> abs_screen t = fold a_put (filter (\<lambda>c. c \<noteq> 0) (read_bytes (mem s) buf (nat n))) (abs_screen s)"
proof -
  let ?cs = "filter (\<lambda>c. c \<noteq> 0) (read_bytes (mem s) buf (nat n))"
  let ?u = "put_string ?cs (cli s)"
  have ok: "cursor_ok (cli s)" using assms(2) by (simp add: cursor_ok_def frame_simps)
  have "abs_screen (cli s) = abs_screen s" by (simp add: abs_screen_def frame_simps)
  then have "abs_screen ?u = fold a_put ?cs (abs_screen s)" "cursor_ok ?u"
    using put_string_abs [OF ok, of ?cs] put_string_cursor_ok [OF ok, of ?cs] by simp_all
  moreover have "screen_x (sti ?u) = screen_x ?u" "screen_y (sti ?u) = screen_y ?u" by (simp_all add: sti_def)
  ultimately have "abs_screen (sti ?u) = fold a_put ?cs (abs_screen s)" "cursor_ok (sti ?u)"
    by (simp_all add: abs_screen_def cursor_ok_def frame_simps)
  then show ?thesis using terminal_write_foreground [OF assms, of fd] by (simp add: frame_simps)
qed

theorem terminal_write_prints_witness:
  "\<exists>t. terminal_write 1 0x102000 3 tty_example = (3, t) \<and> interrupts t \<and> cursor_ok t
     \<and> abs_screen t = fold a_put (bytes ''abc'') (abs_screen tty_example)"
proof -
  have "foreground tty_example" "cursor_ok tty_example" "buffer_index (active tty_example) \<noteq> 128"
    by (simp_all add: foreground_def cursor_ok_def term_at_def tty_example_sel terminal_example_def)
  moreover have "disjoint_regions 0x102000 (nat 3) VIDEO 4000" by (simp add: disjoint_regions_def)
  moreover have "filter (\<lambda>c. c \<noteq> 0) (read_bytes (mem tty_example) 0x102000 (nat 3)) = bytes ''abc''"
    unfolding tty_example_sel by code_simp
  ultimately show ?thesis
    using terminal_write_prints [of tty_example "0x102000" 3 1] by simp
qed

text \<open>
  A background terminal does not wrap its lines: the test for the last column reads the cursor of the
  visible terminal, so while that is not in the last column every character moves the background cursor one further to the
  right, past column 79 and, in the end, past the 4000 bytes of the saved screen.
\<close>

lemma background_cursor_leaves_screen:
  assumes "length (terminal s) = 3" and "0 \<le> i" "i < 3" and "screen_x s \<noteq> 79"
  shows "x_position (term_at i (fold (active_terminal_handle_normal_char i) cs s))
     = x_position (term_at i s) + int (length cs)"
  using assms by (rule background_cursor_runs)

end
