(* ===== verification/Keyboard.thy ===== *)
theory Keyboard
  imports Terminal
begin

text \<open>
  The keyboard driver, \<^verbatim>\<open>src/student-distrib/keyboard.c\<close>: the four scan code tables, the modifier
  state, and the interrupt handler with all its cases. The scan code is what the keyboard presents
  at port \<open>0x60\<close>. The lemmas say which characters the tables produce, that the handler keeps the
  line buffers of the terminals well formed, and how typed characters become a line.
\<close>

section \<open>State\<close>

record kbd = tty +
  SHIFT_STATUS :: int
  ALT_STATUS :: int
  CAPS_STATUS :: int
  CTRL_STATUS :: int
  left_right_cursor_counter :: int
  left_right_cursor_offsetter :: int

abbreviation keyboard_IRQ :: u32 where "keyboard_IRQ \<equiv> 1"
abbreviation keyboard_port_address :: u16 where "keyboard_port_address \<equiv> 0x60"
abbreviation keyboard_max_buffer_size :: int where "keyboard_max_buffer_size \<equiv> 128"

section \<open>Scan code tables\<close>

text \<open>A table literal is padded with zeros to its declared length of 128.\<close>

definition table128 :: "u8 list \<Rightarrow> u8 list" where
  "table128 t = t @ replicate (128 - length t) 0"

text \<open>The entries from the key \<open>*\<close> on, which the four tables share.\<close>

definition keypad_entries :: "u8 list" where
  "keypad_entries = bytes ''*'' @ [0] @ bytes '' '' @ [0, 0, 0, 0, 0, 0, 0, 0, 0, 0, 0, 0, 0, 0, 0, 0]
     @ bytes ''-'' @ [0, 0, 0] @ bytes ''+'' @ [0, 0, 0, 0, 0, 0, 0, 0, 0, 0, 0]"

definition keyboard_scancode_regular :: "u8 list" where
  "keyboard_scancode_regular = table128 ([0, 27] @ bytes ''1234567890-='' @ [8, 9]
     @ bytes ''qwertyuiop[]'' @ [10, 0] @ bytes ''asdfghjkl;'' @ [39] @ bytes ''`'' @ [0, 92]
     @ bytes ''zxcvbnm,./'' @ [0] @ keypad_entries)"

definition keyboard_scancode_shift :: "u8 list" where
  "keyboard_scancode_shift = table128 ([0, 27] @ bytes ''!@#$%^&*()_+'' @ [8, 9]
     @ bytes ''QWERTYUIOP{}'' @ [10, 0] @ bytes ''ASDFGHJKL:'' @ [34] @ bytes ''~'' @ [0]
     @ bytes ''|ZXCVBNM<>?'' @ [0] @ keypad_entries)"

definition keyboard_scancode_caps :: "u8 list" where
  "keyboard_scancode_caps = table128 ([0, 27] @ bytes ''1234567890-='' @ [8, 9]
     @ bytes ''QWERTYUIOP[]'' @ [10, 0] @ bytes ''ASDFGHJKL;'' @ [39] @ bytes ''`'' @ [0, 92]
     @ bytes ''ZXCVBNM,./'' @ [0] @ keypad_entries)"

definition keyboard_scancode_shift_and_caps :: "u8 list" where
  "keyboard_scancode_shift_and_caps = table128 ([0, 27] @ bytes ''!@#$%^&*()_+'' @ [8, 9]
     @ bytes ''qwertyuiop{}'' @ [10, 0] @ bytes ''asdfghjkl:'' @ [34] @ bytes ''~'' @ [0]
     @ bytes ''|zxcvbnm<>?'' @ [0] @ keypad_entries)"

definition keypress_handler :: "nat \<Rightarrow> 'a kbd_scheme \<Rightarrow> u8" where
  "keypress_handler keypress s =
     (if 0 < keypress \<and> keypress < 128 then
        if SHIFT_STATUS s \<noteq> 0 \<and> CAPS_STATUS s = 0 then keyboard_scancode_shift ! keypress
        else if SHIFT_STATUS s = 0 \<and> CAPS_STATUS s \<noteq> 0 then keyboard_scancode_caps ! keypress
        else if SHIFT_STATUS s \<noteq> 0 \<and> CAPS_STATUS s \<noteq> 0 then keyboard_scancode_shift_and_caps ! keypress
        else keyboard_scancode_regular ! keypress
      else 0)"

section \<open>The handler\<close>

definition keyboard_initialize :: "'a kbd_scheme \<Rightarrow> 'a kbd_scheme" where
  "keyboard_initialize s =
     (let s = enable_irq keyboard_IRQ s;
          s = snd (terminal_open 0 s)
      in s\<lparr>active_terminal := 0, is_visible := 0, CAPS_STATUS := 0, SHIFT_STATUS := 0,
           CTRL_STATUS := 0, ALT_STATUS := 0\<rparr>)"

definition upd_active :: "(terminal_t \<Rightarrow> terminal_t) \<Rightarrow> 'a tty_scheme \<Rightarrow> 'a tty_scheme" where
  "upd_active f s = term_upd (active_terminal s) f s"

definition key_enter :: "'a kbd_scheme \<Rightarrow> 'a kbd_scheme" where
  "key_enter s =
     (let s = putc 10 s;
          s = upd_active (\<lambda>t. t\<lparr>read_index := buffer_index t, read_flag := 1, buffer_index := 0\<rparr>) s
      in s\<lparr>left_right_cursor_counter := 0, left_right_cursor_offsetter := 0\<rparr>)"

definition key_backspace :: "'a kbd_scheme \<Rightarrow> 'a kbd_scheme" where
  "key_backspace s =
     (let s = (if buffer_index (active s) < 0 then upd_active (\<lambda>t. t\<lparr>buffer_index := 0\<rparr>) s else s)
      in if buffer_index (active s) > 0 then
           let s = putc 8 s;
               s = upd_active (\<lambda>t. t\<lparr>buffer_index := buffer_index t - 1\<rparr>) s
           in s\<lparr>left_right_cursor_offsetter := left_right_cursor_offsetter s + 1\<rparr>
         else s)"

definition key_left :: "'a kbd_scheme \<Rightarrow> 'a kbd_scheme" where
  "key_left s =
     (if buffer_index (active s) \<le> 0 then s
      else let s = (if buffer_index (active s) > left_right_cursor_counter s
                    then s\<lparr>left_right_cursor_counter := buffer_index (active s)\<rparr> else s);
               s = upd_active (\<lambda>t. t\<lparr>buffer_index := buffer_index t - 1\<rparr>) s;
               s = s\<lparr>screen_x := screen_x s - 1\<rparr>
           in update_cursor (screen_x s) (screen_y s) s)"

text \<open>C's \<open>%\<close> truncates towards zero; both counters are never negative, where it is \<open>mod\<close>.\<close>

definition key_right :: "'a kbd_scheme \<Rightarrow> 'a kbd_scheme" where
  "key_right s =
     (if (left_right_cursor_counter s + left_right_cursor_offsetter s) mod NUM_COLS \<le> screen_x s then s
      else let s = (if left_right_cursor_offsetter s > 0
                    then s\<lparr>left_right_cursor_offsetter := left_right_cursor_offsetter s - 1\<rparr> else s);
               s = upd_active (\<lambda>t. t\<lparr>buffer_index := buffer_index t + 1\<rparr>) s;
               s = s\<lparr>screen_x := screen_x s + 1\<rparr>
           in update_cursor (screen_x s) (screen_y s) s)"

text \<open>ALT with F1, F2 or F3 shows the terminal 0, 1 or 2.\<close>

definition key_alt :: "nat \<Rightarrow> 'a kbd_scheme \<Rightarrow> 'a kbd_scheme" where
  "key_alt scancode s =
     (let show = (\<lambda>n s. (save_and_switch_term n (s\<lparr>is_visible := n\<rparr>))\<lparr>active_terminal := n\<rparr>)
      in if ALT_STATUS s = 1 then
           if scancode = 59 then show 0 s
           else if scancode = 60 then show 1 s
           else if scancode = 61 then show 2 s
           else s
         else s)"

definition key_char :: "u8 \<Rightarrow> 'a kbd_scheme \<Rightarrow> 'a kbd_scheme" where
  "key_char c s =
     (let t = active s
      in if buffer_index t < keyboard_max_buffer_size then
           let s = upd_active (\<lambda>t. t\<lparr>keyboard_buffer := (keyboard_buffer t)[nat (buffer_index t) := c]\<rparr>) s;
               s = snd (terminal_write_from
                     (\<lambda>i s. keyboard_buffer (active s) ! (nat (buffer_index (active s)) + i)) 1 s)
           in upd_active (\<lambda>t. t\<lparr>buffer_index := buffer_index t + 1\<rparr>) s
         else s)"

definition key_default :: "nat \<Rightarrow> 'a kbd_scheme \<Rightarrow> 'a kbd_scheme" where
  "key_default scancode s =
     (let s = key_alt scancode s;
          pressed_char = keypress_handler scancode s
      in if pressed_char = 0 then s
         else if CTRL_STATUS s \<noteq> 0 \<and> (pressed_char = byte CHR ''l'' \<or> pressed_char = byte CHR ''L'')
         then clear s
         else key_char pressed_char s)"

definition handle_scancode :: "nat \<Rightarrow> 'a kbd_scheme \<Rightarrow> 'a kbd_scheme" where
  "handle_scancode c s =
     (if c = 29 then s\<lparr>CTRL_STATUS := 1\<rparr>
      else if c = 157 then s\<lparr>CTRL_STATUS := 0\<rparr>
      else if c = 54 then s\<lparr>SHIFT_STATUS := 1\<rparr>
      else if c = 182 then s\<lparr>SHIFT_STATUS := 0\<rparr>
      else if c = 42 then s\<lparr>SHIFT_STATUS := 1\<rparr>
      else if c = 170 then s\<lparr>SHIFT_STATUS := 0\<rparr>
      else if c = 56 then s\<lparr>ALT_STATUS := 1\<rparr>
      else if c = 184 then s\<lparr>ALT_STATUS := 0\<rparr>
      else if c = 58 then s\<lparr>CAPS_STATUS := (if CAPS_STATUS s = 0 then 1 else 0)\<rparr>
      else if c = 28 then key_enter s
      else if c = 15 then putc 9 s
      else if c = 14 then key_backspace s
      else if c = 72 then s
      else if c = 80 then s
      else if c = 75 then key_left s
      else if c = 77 then key_right s
      else if c = 0 then s
      else key_default c s)"

definition keyboard_handler :: "'a kbd_scheme \<Rightarrow> 'a kbd_scheme" where
  "keyboard_handler s =
     (let s = cli s;
          s = send_eoi keyboard_IRQ s;
          keypress_scancode = unat (inb keyboard_port_address s)
      in sti (handle_scancode keypress_scancode s))"

section \<open>The lines of the terminals\<close>

text \<open>What matters for line input: everything else of a terminal changes freely while characters are echoed.\<close>

definition line_view :: "terminal_t \<Rightarrow> u8 list \<times> int \<times> int \<times> int \<times> u32" where
  "line_view t = (keyboard_buffer t, buffer_index t, read_index t, read_flag t, video_memory_storage_location t)"

definition views :: "'a tty_scheme \<Rightarrow> (u8 list \<times> int \<times> int \<times> int \<times> u32) list" where
  "views s = map line_view (terminal s)"

lemma length_views: "length (views s) = length (terminal s)"
  by (simp add: views_def)

lemma views_nth: "j < length (terminal s) \<Longrightarrow> views s ! j = line_view (terminal s ! j)"
  by (simp add: views_def)

lemma tty_wf_views:
  assumes "views s = views t" and "active_terminal s = active_terminal t"
  shows "tty_wf s = tty_wf t"
proof -
  have len: "length (terminal s) = length (terminal t)" using assms(1) by (metis length_views)
  show ?thesis
  proof (cases "length (terminal t) = 3")
    case True
    have "line_view (terminal s ! j) = line_view (terminal t ! j)" if "j < 3" for j
      using views_nth [of j s] views_nth [of j t] assms(1) len True that by simp
    then show ?thesis using len True assms(2) unfolding tty_wf_def list_all_iff by (simp add: line_view_def)
  next
    case False
    then show ?thesis using len by (simp add: tty_wf_def)
  qed
qed

lemma views_term_upd:
  assumes "\<And>t. line_view (f t) = line_view t"
  shows "views (term_upd i f s) = views s"
proof -
  have "map line_view ((terminal s)[k := f (terminal s ! k)]) = map line_view (terminal s)" for k
    using assms list_update_id [of "map line_view (terminal s)" k]
    by (cases "k < length (terminal s)") (simp_all add: map_update list_update_beyond)
  then show ?thesis by (simp add: views_def term_upd_def)
qed

lemma views_same_terminals: "terminal s = terminal t \<Longrightarrow> views s = views t"
  by (simp add: views_def)

lemma views_active_terminal_putc: "views (active_terminal_putc i c s) = views s"
  unfolding active_terminal_putc_def active_terminal_handle_enter_def active_terminal_handle_tab_def
    active_terminal_handle_backspace_def active_terminal_handle_normal_char_def active_terminal_scroll_up_def Let_def
  by (auto simp: views_term_upd line_view_def views_same_terminals [of "put_saved _ _ _"] frame_simps
      views_same_terminals [of "_\<lparr>mem := _\<rparr>"])

lemma active_terminal_putc_active: "active_terminal (active_terminal_putc i c s) = active_terminal s"
  unfolding active_terminal_putc_def active_terminal_handle_enter_def active_terminal_handle_tab_def
    active_terminal_handle_backspace_def active_terminal_handle_normal_char_def active_terminal_scroll_up_def Let_def
  by (auto simp: frame_simps)

lemma emit_views:
  "views (terminal_emit c s) = views s" "active_terminal (terminal_emit c s) = active_terminal s"
  by (simp_all add: terminal_emit_def views_active_terminal_putc active_terminal_putc_active frame_simps
      views_same_terminals [of "putc c s" s])

lemma views_fields [frame_simps]:
  "views (s\<lparr>interrupts := b\<rparr>) = views s" "views (s\<lparr>mem := m\<rparr>) = views s" "views (cli s) = views s"
  by (simp_all add: views_def cli_def)

lemma tty_wf_fields [frame_simps]:
  "tty_wf (s\<lparr>interrupts := b\<rparr>) = tty_wf s" "tty_wf (s\<lparr>mem := m\<rparr>) = tty_wf s"
  "tty_wf (s\<lparr>screen_x := x\<rparr>) = tty_wf s" "tty_wf (s\<lparr>screen_y := x\<rparr>) = tty_wf s"
  "tty_wf (s\<lparr>is_visible := x\<rparr>) = tty_wf s"
  by (simp_all add: tty_wf_def)

lemma tty_wf_kbd_fields [frame_simps]:
  "tty_wf (s\<lparr>left_right_cursor_counter := x\<rparr>) = tty_wf s" "tty_wf (s\<lparr>left_right_cursor_offsetter := x\<rparr>) = tty_wf s"
  "tty_wf (s\<lparr>SHIFT_STATUS := x\<rparr>) = tty_wf s" "tty_wf (s\<lparr>CTRL_STATUS := x\<rparr>) = tty_wf s"
  "tty_wf (s\<lparr>ALT_STATUS := x\<rparr>) = tty_wf s" "tty_wf (s\<lparr>CAPS_STATUS := x\<rparr>) = tty_wf s"
  by (simp_all add: tty_wf_def)

lemma write_from_views:
  "views (snd (terminal_write_from fetch n s)) = views s"
  "active_terminal (snd (terminal_write_from fetch n s)) = active_terminal s"
proof -
  have "views (fold (\<lambda>i s. terminal_emit (fetch i s) s) is u) = views u
      \<and> active_terminal (fold (\<lambda>i s. terminal_emit (fetch i s) s) is u) = active_terminal u" for "is" u
    by (induction "is" arbitrary: u) (simp_all add: emit_views)
  then show "views (snd (terminal_write_from fetch n s)) = views s"
    "active_terminal (snd (terminal_write_from fetch n s)) = active_terminal s"
    by (simp_all add: terminal_write_from_def frame_simps sti_def)
qed

lemma views_eqD:
  assumes "views s = views t" and "j < 3" and "length (terminal t) = 3"
  shows "line_view (terminal s ! j) = line_view (terminal t ! j)"
  using views_nth [of j s] views_nth [of j t] assms length_views [of s] length_views [of t] by simp

section \<open>Line editing\<close>

text \<open>The state of the line of the active terminal, and the well-formedness of the others, through an update.\<close>

lemma tty_wf_upd_active:
  assumes "tty_wf s"
    and "\<And>t. length (keyboard_buffer t) = 128 \<Longrightarrow> 0 \<le> buffer_index t \<Longrightarrow> buffer_index t \<le> 128 \<Longrightarrow> 0 \<le> read_index t \<Longrightarrow>
      t = active s \<Longrightarrow>
      video_memory_storage_location (f t) = video_memory_storage_location t \<and> length (keyboard_buffer (f t)) = 128
      \<and> 0 \<le> buffer_index (f t) \<and> buffer_index (f t) \<le> 128 \<and> 0 \<le> read_index (f t)"
  shows "tty_wf (upd_active f s)"
proof -
  have a: "0 \<le> active_terminal s" "active_terminal s < 3" "length (terminal s) = 3"
    using assms(1) by (simp_all add: tty_wf_def)
  have "nat (active_terminal s) < 3" using a by simp
  moreover note tty_wfD [OF assms(1) a(1,2)]
  ultimately show ?thesis
    using assms(1) a assms(2) [of "active s"]
    unfolding tty_wf_def upd_active_def term_upd_def term_at_def list_all_iff
    by (auto simp: nth_list_update)
qed

lemma tty_wf_putc: "tty_wf (putc c s) = tty_wf s"
  by (simp add: tty_wf_def frame_simps)

lemma update_cursor_kbd: "tty_wf (update_cursor x y s) = tty_wf s"
  by (simp add: tty_wf_def frame_simps)

lemma tty_wf_key_enter: "tty_wf s \<Longrightarrow> tty_wf (key_enter s)"
proof -
  assume "tty_wf s"
  then have "tty_wf (upd_active (\<lambda>t. t\<lparr>read_index := buffer_index t, read_flag := 1, buffer_index := 0\<rparr>) (putc 10 s))"
    by (intro tty_wf_upd_active) (simp_all add: tty_wf_putc)
  then show ?thesis by (simp add: key_enter_def Let_def frame_simps)
qed

lemma tty_wf_active_index:
  "tty_wf s \<Longrightarrow> 0 \<le> buffer_index (active s) \<and> buffer_index (active s) \<le> 128 \<and> length (keyboard_buffer (active s)) = 128"
  using tty_wfD [of s "active_terminal s"] by (simp add: tty_wf_def)

lemma tty_wf_key_backspace: "tty_wf s \<Longrightarrow> tty_wf (key_backspace s)"
proof (cases "buffer_index (active s) > 0")
  case True
  assume wf: "tty_wf s"
  have at: "active (putc 8 s) = active s" by (simp add: term_at_def frame_simps)
  have "tty_wf (upd_active (\<lambda>t. t\<lparr>buffer_index := buffer_index t - 1\<rparr>) (putc 8 s))"
    using wf True at by (intro tty_wf_upd_active) (simp_all add: tty_wf_putc)
  with True show ?thesis by (simp add: key_backspace_def Let_def frame_simps)
next
  case False
  moreover assume "tty_wf s"
  ultimately show ?thesis using tty_wf_active_index [of s] by (simp add: key_backspace_def)
qed

lemma tty_wf_key_left: "tty_wf s \<Longrightarrow> tty_wf (key_left s)"
proof (cases "buffer_index (active s) \<le> 0")
  case False
  assume wf: "tty_wf s"
  let ?s = "if buffer_index (active s) > left_right_cursor_counter s
      then s\<lparr>left_right_cursor_counter := buffer_index (active s)\<rparr> else s"
  have at: "active ?s = active s" by (simp add: term_at_def)
  have "tty_wf ?s" using wf by (simp add: frame_simps)
  then have "tty_wf (upd_active (\<lambda>t. t\<lparr>buffer_index := buffer_index t - 1\<rparr>) ?s)"
    using False at by (intro tty_wf_upd_active) simp_all
  with False show ?thesis by (simp add: key_left_def Let_def update_cursor_kbd frame_simps)
qed (simp add: key_left_def)

lemma tty_wf_key_alt: "tty_wf s \<Longrightarrow> tty_wf (key_alt c s)"
proof -
  assume wf: "tty_wf s"
  have "tty_wf ((save_and_switch_term n (s\<lparr>is_visible := n\<rparr>))\<lparr>active_terminal := n\<rparr>)" if "n \<in> {0, 1, 2}" for n
    using tty_wf_switch [of "s\<lparr>is_visible := n\<rparr>" n] wf that by (auto simp: frame_simps) (auto simp: tty_wf_def)
  with wf show ?thesis by (simp add: key_alt_def Let_def)
qed

text \<open>A character key: the character is stored at the end of the line, which grows by one.\<close>

lemma key_char_views:
  assumes wf: "tty_wf s" and room: "buffer_index (active s) < 128"
  shows "line_view (active (key_char c s)) =
      ((keyboard_buffer (active s))[nat (buffer_index (active s)) := c], buffer_index (active s) + 1,
       read_index (active s), read_flag (active s), video_memory_storage_location (active s))"
    and "active_terminal (key_char c s) = active_terminal s" and "tty_wf (key_char c s)"
proof -
  let ?f = "\<lambda>t. t\<lparr>keyboard_buffer := (keyboard_buffer t)[nat (buffer_index t) := c]\<rparr>"
  let ?g = "\<lambda>t. t\<lparr>buffer_index := buffer_index t + 1\<rparr>"
  let ?u = "upd_active ?f s"
  let ?w = "snd (terminal_write_from (\<lambda>i s. keyboard_buffer (active s) ! (nat (buffer_index (active s)) + i)) 1 ?u)"
  have k: "key_char c s = upd_active ?g ?w" using room by (simp add: key_char_def Let_def)
  have a: "0 \<le> active_terminal s" "active_terminal s < 3" "length (terminal s) = 3" "nat (active_terminal s) < 3"
    using wf by (auto simp: tty_wf_def)
  have u: "active_terminal ?u = active_terminal s" "length (terminal ?u) = 3" "active ?u = ?f (active s)"
    using a by (simp_all add: upd_active_def term_upd_def term_at_def)
  have wfu: "tty_wf ?u" using wf by (intro tty_wf_upd_active) simp_all
  have w: "active_terminal ?w = active_terminal s" "views ?w = views ?u" using u by (simp_all add: write_from_views)
  have lw: "length (terminal ?w) = 3" using arg_cong [OF w(2), of length] u(2) by (simp only: length_views)
  have wfw: "tty_wf ?w" using wfu tty_wf_views [OF w(2)] w(1) u(1) by simp
  have vw: "line_view (active ?w) = line_view (?f (active s))"
    using views_eqD [OF w(2) a(4) u(2)] w(1) u(1,3) by (simp add: term_at_def)
  have ak: "active (key_char c s) = ?g (active ?w)" "active_terminal (key_char c s) = active_terminal s"
    unfolding k using w(1) lw a by (simp_all add: upd_active_def term_upd_def term_at_def)
  then show "active_terminal (key_char c s) = active_terminal s" by simp
  show "line_view (active (key_char c s)) =
      ((keyboard_buffer (active s))[nat (buffer_index (active s)) := c], buffer_index (active s) + 1,
       read_index (active s), read_flag (active s), video_memory_storage_location (active s))"
    using vw ak(1) by (simp add: line_view_def)
  have "buffer_index (active ?w) < 128" using vw room by (simp add: line_view_def)
  then show "tty_wf (key_char c s)" unfolding k using wfw by (intro tty_wf_upd_active) simp_all
qed

lemma tty_wf_key_char: "tty_wf s \<Longrightarrow> tty_wf (key_char c s)"
proof (cases "buffer_index (active s) < 128")
  case True
  then show "tty_wf s \<Longrightarrow> tty_wf (key_char c s)" by (simp add: key_char_views)
next
  case False
  then show "tty_wf s \<Longrightarrow> tty_wf (key_char c s)" by (simp add: key_char_def)
qed

lemma tty_wf_clear: "tty_wf (clear s) = tty_wf s"
  by (simp add: clear_def update_cursor_kbd) (simp add: tty_wf_def)

lemma tty_wf_key_default: "tty_wf s \<Longrightarrow> tty_wf (key_default c s)"
  by (simp add: key_default_def Let_def tty_wf_key_alt tty_wf_clear tty_wf_key_char)

lemma tty_wf_handle_scancode: "tty_wf s \<Longrightarrow> c \<noteq> 77 \<Longrightarrow> tty_wf (handle_scancode c s)"
  by (simp add: handle_scancode_def frame_simps tty_wf_key_enter tty_wf_key_backspace tty_wf_key_left
      tty_wf_key_default tty_wf_putc)

section \<open>Typing a line\<close>

text \<open>A key press as the machine delivers it: the scan code at the port, then the handler.\<close>

definition key_event :: "nat \<Rightarrow> 'a kbd_scheme \<Rightarrow> 'a kbd_scheme" where
  "key_event k s = keyboard_handler (s\<lparr>port_in := (port_in s)(0x60 := word_of_nat k)\<rparr>)"

text \<open>
  A plain key: not one of the keys the handler treats itself, and with a character in the table that
  the modifiers select.
\<close>

definition special_keys :: "nat list" where
  "special_keys = [29, 157, 54, 182, 42, 170, 56, 184, 58, 28, 15, 14, 72, 80, 75, 77, 0]"

definition plain_key :: "'a kbd_scheme \<Rightarrow> nat \<Rightarrow> bool" where
  "plain_key s k \<longleftrightarrow> k < 256 \<and> k \<notin> set special_keys \<and> keypress_handler k s \<noteq> 0"

definition no_modifiers :: "'a kbd_scheme \<Rightarrow> bool" where
  "no_modifiers s \<longleftrightarrow> ALT_STATUS s = 0 \<and> CTRL_STATUS s = 0"

lemma kbd_more:
  assumes "tty.more s = tty.more (t :: 'a kbd_scheme)"
  shows "SHIFT_STATUS s = SHIFT_STATUS t" "ALT_STATUS s = ALT_STATUS t" "CAPS_STATUS s = CAPS_STATUS t"
    "CTRL_STATUS s = CTRL_STATUS t" "keypress_handler k s = keypress_handler k t"
    "plain_key s k = plain_key t k" "no_modifiers s = no_modifiers t"
proof -
  show *: "SHIFT_STATUS s = SHIFT_STATUS t" "ALT_STATUS s = ALT_STATUS t" "CAPS_STATUS s = CAPS_STATUS t"
    "CTRL_STATUS s = CTRL_STATUS t"
    using assms by (cases s; cases t; simp)+
  show "keypress_handler k s = keypress_handler k t" using * by (simp add: keypress_handler_def)
  then show "plain_key s k = plain_key t k" by (simp add: plain_key_def)
  show "no_modifiers s = no_modifiers t" using * by (simp add: no_modifiers_def)
qed

lemma putc_tty_more [frame_simps]: "tty.more (putc c s) = tty.more s"
  by (simp add: putc_def putc_defs Let_def frame_simps)

lemma emit_tty_more [frame_simps]: "tty.more (terminal_emit c s) = tty.more s"
  unfolding terminal_emit_def active_terminal_putc_def active_terminal_handle_enter_def active_terminal_handle_tab_def
    active_terminal_handle_backspace_def active_terminal_handle_normal_char_def active_terminal_scroll_up_def
    put_saved_def Let_def
  by (auto simp: frame_simps)

lemma write_from_tty_more [frame_simps]: "tty.more (snd (terminal_write_from fetch n s)) = tty.more s"
proof -
  have "tty.more (fold (\<lambda>i s. terminal_emit (fetch i s) s) is u) = tty.more u" for "is" u
    by (induction "is" arbitrary: u) (simp_all add: frame_simps)
  then show ?thesis by (simp add: terminal_write_from_def cli_def sti_def)
qed

lemma key_char_more: "tty.more (key_char c s) = tty.more s"
  by (simp add: key_char_def Let_def upd_active_def frame_simps)

text \<open>The state as far as line input sees it, which the entry and exit of the handler keep.\<close>

lemma handler_entry:
  fixes s :: "'a kbd_scheme" and p :: "u16 \<Rightarrow> u8"
  defines "u \<equiv> send_eoi keyboard_IRQ (cli (s\<lparr>port_in := p\<rparr>))"
  shows "terminal u = terminal s" "active_terminal u = active_terminal s" "tty.more u = tty.more s" "port_in u = p"
  unfolding u_def by (simp_all add: send_eoi_def Let_def cli_def outb_def)

lemma sti_kbd [frame_simps]:
  "terminal (sti s) = terminal s" "active_terminal (sti s) = active_terminal s" "tty.more (sti s) = tty.more s"
  by (simp_all add: sti_def)

lemma sti_views [frame_simps]: "tty_wf (sti s) = tty_wf s" "term_at i (sti s) = term_at i s"
  by (simp_all add: tty_wf_def term_at_def frame_simps)

lemma key_event_plain:
  assumes "plain_key s k" and "no_modifiers s" and wf: "tty_wf s" and room: "buffer_index (active s) < 128"
  shows "line_view (active (key_event k s)) =
      ((keyboard_buffer (active s))[nat (buffer_index (active s)) := keypress_handler k s],
       buffer_index (active s) + 1, read_index (active s), read_flag (active s),
       video_memory_storage_location (active s))"
    and "active_terminal (key_event k s) = active_terminal s" and "tty_wf (key_event k s)"
    and "tty.more (key_event k s) = tty.more s"
proof -
  let ?p = "(port_in s)(0x60 := word_of_nat k)"
  let ?u = "send_eoi keyboard_IRQ (cli (s\<lparr>port_in := ?p\<rparr>))"
  note u = handler_entry [where s = s and p = ?p]
  note mods = kbd_more [OF u(3)]
  have k: "k < 256" "k \<notin> set special_keys" "keypress_handler k ?u \<noteq> 0" "ALT_STATUS ?u = 0" "CTRL_STATUS ?u = 0"
    using assms(1,2) mods(2,4,5) unfolding plain_key_def no_modifiers_def by simp_all
  have "handle_scancode k ?u = key_char (keypress_handler k ?u) ?u"
    using k(2-5) by (simp add: handle_scancode_def special_keys_def key_default_def key_alt_def Let_def)
  moreover have "unat (inb keyboard_port_address ?u) = k"
    using k(1) u(4) by (simp add: inb_def unat_of_nat take_bit_nat_eq_self)
  ultimately have e: "key_event k s = sti (key_char (keypress_handler k s) ?u)"
    using mods(5) by (simp add: key_event_def keyboard_handler_def Let_def)
  have "tty_wf ?u" using wf u by (simp add: tty_wf_def)
  moreover have at: "active ?u = active s" using u by (simp add: term_at_def)
  ultimately have kc: "tty_wf ?u" "buffer_index (active ?u) < 128" using room by simp_all
  show "line_view (active (key_event k s)) =
      ((keyboard_buffer (active s))[nat (buffer_index (active s)) := keypress_handler k s],
       buffer_index (active s) + 1, read_index (active s), read_flag (active s),
       video_memory_storage_location (active s))"
    using key_char_views(1) [OF kc] at by (simp add: e frame_simps)
  show "active_terminal (key_event k s) = active_terminal s" "tty_wf (key_event k s)"
    "tty.more (key_event k s) = tty.more s"
    using key_char_views(2,3) [OF kc] u(2,3) by (simp_all add: e frame_simps key_char_more)
qed

lemma type_keys:
  "list_all (plain_key s) ks \<Longrightarrow> no_modifiers s \<Longrightarrow> tty_wf s \<Longrightarrow>
   buffer_index (active s) + int (length ks) \<le> 128 \<Longrightarrow> read_flag (active s) \<noteq> 1 \<Longrightarrow>
   \<exists>t. wait_line (map key_event ks @ es) s = wait_line es t \<and> tty_wf t \<and> read_flag (active t) \<noteq> 1
     \<and> buffer_index (active t) = buffer_index (active s) + int (length ks)
     \<and> take (nat (buffer_index (active t))) (keyboard_buffer (active t))
        = take (nat (buffer_index (active s))) (keyboard_buffer (active s)) @ map (\<lambda>k. keypress_handler k s) ks"
proof (induction ks arbitrary: s)
  case Nil
  then show ?case by auto
next
  case (Cons k ks)
  let ?u = "key_event k s" and ?i = "nat (buffer_index (active s))"
  have room: "buffer_index (active s) < 128" using Cons.prems(4) by simp
  have pk: "plain_key s k" using Cons.prems(1) by simp
  note u = key_event_plain [OF pk Cons.prems(2,3) room]
  note mods = kbd_more [OF u(4)]
  have v: "keyboard_buffer (active ?u) = (keyboard_buffer (active s))[?i := keypress_handler k s]"
    "buffer_index (active ?u) = buffer_index (active s) + 1" "read_flag (active ?u) = read_flag (active s)"
    using u(1) by (simp_all add: line_view_def)
  have i: "0 \<le> buffer_index (active s)" "length (keyboard_buffer (active s)) = 128"
    using tty_wf_active_index [OF Cons.prems(3)] by simp_all
  have "\<exists>t. wait_line (map key_event ks @ es) ?u = wait_line es t \<and> tty_wf t \<and> read_flag (active t) \<noteq> 1
     \<and> buffer_index (active t) = buffer_index (active ?u) + int (length ks)
     \<and> take (nat (buffer_index (active t))) (keyboard_buffer (active t))
        = take (nat (buffer_index (active ?u))) (keyboard_buffer (active ?u)) @ map (\<lambda>k. keypress_handler k ?u) ks"
    using Cons.prems u(3) v mods by (intro Cons.IH) (simp_all add: list_all_iff)
  moreover have "take (nat (buffer_index (active ?u))) (keyboard_buffer (active ?u))
      = take ?i (keyboard_buffer (active s)) @ [keypress_handler k s]"
    using i room unfolding v(1,2) by (simp add: nat_add_distrib take_Suc_conv_app_nth take_update_cancel)
  moreover have "wait_line (map key_event (k # ks) @ es) s = wait_line (map key_event ks @ es) ?u"
    using Cons.prems(5) by simp
  ultimately show ?case using v(2) mods(5) by (auto simp: algebra_simps)
qed

lemma key_event_enter:
  assumes wf: "tty_wf s"
  defines "t \<equiv> key_event 28 s"
  shows "read_flag (active t) = 1" "read_index (active t) = buffer_index (active s)"
    "keyboard_buffer (active t) = keyboard_buffer (active s)" "tty_wf t"
proof -
  let ?p = "(port_in s)(0x60 := word_of_nat 28)"
  let ?u = "send_eoi keyboard_IRQ (cli (s\<lparr>port_in := ?p\<rparr>))"
  note u = handler_entry [where s = s and p = ?p]
  have "unat (inb keyboard_port_address ?u) = 28" using u(4) by (simp add: inb_def)
  then have t: "t = sti (key_enter ?u)"
    by (simp add: t_def key_event_def keyboard_handler_def Let_def handle_scancode_def)
  have a: "0 \<le> active_terminal s" "active_terminal s < 3" "length (terminal s) = 3"
    using wf by (auto simp: tty_wf_def)
  have "tty_wf ?u" using wf u by (simp add: tty_wf_def)
  then show "tty_wf t" unfolding t by (simp add: frame_simps tty_wf_key_enter)
  have "active t = (active s)\<lparr>read_index := buffer_index (active s), read_flag := 1, buffer_index := 0\<rparr>"
    unfolding t using a u
    by (simp add: frame_simps key_enter_def Let_def upd_active_def term_upd_def term_at_def)
  then show "read_flag (active t) = 1" "read_index (active t) = buffer_index (active s)"
    "keyboard_buffer (active t) = keyboard_buffer (active s)" by simp_all
qed

lemma typed_line:
  assumes "list_all (plain_key s) ks" and "no_modifiers s" and "tty_wf s" and "buffer_index (active s) = 0"
    and "length ks \<le> 128" and "read_flag (active s) \<noteq> 1" and "buf \<noteq> 0" and "0 < nbytes"
  shows "\<exists>t. terminal_read (map key_event (ks @ [28])) fd buf nbytes s = Some (int (length ks) + 1, t)
     \<and> read_bytes (mem t) buf (length ks + 2) = map (\<lambda>k. keypress_handler k s) ks @ [10, 0]
     \<and> read_flag (active t) = 0"
proof -
  let ?cs = "map (\<lambda>k. keypress_handler k s) ks"
  obtain u where u: "wait_line (map key_event (ks @ [28])) s = wait_line [key_event 28] u" "tty_wf u"
    "read_flag (active u) \<noteq> 1" "buffer_index (active u) = int (length ks)"
    "take (length ks) (keyboard_buffer (active u)) = ?cs"
    using type_keys [OF assms(1-3), of "[key_event 28]"] assms(4-6) by auto
  let ?v = "key_event 28 u"
  note v = key_event_enter [OF u(2)]
  have w: "wait_line (map key_event (ks @ [28])) s = Some ?v" using u v(1) by simp
  have "read_index (active ?v) \<le> 128" using v(2) u(4) assms(5) by simp
  from copy_line_reads [OF v(4) this, of buf]
  have c: "copy_line buf ?v = (int (length ks) + 1, term_upd (active_terminal ?v)
      (\<lambda>t. t\<lparr>read_index := int (length ks) + 1, read_flag := 0\<rparr>) (?v\<lparr>mem := write_bytes (mem ?v) buf (?cs @ [10, 0])\<rparr>))"
    using v(2,3) u(4,5) by simp
  let ?t = "term_upd (active_terminal ?v) (\<lambda>t. t\<lparr>read_index := int (length ks) + 1, read_flag := 0\<rparr>)
      (?v\<lparr>mem := write_bytes (mem ?v) buf (?cs @ [10, 0])\<rparr>)"
  have "read_bytes (mem ?t) buf (length ks + 2) = ?cs @ [10, 0]"
    using read_write_bytes [of "?cs @ [10, 0]" "mem ?v" buf] assms(5) by (simp add: frame_simps)
  moreover have "read_flag (active ?t) = 0"
  proof -
    have "0 \<le> active_terminal ?v" "active_terminal ?v < 3" "length (terminal ?v) = 3"
      using v(4) by (simp_all add: tty_wf_def)
    then show ?thesis by (simp add: term_upd_def term_at_def)
  qed
  moreover have "terminal_read (map key_event (ks @ [28])) fd buf nbytes s = Some (int (length ks) + 1, ?t)"
    using w c assms(7,8) unfolding terminal_read_def by simp
  ultimately show ?thesis by blast
qed

section \<open>Properties\<close>


definition kbd_example :: kbd where
  "kbd_example = tty.extend tty_example \<lparr>SHIFT_STATUS = 0, ALT_STATUS = 0, CAPS_STATUS = 0, CTRL_STATUS = 0,
     left_right_cursor_counter = 0, left_right_cursor_offsetter = 0\<rparr>"

lemma kbd_example_sel:
  "SHIFT_STATUS kbd_example = 0" "ALT_STATUS kbd_example = 0" "CAPS_STATUS kbd_example = 0" "CTRL_STATUS kbd_example = 0"
  "left_right_cursor_counter kbd_example = 0" "left_right_cursor_offsetter kbd_example = 0"
  "terminal kbd_example = [terminal_example 0, terminal_example 1, terminal_example 2]"
  "active_terminal kbd_example = 0" "screen_x kbd_example = 0" "screen_y kbd_example = 0"
  "mem kbd_example = fs_example_mem"
  using tty_example_sel by (simp_all add: kbd_example_def tty.defs)

lemma kbd_example_wf: "tty_wf kbd_example"
  by (simp add: tty_wf_def kbd_example_sel upt_rec terminal_example_def)


text \<open>
  C29. The handler keeps the terminals well formed: for every scan code but that of the right arrow, the
  line buffers keep their length and every line index stays between 0 and 128, whatever the state of the modifiers.
\<close>

theorem handler_keeps_lines:
  "tty_wf s \<Longrightarrow> c \<noteq> 77 \<Longrightarrow> tty_wf (handle_scancode c s)"
  by (rule tty_wf_handle_scancode)

theorem handler_keeps_lines_witness: "tty_wf (handle_scancode 38 kbd_example)"
  using handler_keeps_lines [OF kbd_example_wf, of 38] by simp

text \<open>
  The right arrow has no bound: it moves the end of the line one further whenever the counters, taken
  modulo the width of the screen, are beyond the cursor column, even when the line is already full, and the
  next line that is read then reaches behind the 128 bytes of the keyboard buffer.
\<close>

lemma right_arrow_passes_buffer:
  assumes "tty_wf s"
    and "screen_x s < (left_right_cursor_counter s + left_right_cursor_offsetter s) mod NUM_COLS"
  shows "buffer_index (active (handle_scancode 77 s)) = buffer_index (active s) + 1"
proof -
  have "0 \<le> active_terminal s" "active_terminal s < 3" "length (terminal s) = 3"
    using assms(1) by (simp_all add: tty_wf_def)
  then show ?thesis
    using assms(2)
    by (simp add: handle_scancode_def key_right_def Let_def upd_active_def term_upd_def term_at_def frame_simps)
qed

definition full_line :: kbd where
  "full_line = (term_upd 0 (\<lambda>t. t\<lparr>buffer_index := 128\<rparr>) kbd_example)\<lparr>left_right_cursor_counter := 128, screen_x := 7\<rparr>"

definition to_upper :: "u8 \<Rightarrow> u8" where
  "to_upper c = (if 97 \<le> c \<and> c \<le> 122 then c - 32 else c)"

definition to_lower :: "u8 \<Rightarrow> u8" where
  "to_lower c = (if 65 \<le> c \<and> c \<le> 90 then c + 32 else c)"

text \<open>
  The tables agree with each other: caps lock changes the letters and nothing else, and reverses the
  effect of shift on them; shift gives the capital of every letter.
\<close>

lemma scancode_tables_consistent:
  "keyboard_scancode_caps = map to_upper keyboard_scancode_regular
     \<and> keyboard_scancode_shift_and_caps = map to_lower keyboard_scancode_shift
     \<and> list_all2 (\<lambda>r c. c = to_upper r \<or> to_upper r = r) keyboard_scancode_regular keyboard_scancode_shift
     \<and> length keyboard_scancode_regular = 128"
  by code_simp

end
