(* ===== verification/Process.thy ===== *)
theory Process
  imports Keyboard
begin

text \<open>
  Process control blocks: the structures of \<^verbatim>\<open>src/student-distrib/systemcalls.h\<close> and the helpers of
  \<^verbatim>\<open>systemcalls.c\<close> that create and find them, and the file and directory drivers of
  \<^verbatim>\<open>filesystem.c\<close>, which work on the descriptor table of the current process. The control blocks
  are a typed heap indexed by their address; the current one is found from the stack pointer. A pointer to an operation
  table is a constructor of \<open>op_table\<close>, with \<open>Wild\<close> for a word that is not the address of
  a table. Indexing a descriptor outside 0 to 7 reads whatever memory is there, which the
  state component \<open>oob_fd\<close> stands for; an operation that would write or call through such an index returns \<open>None\<close>.
\<close>

section \<open>State\<close>

datatype op_table = NULL | term_table | rtc_table | directory_table | file_table | Wild u32

record file_descriptor_t =
  descriptor_op_ptr :: op_table
  inode_num :: u32
  file_pos :: u32
  flags :: u32

record pcb_t =
  file_descriptor_array :: "file_descriptor_t list"
  pcb_esp :: u32
  pcb_ebp :: u32
  pcb_process_num :: u32
  arguments :: "u8 list"

text \<open>
  Registers, control blocks, the two process tables, and the physical frames of the user pages that
  are not mapped at the moment.
\<close>

record process = kbd +
  esp :: u32
  ebp :: u32
  pcbs :: "u32 \<Rightarrow> pcb_t"
  oob_fd :: "u32 \<Rightarrow> int \<Rightarrow> file_descriptor_t"
  pcb_occupants :: "int list"
  process_previous :: "int list"
  frames :: "u32 \<Rightarrow> u32 \<Rightarrow> u8"

text \<open>Addresses of local variables and literals, chosen by the compiler.\<close>

record locals =
  l_file_name :: u32
  l_args :: u32
  l_dentry :: u32
  l_buf :: u32
  l_enter :: u32
  l_init_frequency :: u32
  l_shell :: u32
  l_ring3_esp :: u32

abbreviation OUT_OF_USE :: u32 where "OUT_OF_USE \<equiv> 0"

section \<open>Control blocks\<close>

definition get_pcb :: "'a process_scheme \<Rightarrow> u32" where
  "get_pcb s = 0xFFFFE000 AND esp s"

abbreviation this_pcb :: "'a process_scheme \<Rightarrow> pcb_t" where
  "this_pcb s \<equiv> pcbs s (get_pcb s)"

definition fd_at :: "int \<Rightarrow> 'a process_scheme \<Rightarrow> file_descriptor_t" where
  "fd_at fd s = (if 0 \<le> fd \<and> fd < 8 then file_descriptor_array (this_pcb s) ! nat fd
                 else oob_fd s (get_pcb s) fd)"

definition set_fd :: "u32 \<Rightarrow> nat \<Rightarrow> (file_descriptor_t \<Rightarrow> file_descriptor_t) \<Rightarrow> 'a process_scheme \<Rightarrow> 'a process_scheme" where
  "set_fd p i f s =
     s\<lparr>pcbs := (pcbs s)(p := (pcbs s p)\<lparr>file_descriptor_array :=
        (file_descriptor_array (pcbs s p))[i := f (file_descriptor_array (pcbs s p) ! i)]\<rparr>)\<rparr>"

definition stdio_fd :: file_descriptor_t where
  "stdio_fd = \<lparr>descriptor_op_ptr = term_table, inode_num = 0, file_pos = 0, flags = 1\<rparr>"

definition closed_fd :: file_descriptor_t where
  "closed_fd = \<lparr>descriptor_op_ptr = NULL, inode_num = 0, file_pos = 0, flags = OUT_OF_USE\<rparr>"

definition init_pcb :: "u32 \<Rightarrow> u32 \<Rightarrow> 'a process_scheme \<Rightarrow> int \<times> 'a process_scheme" where
  "init_pcb new_pcb pid s =
     (if new_pcb = 0 then (-1, s)
      else let s = set_fd new_pcb 0 (\<lambda>_. stdio_fd) s;
               s = set_fd new_pcb 1 (\<lambda>_. stdio_fd) s;
               s = fold (\<lambda>i. set_fd new_pcb i (\<lambda>_. closed_fd)) [2..<8] s
           in (0, s\<lparr>pcbs := (pcbs s)(new_pcb := (pcbs s new_pcb)\<lparr>pcb_process_num := pid\<rparr>)\<rparr>))"

definition populate_pcb :: "u32 \<Rightarrow> nat \<Rightarrow> u32 \<Rightarrow> u32 \<Rightarrow> op_table \<Rightarrow> u32 \<Rightarrow> 'a process_scheme \<Rightarrow> 'a process_scheme" where
  "populate_pcb p loc fl ino table_ptr pos s =
     (if p = 0 then s
      else set_fd p loc (\<lambda>d. d\<lparr>flags := fl, inode_num := ino, descriptor_op_ptr := table_ptr, file_pos := pos\<rparr>) s)"

section \<open>The directory and file drivers\<close>

definition directory_read :: "locals \<Rightarrow> int \<Rightarrow> u32 \<Rightarrow> int \<Rightarrow> 'a process_scheme \<Rightarrow> (int \<times> 'a process_scheme) option" where
  "directory_read l fd buf nbytes s =
     (if \<not> (0 \<le> fd \<and> fd < 8) then None
      else let (r, s) = read_dentry_by_index (file_pos (fd_at fd s)) (l_dentry l) s
           in if r = -1 then Some (0, s)
              else let s = s\<lparr>mem := strncpy (mem s) buf (l_dentry l) NAME_SIZE\<rparr>;
                       s = set_fd (get_pcb s) (nat fd) (\<lambda>d. d\<lparr>file_pos := file_pos d + 1\<rparr>) s
                   in Some (32, s))"

definition directory_open :: "u32 \<Rightarrow> 'a process_scheme \<Rightarrow> int \<times> 'a process_scheme" where
  "directory_open filename s = (0, s)"

definition directory_close :: "int \<Rightarrow> 'a process_scheme \<Rightarrow> int \<times> 'a process_scheme" where
  "directory_close fd s = (0, s)"

definition directory_write :: "int \<Rightarrow> u32 \<Rightarrow> int \<Rightarrow> 'a process_scheme \<Rightarrow> int \<times> 'a process_scheme" where
  "directory_write fd buf nbytes s = (0, s)"

definition file_open :: "u32 \<Rightarrow> 'a process_scheme \<Rightarrow> int \<times> 'a process_scheme" where
  "file_open filename s = (0, s)"

definition file_close :: "int \<Rightarrow> 'a process_scheme \<Rightarrow> int \<times> 'a process_scheme" where
  "file_close fd s = (0, s)"

definition file_write :: "int \<Rightarrow> u32 \<Rightarrow> int \<Rightarrow> 'a process_scheme \<Rightarrow> int \<times> 'a process_scheme" where
  "file_write fd buf nbytes s = (0, s)"

definition file_read :: "int \<Rightarrow> u32 \<Rightarrow> int \<Rightarrow> 'a process_scheme \<Rightarrow> (int \<times> 'a process_scheme) option" where
  "file_read fd buf nbytes s =
     (if \<not> (0 \<le> fd \<and> fd < 8) then None
      else
        let d = fd_at fd s;
            length_of_curr_node = file_size s (mem s) (inode_num d)
        in if buf = 0 then Some (-1, put_string (bytes ''buffer in file read is empty '') s)
           else if flags d \<noteq> 1 then Some (-1, put_string (bytes ''pcb not in use '') s)
           else if descriptor_op_ptr d = NULL
           then Some (-1, put_string (bytes ''file descriptor arrays op table pointer is null'') s)
           else
             let file_offset = file_pos d;
                 (n, s) = (if nbytes > sint length_of_curr_node
                           then read_data (inode_num d) file_offset buf length_of_curr_node s
                           else read_data (inode_num d) file_offset buf (word_of_int nbytes) s);
                 n = (if length_of_curr_node > file_offset \<and> n = 0 then nbytes else n);
                 s = set_fd (get_pcb s) (nat fd) (\<lambda>d. d\<lparr>file_pos := file_pos d + word_of_int n\<rparr>) s
             in Some (n, s))"

section \<open>The user page\<close>

text \<open>
  Loading another process' page changes what the addresses of the user page mean: the bytes seen there so far belong
  to the frame that was mapped, and the bytes of the new frame become visible.
\<close>

definition user_frame_of :: "'a process_scheme \<Rightarrow> u32" where
  "user_frame_of s = pDirectory s ! 32 AND 0xFFC00000"

definition switch_user_page :: "int \<Rightarrow> 'a process_scheme \<Rightarrow> 'a process_scheme" where
  "switch_user_page pid s =
     (let s = (if bit (pDirectory s ! 32) 0
               then s\<lparr>frames := (frames s)(user_frame_of s := \<lambda>off. mem s (0x8000000 + off))\<rparr> else s);
          s = map_user_page pid s
      in s\<lparr>mem := \<lambda>x. if drop_bit 22 x = 32 then frames s (user_frame_of s) (x AND 0x3FFFFF) else mem s x\<rparr>)"

section \<open>Reading a file through its descriptor\<close>

lemma fs_functions_cong [frame_simps]:
  "file_size (s\<lparr>mem := m\<rparr>) = file_size s" "file_contents (s\<lparr>mem := m\<rparr>) = file_contents s"
  "fs_wf (s\<lparr>mem := m\<rparr>) = fs_wf s" "inode_wf (s\<lparr>mem := m\<rparr>) = inode_wf s"
  by (simp_all add: fun_eq_iff file_size_def inode_addr_def file_contents_def file_byte_def block_start_def
      num_index_nodes_def data_block_def fs_wf_def image_len_def num_data_blocks_def inode_wf_def file_blocks_def)

lemma file_read_step:
  assumes "0 \<le> fd" "fd < 8" "buf \<noteq> 0" "flags (fd_at fd s) = 1" "descriptor_op_ptr (fd_at fd s) \<noteq> NULL"
    and "(if nbytes > sint (file_size s (mem s) (inode_num (fd_at fd s)))
       then read_data (inode_num (fd_at fd s)) (file_pos (fd_at fd s)) buf (file_size s (mem s) (inode_num (fd_at fd s))) s
       else read_data (inode_num (fd_at fd s)) (file_pos (fd_at fd s)) buf (word_of_int nbytes) s) = (n, t)"
  shows "file_read fd buf nbytes s =
    (let n' = (if file_size s (mem s) (inode_num (fd_at fd s)) > file_pos (fd_at fd s) \<and> n = 0 then nbytes else n)
     in Some (n', set_fd (get_pcb t) (nat fd) (\<lambda>d. d\<lparr>file_pos := file_pos d + word_of_int n'\<rparr>) t))"
  using assms(1-5) by (simp add: file_read_def Let_def assms(6) split del: if_split cong: if_cong)

lemma file_read_reads:
  assumes fd: "0 \<le> fd" "fd < 8" and open_fd: "flags (fd_at fd s) = 1" "descriptor_op_ptr (fd_at fd s) \<noteq> NULL" and "buf \<noteq> 0"
    and wf: "fs_wf s (mem s)" "inode_wf s (mem s) (inode_num (fd_at fd s))"
    and n: "0 \<le> nbytes" "nbytes + int (unat (file_pos (fd_at fd s))) < 4294967296"
    and out: "outside_image s (mem s) buf
      (min (nat nbytes) (unat (file_size s (mem s) (inode_num (fd_at fd s))) - unat (file_pos (fd_at fd s))))"
  shows "file_read fd buf nbytes s =
    (let data = take (nat nbytes) (drop (unat (file_pos (fd_at fd s))) (file_contents s (mem s) (inode_num (fd_at fd s))))
     in Some (int (length data), set_fd (get_pcb s) (nat fd)
          (\<lambda>d. d\<lparr>file_pos := file_pos d + word_of_nat (length data)\<rparr>) (s\<lparr>mem := write_bytes (mem s) buf data\<rparr>)))"
proof -
  let ?ino = "inode_num (fd_at fd s)" and ?pos = "file_pos (fd_at fd s)"
  let ?size = "file_size s (mem s) ?ino" and ?c = "file_contents s (mem s) ?ino"
  let ?data = "take (nat nbytes) (drop (unat ?pos) ?c)"
  have small: "unat ?size \<le> 4190208" using wf(2) by (simp add: inode_wf_def)
  have ss: "sint ?size = int (unat ?size)" using small sint_small_of_nat [of "unat ?size"] by simp
  have rd: "(if nbytes > sint ?size then read_data ?ino ?pos buf ?size s
      else read_data ?ino ?pos buf (word_of_int nbytes) s) = (int (length ?data), s\<lparr>mem := write_bytes (mem s) buf ?data\<rparr>)"
  proof (cases "nbytes > sint ?size")
    case True
    then have gt: "unat ?size < nat nbytes" using ss n(1) by linarith
    then have all: "take (unat ?size) (drop (unat ?pos) ?c) = ?data" by simp
    have len: "unat ?size + unat ?pos < 4294967296" using n(2) gt by linarith
    have "min (unat ?size) (unat ?size - unat ?pos) = min (nat nbytes) (unat ?size - unat ?pos)" using gt by simp
    then have o: "outside_image s (mem s) buf (min (unat ?size) (unat ?size - unat ?pos))" using out by (simp only:)
    show ?thesis using read_data_reads [OF wf len o] True gt unfolding all by (simp add: Let_def)
  next
    case False
    have w: "unat (word_of_int nbytes :: u32) = nat nbytes" using n by (intro unat_of_int32; linarith)
    have len: "unat (word_of_int nbytes :: u32) + unat ?pos < 4294967296" using n unfolding w by linarith
    have o: "outside_image s (mem s) buf (min (unat (word_of_int nbytes :: u32)) (unat ?size - unat ?pos))"
      using out unfolding w .
    show ?thesis using read_data_reads [OF wf len o] False w by (simp add: Let_def)
  qed
  have zero: "(if ?size > ?pos \<and> int (length ?data) = 0 then nbytes else int (length ?data)) = int (length ?data)"
    using n(1) by (auto simp: word_less_nat_alt)
  have pcb: "get_pcb (s\<lparr>mem := m\<rparr>) = get_pcb s" for m by (simp add: get_pcb_def)
  from file_read_step [OF fd \<open>buf \<noteq> 0\<close> open_fd rd] show ?thesis
    unfolding Let_def zero pcb of_int_of_nat_eq .
qed

section \<open>Listing a directory\<close>

text \<open>
  Listing a directory: while the position of the descriptor is at most 16, \<open>directory_read\<close> delivers the name of
  the directory slot at the position, zero padded to 32 bytes, and moves on to the next slot. It always delivers 32 bytes,
  whatever number was asked for.
\<close>

lemma directory_read_lists:
  assumes "0 \<le> fd" "fd < 8" and pos: "file_pos (fd_at fd s) \<le> 16" and "l_dentry l \<noteq> 0"
    and d: "disjoint_regions (l_dentry l) 64 (g_directory_entries s) 1088"
    and b: "disjoint_regions buf 32 (l_dentry l) 32"
  shows "\<exists>m. directory_read l fd buf nbytes s = Some (32, set_fd (get_pcb s) (nat fd)
       (\<lambda>d. d\<lparr>file_pos := file_pos d + 1\<rparr>) (s\<lparr>mem := m\<rparr>))
     \<and> read_bytes m buf 32 = padded (dentry_name s (mem s) (unat (file_pos (fd_at fd s)))) 32
     \<and> (\<forall>x. \<not> in_region x buf 32 \<longrightarrow> \<not> in_region x (l_dentry l) 64 \<longrightarrow> m x = mem s x)"
proof -
  let ?i = "file_pos (fd_at fd s)" and ?t = "l_dentry l"
  let ?src = "dentry_addr s ?i"
  have i: "unat ?i \<le> 16" using pos by (simp add: word_le_nat_alt)
  have src: "?src = g_directory_entries s + word_of_nat (64 * unat ?i)" by (simp add: dentry_addr_def)
  have "disjoint_regions ?src 64 ?t 64"
    unfolding src using d i disjoint_regions_sym by (intro disjoint_regions_sub [of _ 1088]) auto
  then have safe: "copy_up_safe ?t ?src (unat (64 :: u32))"
    by (simp add: copy_up_safe_def disjoint_regions_def)
  let ?m1 = "memcpy (mem s) ?t ?src 64"
  have m1: "?m1 = write_bytes (mem s) ?t (read_bytes (mem s) ?src 64)"
    using memcpy_ref [OF safe, of "mem s"] by (simp add: copy_ref_def)
  have "read_bytes ?m1 ?t 64 = read_bytes (mem s) ?src 64"
    unfolding m1 using read_write_bytes [of "read_bytes (mem s) ?src 64" "mem s" ?t] by simp
  then have "take 32 (read_bytes ?m1 ?t 64) = take 32 (read_bytes (mem s) ?src 64)" by simp
  then have nm: "prefix_str ?m1 ?t 32 = dentry_name s (mem s) (unat ?i)"
    by (simp add: take_read_bytes prefix_str_def dentry_name_def)
  let ?m = "strncpy ?m1 buf ?t 32"
  have m: "?m = write_bytes ?m1 buf (padded (dentry_name s (mem s) (unat ?i)) 32)"
    using strncpy_padded [of buf 32 ?t ?m1] b nm by simp
  have len: "length (padded (dentry_name s (mem s) (unat ?i)) 32) = 32"
  proof -
    have "length (dentry_name s (mem s) (unat ?i)) \<le> 32"
      unfolding dentry_name_def prefix_str_def
      using length_takeWhile_le [of "\<lambda>c. c \<noteq> 0" "read_bytes (mem s) (dentry_addr s (word_of_nat (unat ?i))) 32"] by simp
    then show ?thesis by (simp add: padded_def)
  qed
  have "read_bytes ?m buf 32 = padded (dentry_name s (mem s) (unat ?i)) 32"
    unfolding m using read_write_bytes [of "padded (dentry_name s (mem s) (unat ?i)) 32" ?m1 buf] len by simp
  moreover have "?m x = mem s x" if "\<not> in_region x buf 32" "\<not> in_region x ?t 64" for x
  proof -
    have "?m x = ?m1 x" using that(1) len unfolding m by (simp add: write_bytes_outside)
    also have "\<dots> = mem s x" using that(2) unfolding m1 by (simp add: write_bytes_outside)
    finally show ?thesis .
  qed
  moreover have "directory_read l fd buf nbytes s = Some (32, set_fd (get_pcb s) (nat fd)
      (\<lambda>d. d\<lparr>file_pos := file_pos d + 1\<rparr>) (s\<lparr>mem := ?m\<rparr>))"
  proof -
    have "\<not> ?i > 16" using pos by simp
    then show ?thesis
      using assms(1,2,4) by (simp add: directory_read_def read_dentry_by_index_def Let_def get_pcb_def)
  qed
  ultimately show ?thesis by blast
qed

section \<open>The user page of a process\<close>

definition user_entry :: "nat \<Rightarrow> u32" where
  "user_entry pid = (EIGHTMB + FOURMB * word_of_nat pid) OR 0x87"

lemma user_entry_frame:
  "pid < 6 \<Longrightarrow> user_entry pid AND 0xFFC00000 = EIGHTMB + FOURMB * word_of_nat pid" "pid < 6 \<Longrightarrow> bit (user_entry pid) 0"
  using user_page_bits [of pid] by (simp_all add: user_entry_def)

lemma split_user_address: "drop_bit 22 x = 32 \<Longrightarrow> 0x8000000 + (x AND 0x3FFFFF) = (x :: u32)"
proof -
  assume d: "drop_bit 22 x = 32"
  have "push_bit 22 (drop_bit 22 x) + take_bit 22 x = x" by (rule bits_ident)
  moreover have "take_bit 22 x = x AND 0x3FFFFF" by (simp add: page_masks take_bit_eq_mask)
  ultimately show ?thesis using d by (simp add: push_bit_eq_mult)
qed

lemma switch_user_page_sel:
  assumes "length (pDirectory s) = 1024" and "pid < 6"
  shows "pDirectory (switch_user_page (int pid) s) = (pDirectory s)[32 := user_entry pid]"
    and "drop_bit 22 x \<noteq> 32 \<Longrightarrow> mem (switch_user_page (int pid) s) x = mem s x"
    and "drop_bit 22 x = 32 \<Longrightarrow> mem (switch_user_page (int pid) s) x
       = frames (switch_user_page (int pid) s) (EIGHTMB + FOURMB * word_of_nat pid) (x AND 0x3FFFFF)"
    and "bit (pDirectory s ! 32) 0 \<Longrightarrow> frames (switch_user_page (int pid) s)
       = (frames s)(pDirectory s ! 32 AND 0xFFC00000 := \<lambda>off. mem s (0x8000000 + off))"
  using assms user_entry_frame(1) [OF assms(2)]
  by (simp_all add: switch_user_page_def map_user_page_def user_frame_of_def Let_def user_entry_def)

lemma switch_user_page_back:
  assumes len: "length (pDirectory s) = 1024" and "p < 6" "q < 6" "p \<noteq> q" and cur: "pDirectory s ! 32 = user_entry p"
  shows "mem (switch_user_page (int p) (switch_user_page (int q) s)) x = mem s x"
proof (cases "drop_bit 22 x = 32")
  case False
  have "length (pDirectory (switch_user_page (int q) s)) = 1024"
    using switch_user_page_sel(1) [OF len assms(3)] len by simp
  with False show ?thesis
    using switch_user_page_sel(2) [OF _ assms(2)] switch_user_page_sel(2) [OF len assms(3)] by metis
next
  case True
  let ?F = "\<lambda>k. EIGHTMB + FOURMB * word_of_nat k :: u32"
  let ?u = "switch_user_page (int q) s"
  have b: "bit (pDirectory s ! 32) 0" using user_entry_frame(2) assms(2) cur by simp
  have u: "length (pDirectory ?u) = 1024" "pDirectory ?u ! 32 = user_entry q"
    using switch_user_page_sel(1) [OF len assms(3)] len by simp_all
  have bu: "bit (pDirectory ?u ! 32) 0" using user_entry_frame(2) assms(3) u by simp
  have "?F p \<noteq> ?F q" using user_frame_inj [of p q] assms by auto
  then have "frames (switch_user_page (int p) ?u) (?F p) = frames ?u (?F p)"
    using switch_user_page_sel(4) [OF u(1) assms(2) bu] u(2) user_entry_frame(1) [OF assms(3)] by simp
  also have "frames ?u (?F p) = (\<lambda>off. mem s (0x8000000 + off))"
    using switch_user_page_sel(4) [OF len assms(3) b] cur user_entry_frame(1) [OF assms(2)] by simp
  finally show ?thesis
    using switch_user_page_sel(3) [OF u(1) assms(2) True] split_user_address [OF True] by simp
qed

section \<open>Properties\<close>

text \<open>
  C21. Reading an open file. With a descriptor of a well-formed index node and a buffer outside the image, \<open>file_read\<close>
  returns the next bytes of the file from the descriptor's position on, at most the number asked for,
  and moves the position behind them; at the end of the file it returns 0.
\<close>

theorem file_read_correct:
  assumes "0 \<le> fd" "fd < 8" and "flags (fd_at fd s) = 1" "descriptor_op_ptr (fd_at fd s) \<noteq> NULL" and "buf \<noteq> 0"
    and "fs_wf s (mem s)" "inode_wf s (mem s) (inode_num (fd_at fd s))"
    and "0 \<le> nbytes" "nbytes + int (unat (file_pos (fd_at fd s))) < 4294967296"
    and "outside_image s (mem s) buf
      (min (nat nbytes) (unat (file_size s (mem s) (inode_num (fd_at fd s))) - unat (file_pos (fd_at fd s))))"
  shows "file_read fd buf nbytes s =
    (let data = take (nat nbytes) (drop (unat (file_pos (fd_at fd s))) (file_contents s (mem s) (inode_num (fd_at fd s))))
     in Some (int (length data), set_fd (get_pcb s) (nat fd)
          (\<lambda>d. d\<lparr>file_pos := file_pos d + word_of_nat (length data)\<rparr>) (s\<lparr>mem := write_bytes (mem s) buf data\<rparr>)))"
  using file_read_reads [OF assms(1,2) assms(3,4) assms(5) assms(6,7) assms(8,9) assms(10)] .

definition pcb_example :: pcb_t where
  "pcb_example = \<lparr>file_descriptor_array = [stdio_fd, stdio_fd,
       \<lparr>descriptor_op_ptr = file_table, inode_num = 0, file_pos = 1, flags = 1\<rparr>,
       closed_fd, closed_fd, closed_fd, closed_fd, closed_fd],
     pcb_esp = 0, pcb_ebp = 0, pcb_process_num = 0, arguments = replicate 32 0\<rparr>"

definition process_example :: process where
  "process_example = kbd.extend kbd_example \<lparr>esp = 0x7FFF00, ebp = 0x7FFF40, pcbs = (\<lambda>_. pcb_example),
     oob_fd = (\<lambda>_ _. closed_fd), pcb_occupants = [-1, 0, 0, 0, 0, 0], process_previous = [0, 0, 0, 0, 0, 0],
     frames = (\<lambda>_ _. 0)\<rparr>"

lemma process_example_sel:
  "g_b_block process_example = 0x100000" "g_index_nodes process_example = 0x101000"
  "g_directory_entries process_example = 0x100040" "mem process_example = fs_example_mem"
  "get_pcb process_example = 0x7FE000" "pcbs process_example = (\<lambda>_. pcb_example)"
  "pDirectory process_example = replicate 1024 0" "terminal process_example = terminal kbd_example"
  "pcb_occupants process_example = [-1, 0, 0, 0, 0, 0]" "process_previous process_example = [0, 0, 0, 0, 0, 0]"
  "active_terminal process_example = 0"
  by (simp_all add: process_example_def kbd.defs kbd_example_def tty.defs tty_example_def fs.defs fs_example_def
      paging.defs paging_example_def rtc.defs get_pcb_def)

lemma process_example_image:
  "fs_wf process_example = fs_wf fs_example" "inode_wf process_example = inode_wf fs_example"
  "file_contents process_example = file_contents fs_example" "file_size process_example = file_size fs_example"
  "image_len process_example = image_len fs_example"
  by (simp_all add: fun_eq_iff file_size_def inode_addr_def file_contents_def file_byte_def block_start_def
      num_index_nodes_def data_block_def fs_wf_def image_len_def num_data_blocks_def inode_wf_def file_blocks_def
      process_example_sel fs_example_sel)

lemma process_example_fd:
  "fd_at 2 process_example = \<lparr>descriptor_op_ptr = file_table, inode_num = 0, file_pos = 1, flags = 1\<rparr>"
  by (simp add: fd_at_def process_example_sel pcb_example_def)

theorem file_read_correct_witness:
  "\<exists>t. file_read 2 0x8000000 100 process_example = Some (2, t) \<and> mem t = write_bytes fs_example_mem 0x8000000 (bytes ''bc'')"
proof -
  have size: "file_size process_example (mem process_example) 0 = 3"
    using fs_example_image by (simp add: process_example_image process_example_sel)
  have "outside_image process_example (mem process_example) 0x8000000
      (min (nat 100) (unat (file_size process_example (mem process_example) (inode_num (fd_at 2 process_example)))
         - unat (file_pos (fd_at 2 process_example))))"
    using fs_example_image
    by (simp add: outside_image_def disjoint_regions_def process_example_image process_example_sel
        process_example_fd image_len_def)
  moreover have "fs_wf process_example (mem process_example)" "inode_wf process_example (mem process_example) 0"
    "file_contents process_example (mem process_example) 0 = bytes ''abc''"
    using fs_example_wf fs_example_contents by (simp_all add: process_example_image process_example_sel fs_example_sel)
  ultimately show ?thesis
    using file_read_correct [of 2 process_example "0x8000000" 100]
    by (simp add: process_example_fd Let_def) (simp add: set_fd_def process_example_sel)
qed

definition locals_example :: locals where
  "locals_example = \<lparr>l_file_name = 0x7FFD00, l_args = 0x7FFD40, l_dentry = 0x7FFD80, l_buf = 0x7FFDC0,
     l_enter = 0x7FFDC8, l_init_frequency = 0x7FFDD0, l_shell = 0x300000, l_ring3_esp = 0x7FFC00\<rparr>"



end
