(* ===== verification/Syscalls.thy ===== *)
theory Syscalls
  imports Process
begin

text \<open>
  The system calls of \<^verbatim>\<open>src/student-distrib/systemcalls.c\<close> and their dispatch in
  \<^verbatim>\<open>handlers.S\<close>. A call may return, enter a program in ring 3, or resume the
  caller of an earlier \<open>execute\<close>: these are the constructors of \<open>outcome\<close>. \<open>None\<close> is a call that does not come back: a
  string without end, a call through a pointer that is not an operation table, an index
  outside an array that is written through. Calls that wait are given the events that happen meanwhile, key presses
  and clock interrupts.
\<close>

datatype 's outcome = Return int 's | EnterUser u32 's | Resume u32 u32 u32 's

section \<open>Dispatch through the operation tables\<close>

fun table_open :: "locals \<Rightarrow> op_table \<Rightarrow> u32 \<Rightarrow> 'a process_scheme \<Rightarrow> (int \<times> 'a process_scheme) option" where
  "table_open l term_table filename s = Some (terminal_open filename s)"
| "table_open l rtc_table filename s = Some (rtc_open (l_init_frequency l) filename s)"
| "table_open l directory_table filename s = Some (directory_open filename s)"
| "table_open l file_table filename s = Some (file_open filename s)"
| "table_open l _ filename s = None"

fun table_close :: "op_table \<Rightarrow> int \<Rightarrow> 'a process_scheme \<Rightarrow> (int \<times> 'a process_scheme) option" where
  "table_close term_table fd s = Some (terminal_close fd s)"
| "table_close rtc_table fd s = Some (rtc_close fd s)"
| "table_close directory_table fd s = Some (directory_close fd s)"
| "table_close file_table fd s = Some (file_close fd s)"
| "table_close _ fd s = None"

fun table_read :: "locals \<Rightarrow> ('a process_scheme \<Rightarrow> 'a process_scheme) list \<Rightarrow> bool list \<Rightarrow>
    op_table \<Rightarrow> int \<Rightarrow> u32 \<Rightarrow> int \<Rightarrow> 'a process_scheme \<Rightarrow> (int \<times> 'a process_scheme) option" where
  "table_read l keys ticks term_table fd buf nbytes s = terminal_read keys fd buf nbytes s"
| "table_read l keys ticks rtc_table fd buf nbytes s = rtc_read ticks fd buf nbytes s"
| "table_read l keys ticks directory_table fd buf nbytes s = directory_read l fd buf nbytes s"
| "table_read l keys ticks file_table fd buf nbytes s = file_read fd buf nbytes s"
| "table_read l keys ticks _ fd buf nbytes s = None"

fun table_write :: "op_table \<Rightarrow> int \<Rightarrow> u32 \<Rightarrow> int \<Rightarrow> 'a process_scheme \<Rightarrow> (int \<times> 'a process_scheme) option" where
  "table_write term_table fd buf nbytes s = Some (terminal_write fd buf nbytes s)"
| "table_write rtc_table fd buf nbytes s = Some (rtc_write fd buf nbytes s)"
| "table_write directory_table fd buf nbytes s = Some (directory_write fd buf nbytes s)"
| "table_write file_table fd buf nbytes s = Some (file_write fd buf nbytes s)"
| "table_write _ fd buf nbytes s = None"

section \<open>Files\<close>

definition table_of_type :: "u32 \<Rightarrow> u32 \<Rightarrow> (op_table \<times> u32 \<times> u32) option" where
  "table_of_type type dentry_inode =
     (if type = 0 then Some (rtc_table, 0, - 1)
      else if type = 1 then Some (directory_table, 0, 0)
      else if type = 2 then Some (file_table, dentry_inode, 0)
      else None)"

definition free_fd :: "pcb_t \<Rightarrow> nat option" where
  "free_fd p = scan (\<lambda>d. flags d = 0) (take 8 (file_descriptor_array p))"

definition sys_open :: "locals \<Rightarrow> u32 \<Rightarrow> 'a process_scheme \<Rightarrow> (int \<times> 'a process_scheme) option" where
  "sys_open l filename s =
     (if mem s filename = 0 \<or> filename = 0
      then Some (-1, put_string (bytes ''invalid filename input to system calls open'') s)
      else do {
        (r, s) \<leftarrow> read_dentry_by_name filename (l_dentry l) s;
        if r = -1 then Some (-1, put_string (bytes ''read dentry by name failed : system calls open'') s)
        else
          case table_of_type (dentry_type (mem s) (l_dentry l)) (dentry_inode_num (mem s) (l_dentry l)) of
            None \<Rightarrow> Some (-1, s)
          | Some (table_ptr, index_node_num, pos) \<Rightarrow>
              case free_fd (this_pcb s) of
                None \<Rightarrow> Some (-1, s)
              | Some loc \<Rightarrow> do {
                  let s = populate_pcb (get_pcb s) loc 1 index_node_num table_ptr pos s;
                  (_, s) \<leftarrow> table_open l (descriptor_op_ptr (fd_at (int loc) s)) filename s;
                  Some (int loc, s)
                }
      })"

definition sys_close :: "int \<Rightarrow> 'a process_scheme \<Rightarrow> (int \<times> 'a process_scheme) option" where
  "sys_close fd s =
     (let s = (if fd = 0 then set_fd (get_pcb s) 0 (\<lambda>d. d\<lparr>descriptor_op_ptr := term_table\<rparr>) s else s)
      in if fd < 0 \<or> fd > 7 \<or> flags (fd_at fd s) = OUT_OF_USE \<or> fd = 1 \<or> fd = 0
         then Some (-1, put_string (bytes ''system calls close failed'') s)
         else let s = set_fd (get_pcb s) (nat fd) (\<lambda>d. d\<lparr>flags := OUT_OF_USE\<rparr>) s
              in table_close (descriptor_op_ptr (fd_at fd s)) fd s)"

definition sys_read :: "locals \<Rightarrow> ('a process_scheme \<Rightarrow> 'a process_scheme) list \<Rightarrow> bool list \<Rightarrow>
    int \<Rightarrow> u32 \<Rightarrow> int \<Rightarrow> 'a process_scheme \<Rightarrow> (int \<times> 'a process_scheme) option" where
  "sys_read l keys ticks fd buf nbytes s =
     (if flags (fd_at fd s) = OUT_OF_USE \<or> buf = 0 \<or> fd < 0 \<or> fd > 7 \<or> fd = 1
      then Some (-1, put_string (bytes ''system calls read failed'') s)
      else let s = (if fd = 0 then set_fd (get_pcb s) 0 (\<lambda>d. d\<lparr>descriptor_op_ptr := term_table\<rparr>) s else s)
           in table_read l keys ticks (descriptor_op_ptr (fd_at fd s)) fd buf nbytes s)"

definition sys_write :: "int \<Rightarrow> u32 \<Rightarrow> int \<Rightarrow> 'a process_scheme \<Rightarrow> (int \<times> 'a process_scheme) option" where
  "sys_write fd buf nbytes s =
     (if flags (fd_at fd s) = OUT_OF_USE \<or> fd = 0 \<or> buf = 0 \<or> fd < 0 \<or> fd > 7
      then Some (-1, put_string (bytes ''system calls write failed'') s)
      else table_write (descriptor_op_ptr (fd_at fd s)) fd buf nbytes s)"

definition getargs :: "u32 \<Rightarrow> int \<Rightarrow> 'a process_scheme \<Rightarrow> int \<times> 'a process_scheme" where
  "getargs buf nbytes s =
     (if arguments (this_pcb s) ! 0 = 0 then (-1, put_string (bytes ''No arguments '') s)
      else (0, s\<lparr>mem := write_bytes (mem s) buf (arguments (this_pcb s))\<rparr>))"

section \<open>Video memory\<close>

text \<open>
  The terminal that runs the current process: the C comparison of an \<open>int\<close> with a \<open>uint32_t\<close> is unsigned.
\<close>

definition process_terminal :: "'a process_scheme \<Rightarrow> nat option" where
  "process_terminal s =
     scan (\<lambda>t. word_of_int (process_num t) = pcb_process_num (this_pcb s)) (take 3 (terminal s))"

definition vidmap :: "u32 \<Rightarrow> 'a process_scheme \<Rightarrow> int \<times> 'a process_scheme" where
  "vidmap screen_start s =
     (if screen_start = 0 \<or> screen_start < 0x8000000
         \<or> screen_start > 0x8000000 + FOURMB * (word_of_int (active_terminal s) + 1) then (-1, s)
      else let process_term_num = (case process_terminal s of None \<Rightarrow> -1 | Some i \<Rightarrow> int i);
               s = s\<lparr>pDirectory := (pDirectory s)[nat (33 + process_term_num) := addr_videopTable s OR 7]\<rparr>;
               s = s\<lparr>videopTable := (videopTable s)[0 := (0xB8000 + word_of_int process_term_num) OR 7]\<rparr>;
               s = s\<lparr>cr3 := cr3 s\<rparr>;
               s = s\<lparr>mem := store32 (mem s) screen_start (0x8000000 + FOURMB * word_of_int (process_term_num + 1))\<rparr>
           in (sint screen_start, s))"

section \<open>Programs\<close>

text \<open>
  The loops of \<open>parse\<close>: zeroing both buffers, the length of the command word, and the copy. The two stores behind
  the buffers, at index 33 of 33 bytes, are the source's.
\<close>

partial_function (option) word_length :: "mem \<Rightarrow> u32 \<Rightarrow> u32 \<Rightarrow> u32 option" where
  "word_length m cmd i =
     (if m (cmd + i) \<noteq> byte CHR '' '' \<and> m (cmd + i) \<noteq> 0 then word_length m cmd (i + 1) else Some i)"

partial_function (option) parse_loop :: "mem \<Rightarrow> u32 \<Rightarrow> u32 \<Rightarrow> u32 \<Rightarrow> u32 \<Rightarrow> bool \<Rightarrow> u32 \<Rightarrow> mem option" where
  "parse_loop m cmd file arg cmd_length cmd_first i =
     (if m (cmd + i) \<noteq> 0 then
        if m (cmd + i) = byte CHR '' '' \<and> \<not> cmd_first
        then parse_loop m cmd file arg cmd_length True (i + 1)
        else if cmd_first
        then parse_loop (m(arg + (i - cmd_length - 1) := m (cmd + i))) cmd file arg cmd_length cmd_first (i + 1)
        else parse_loop (m(file + i := m (cmd + i))) cmd file arg cmd_length cmd_first (i + 1)
      else Some m)"

definition parse :: "u32 \<Rightarrow> u32 \<Rightarrow> u32 \<Rightarrow> 'a process_scheme \<Rightarrow> 'a process_scheme option" where
  "parse cmd file arg s =
     (if cmd = 0 \<or> file = 0 \<or> arg = 0
      then Some (put_string (bytes ''parse function inputs invalid: NULL '') s)
      else
        let m = (mem s)(arg + 33 := 0);
            m = m(file + 33 := 0);
            m = fold (\<lambda>i m. m(arg + word_of_nat i := 0)) [0..<33] m;
            m = fold (\<lambda>i m. m(file + word_of_nat i := 0)) [0..<33] m
        in do {
          cmd_length \<leftarrow> word_length m cmd 0;
          m \<leftarrow> parse_loop m cmd file arg cmd_length False 0;
          Some (s\<lparr>mem := m\<rparr>)
        })"

definition check_valid :: "locals \<Rightarrow> u32 \<Rightarrow> 'a process_scheme \<Rightarrow> (int \<times> 'a process_scheme) option" where
  "check_valid l fname s =
     (if fname = 0 then Some (-1, put_string (bytes ''check valid input filename is null '') s)
      else
        let s = s\<lparr>mem := fold (\<lambda>i m. m(l_buf l + word_of_nat i := 0)) [0..<4] (mem s)\<rparr>
        in do {
          (r, s) \<leftarrow> read_dentry_by_name fname (l_dentry l) s;
          if r = -1 then Some (-1, s)
          else
            let ino = dentry_inode_num (mem s) (l_dentry l);
                (bytes_read, s) = read_data ino 0 (l_buf l) 4 s
            in if bytes_read \<noteq> 4 then Some (-1, s)
               else if mem s (l_buf l) \<noteq> 0x7F \<and> mem s (l_buf l + 1) \<noteq> 0x45
                       \<and> mem s (l_buf l + 2) \<noteq> 0x4C \<and> mem s (l_buf l + 3) \<noteq> 0x46 then Some (-1, s)
               else Some (sint (dentry_inode_num (mem s) (l_dentry l)), s)
        })"

abbreviation PROGRAM_IMAGE_OFFSET :: u32 where "PROGRAM_IMAGE_OFFSET \<equiv> 0x08048000"

definition pcb_addr :: "int \<Rightarrow> u32" where
  "pcb_addr pid = EIGHTMB - EIGHTKB * (word_of_int pid + 1)"

definition free_pid :: "'a process_scheme \<Rightarrow> nat option" where
  "free_pid s = scan (\<lambda>x. x = 0) (take 6 (pcb_occupants s))"

text \<open>Claiming the slot: mark it, remember the terminal's process, make the new one current.\<close>

definition claim_pid :: "nat \<Rightarrow> 'a process_scheme \<Rightarrow> 'a process_scheme" where
  "claim_pid i s =
     (let s = s\<lparr>pcb_occupants := (pcb_occupants s)[i := -1]\<rparr>;
          s = s\<lparr>process_previous := (process_previous s)[i := process_num (active s)]\<rparr>
      in term_upd (active_terminal s) (\<lambda>t. t\<lparr>process_num := int i\<rparr>) s)"

text \<open>
  \<open>go_to_ring_three\<close>: the two stores of the stack and frame pointer through the control block pointer hit
  its first two words, which are the operation table pointer and the index node number of descriptor 0.
\<close>

definition go_to_ring_three :: "locals \<Rightarrow> u32 \<Rightarrow> u32 \<Rightarrow> 'a process_scheme \<Rightarrow> 'a process_scheme outcome" where
  "go_to_ring_three l enter p s =
     EnterUser enter (set_fd p 0 (\<lambda>d. d\<lparr>descriptor_op_ptr := Wild (l_ring3_esp l), inode_num := l_ring3_esp l\<rparr>) s)"

text \<open>
  The second half of \<open>execute\<close>, once a slot is found: the user page, the program, the control block, and ring 3.
\<close>

definition start_process :: "locals \<Rightarrow> nat \<Rightarrow> u32 \<Rightarrow> 'a process_scheme \<Rightarrow> 'a process_scheme outcome" where
  "start_process l pid ino s =
     (let s = switch_user_page (int pid) s;
          size = file_size s (mem s) ino;
          s = snd (read_data ino 0 PROGRAM_IMAGE_OFFSET size s);
          p = pcb_addr (int pid);
          (r, s) = init_pcb p (word_of_nat pid) s
      in if r = -1 then Return (-1) (put_string (bytes ''init pcb failed in system calls execute'') s)
         else
           let s = s\<lparr>pcbs := (pcbs s)(p := (pcbs s p)\<lparr>arguments := read_bytes (mem s) (l_args l) 32\<rparr>)\<rparr>;
               s = s\<lparr>mem := store32 (mem s) (l_enter l) 0\<rparr>;
               s = snd (read_data ino 24 (l_enter l) 4 s);
               s = s\<lparr>tss_esp0 := kernel_stack_top (int pid)\<rparr>;
               s = s\<lparr>pcbs := (pcbs s)(p := (pcbs s p)\<lparr>pcb_esp := esp s, pcb_ebp := ebp s\<rparr>)\<rparr>;
               s = sti s
           in go_to_ring_three l (load32 (mem s) (l_enter l)) p s)"

definition execute :: "locals \<Rightarrow> u32 \<Rightarrow> 'a process_scheme \<Rightarrow> 'a process_scheme outcome option" where
  "execute l cmd s =
     (let s = cli s
      in if cmd = 0 then Some (Return (-1) (put_string (bytes ''invalid cmd input into execute'') s))
         else do {
           s \<leftarrow> parse cmd (l_file_name l) (l_args l) s;
           (curr_inode_num, s) \<leftarrow> check_valid l (l_file_name l) s;
           if curr_inode_num = -1
           then Some (Return (-1) (put_string (bytes ''curr i node number is invalid | '') s))
           else case free_pid s of
             None \<Rightarrow> Some (Return (-1) (put_string (bytes ''too many processes, '') s))
           | Some pid \<Rightarrow> Some (start_process l pid (word_of_int curr_inode_num) (claim_pid pid s))
         })"

text \<open>The descriptors 2 to 7 of a process that halts: an open one is closed, and all are emptied.\<close>

definition halt_close :: "nat \<Rightarrow> 'a process_scheme \<Rightarrow> 'a process_scheme option" where
  "halt_close i s = do {
     s \<leftarrow> (if flags (fd_at (int i) s) = 1 then do { (_, s) \<leftarrow> sys_close (int i) s; Some s } else Some s);
     Some (set_fd (get_pcb s) i (\<lambda>d. d\<lparr>flags := OUT_OF_USE, descriptor_op_ptr := NULL\<rparr>) s)
   }"

fun halt_close_all :: "nat list \<Rightarrow> 'a process_scheme \<Rightarrow> 'a process_scheme option" where
  "halt_close_all [] s = Some s"
| "halt_close_all (i # is) s = do { s \<leftarrow> halt_close i s; halt_close_all is s }"

definition halt_resume :: "nat \<Rightarrow> nat \<Rightarrow> u32 \<Rightarrow> u32 \<Rightarrow> 'a process_scheme \<Rightarrow> 'a process_scheme outcome" where
  "halt_resume term pid child ret_status s =
     (let s = term_upd (int term) (\<lambda>t. t\<lparr>process_num := process_previous s ! pid\<rparr>) s;
          s = switch_user_page (process_num (term_at (int term) s)) s;
          s = s\<lparr>tss_esp0 := pcb_esp (pcbs s child)\<rparr>
      in Resume (pcb_esp (pcbs s child)) (pcb_ebp (pcbs s child)) ret_status s)"

definition halt :: "locals \<Rightarrow> u32 \<Rightarrow> 'a process_scheme \<Rightarrow> 'a process_scheme outcome option" where
  "halt l status s =
     (let child = get_pcb s; ret_status = status
      in do {
        s \<leftarrow> halt_close_all [2..<8] s;
        term \<leftarrow> process_terminal s;
        let pid = process_num (term_at (int term) s);
        if \<not> (0 \<le> pid \<and> pid < 6) then None
        else
          let s = s\<lparr>pcb_occupants := (pcb_occupants s)[nat pid := 0]\<rparr>
          in if pid = 0 \<or> pid = 1 \<or> pid = 2 then do {
               let s = put_string (bytes ''Restarting Shell'' @ [10]) s;
               r \<leftarrow> execute l (l_shell l) s;
               case r of
                 Return _ s \<Rightarrow> Some (halt_resume term (nat pid) child ret_status s)
               | _ \<Rightarrow> Some r
             }
             else Some (halt_resume term (nat pid) child ret_status s)
      })"

section \<open>The system call gate\<close>

text \<open>\<open>sys_call_interrupt\<close>: the number in \<open>EAX\<close> selects the entry of \<open>system_call_jmp\<close>, the parameters are in
  \<open>EBX\<close>, \<open>ECX\<close> and \<open>EDX\<close>. A call that returns leaves its result in \<open>EAX\<close>.\<close>

definition returning :: "(int \<times> 's) option \<Rightarrow> 's outcome option" where
  "returning r = map_option (\<lambda>(v, s). Return v s) r"

definition sys_call_interrupt :: "locals \<Rightarrow> ('a process_scheme \<Rightarrow> 'a process_scheme) list \<Rightarrow> bool list \<Rightarrow>
    u32 \<Rightarrow> u32 \<Rightarrow> u32 \<Rightarrow> u32 \<Rightarrow> 'a process_scheme \<Rightarrow> 'a process_scheme outcome option" where
  "sys_call_interrupt l keys ticks eax ebx ecx edx s =
     (let done = (\<lambda>r. case r of Some (Return v s) \<Rightarrow> Some (Return v (sti (cli s))) | _ \<Rightarrow> r)
      in if sint eax > 8 \<or> sint eax < 1 then Some (Return (-1) s)
         else done (
           if eax = 1 then halt l ebx s
           else if eax = 2 then execute l ebx s
           else if eax = 3 then returning (sys_read l keys ticks (sint ebx) ecx (sint edx) s)
           else if eax = 4 then returning (sys_write (sint ebx) ecx (sint edx) s)
           else if eax = 5 then returning (sys_open l ebx s)
           else if eax = 6 then returning (sys_close (sint ebx) s)
           else if eax = 7 then Some (case getargs ebx (sint ecx) s of (v, s) \<Rightarrow> Return v s)
           else Some (case vidmap ebx s of (v, s) \<Rightarrow> Return v s)))"

section \<open>Tables of slots\<close>

text \<open>
  The contract that the descriptor table of a process and the table of processes share: a search for the
  first free slot, claiming a slot, and releasing it.
\<close>

locale slot_table =
  fixes ok :: "'s \<Rightarrow> bool" and used :: "'s \<Rightarrow> nat \<Rightarrow> bool" and slots :: nat
    and first_free :: "'s \<Rightarrow> nat option" and claim :: "nat \<Rightarrow> 's \<Rightarrow> 's" and release :: "nat \<Rightarrow> 's \<Rightarrow> 's"
  assumes first_free_Some: "ok s \<Longrightarrow> first_free s = Some i \<longleftrightarrow> i < slots \<and> \<not> used s i \<and> (\<forall>j < i. used s j)"
    and claim_ok: "ok s \<Longrightarrow> i < slots \<Longrightarrow> ok (claim i s)"
    and release_ok: "ok s \<Longrightarrow> i < slots \<Longrightarrow> ok (release i s)"
    and claim_used: "ok s \<Longrightarrow> i < slots \<Longrightarrow> j < slots \<Longrightarrow> used (claim i s) j \<longleftrightarrow> j = i \<or> used s j"
    and release_used: "ok s \<Longrightarrow> i < slots \<Longrightarrow> j < slots \<Longrightarrow> used (release i s) j \<longleftrightarrow> j \<noteq> i \<and> used s j"
begin

lemma first_free_None: "ok s \<Longrightarrow> first_free s = None \<longleftrightarrow> (\<forall>i < slots. used s i)"
proof
  assume s: "ok s" and none: "first_free s = None"
  show "\<forall>i < slots. used s i"
  proof (rule ccontr)
    assume "\<not> (\<forall>i < slots. used s i)"
    then have ex: "\<exists>i. i < slots \<and> \<not> used s i" by blast
    let ?i = "LEAST i. i < slots \<and> \<not> used s i"
    have i: "?i < slots \<and> \<not> used s ?i" using LeastI_ex [OF ex] .
    have "\<forall>j < ?i. used s j" using not_less_Least [where P = "\<lambda>i. i < slots \<and> \<not> used s i"] i
      by (metis (no_types, lifting) order.strict_trans)
    with i have "first_free s = Some ?i" using first_free_Some [OF s] by blast
    with none show False by simp
  qed
next
  assume "ok s" and "\<forall>i < slots. used s i"
  then show "first_free s = None" using first_free_Some [of s] by (cases "first_free s") auto
qed

text \<open>A slot that is claimed and released again is the next one handed out.\<close>

lemma reuse:
  assumes "ok s" and "first_free s = Some i"
  shows "first_free (release i (claim i s)) = Some i"
proof -
  have i: "i < slots" "\<not> used s i" "\<forall>j < i. used s j" using first_free_Some [OF assms(1)] assms(2) by blast+
  have "used (release i (claim i s)) j = (j \<noteq> i \<and> used s j)" if "j < slots" for j
    using that i(1) assms(1) claim_used [of s i j] release_used [of "claim i s" i j] claim_ok [of s i] by blast
  moreover have "ok (release i (claim i s))" using assms(1) i(1) claim_ok release_ok by blast
  ultimately show ?thesis using first_free_Some i by auto
qed

lemma claim_next:
  assumes "ok s" and "first_free s = Some i" and "first_free (claim i s) = Some j"
  shows "i < j"
proof -
  have i: "i < slots" "\<forall>j < i. used s j" using first_free_Some [OF assms(1)] assms(2) by blast+
  have "j < slots" "\<not> used (claim i s) j" using first_free_Some [OF claim_ok] assms(1,3) i(1) by blast+
  then show ?thesis using claim_used [OF assms(1) i(1)] i(2) by (metis not_less_iff_gr_or_eq)
qed

end

section \<open>The descriptor table\<close>

definition fds_ok :: "'a process_scheme \<Rightarrow> bool" where
  "fds_ok s \<longleftrightarrow> get_pcb s \<noteq> 0 \<and> length (file_descriptor_array (this_pcb s)) = 8"

definition fd_used :: "'a process_scheme \<Rightarrow> nat \<Rightarrow> bool" where
  "fd_used s i \<longleftrightarrow> flags (file_descriptor_array (this_pcb s) ! i) \<noteq> 0"

lemma free_fd_Some:
  "length (file_descriptor_array p) = 8 \<Longrightarrow> free_fd p = Some i \<longleftrightarrow>
     i < 8 \<and> flags (file_descriptor_array p ! i) = 0 \<and> (\<forall>j < i. flags (file_descriptor_array p ! j) \<noteq> 0)"
  by (auto simp: free_fd_def scan_iff)

lemma get_pcb_set_fd [frame_simps]: "get_pcb (set_fd p i f s) = get_pcb s"
  by (simp add: get_pcb_def set_fd_def)

lemma get_pcb_populate [frame_simps]: "get_pcb (populate_pcb p i fl ino tbl pos s) = get_pcb s"
  by (simp add: populate_pcb_def frame_simps)

interpretation fds: slot_table fds_ok fd_used 8 "\<lambda>s. free_fd (this_pcb s)"
    "\<lambda>i s. populate_pcb (get_pcb s) i 1 ino tbl pos s"
    "\<lambda>i s. set_fd (get_pcb s) i (\<lambda>d. d\<lparr>flags := OUT_OF_USE\<rparr>) s"
  for ino :: u32 and tbl :: op_table and pos :: u32
  by unfold_locales (auto simp: fds_ok_def fd_used_def free_fd_Some populate_pcb_def get_pcb_def set_fd_def nth_list_update)

section \<open>The table of processes\<close>

definition pids_ok :: "'a process_scheme \<Rightarrow> bool" where
  "pids_ok s \<longleftrightarrow> length (pcb_occupants s) = 6"

definition pid_used :: "'a process_scheme \<Rightarrow> nat \<Rightarrow> bool" where
  "pid_used s i \<longleftrightarrow> pcb_occupants s ! i \<noteq> 0"

lemma claim_pid_sel:
  "pcb_occupants (claim_pid i s) = (pcb_occupants s)[i := -1]"
  "process_previous (claim_pid i s) = (process_previous s)[i := process_num (active s)]"
  by (simp_all add: claim_pid_def Let_def term_upd_def term_at_def)

interpretation pids: slot_table pids_ok pid_used 6 free_pid claim_pid
    "\<lambda>i s. s\<lparr>pcb_occupants := (pcb_occupants s)[i := 0]\<rparr>"
  by unfold_locales (auto simp: pids_ok_def pid_used_def free_pid_def scan_iff claim_pid_sel nth_list_update)

section \<open>What the calls keep\<close>

text \<open>The view of the process table that the drivers and the console must not touch.\<close>

definition proc_view :: "'a process_scheme \<Rightarrow> u32 \<times> u32 \<times> (u32 \<Rightarrow> pcb_t) \<times> (u32 \<Rightarrow> int \<Rightarrow> file_descriptor_t) \<times> int list \<times> int list" where
  "proc_view s = (esp s, ebp s, pcbs s, oob_fd s, pcb_occupants s, process_previous s)"

lemma proc_viewD:
  assumes "proc_view s = proc_view t"
  shows "pcbs s = pcbs t" "get_pcb s = get_pcb t" "fd_at fd s = fd_at fd t" "esp s = esp t" "ebp s = ebp t"
    "pcb_occupants s = pcb_occupants t" "process_previous s = process_previous t"
  using assms by (simp_all add: proc_view_def get_pcb_def fd_at_def)

lemma putc_proc_view [frame_simps]: "proc_view (putc c s) = proc_view s"
  by (simp add: putc_def putc_defs Let_def proc_view_def update_cursor_def outb_def)

lemma put_string_proc_view [frame_simps]: "proc_view (put_string cs s) = proc_view s"
  by (induction cs arbitrary: s) (simp_all add: put_string_def frame_simps)

lemma mem_proc_view [frame_simps]: "proc_view (s\<lparr>mem := m\<rparr>) = proc_view s"
  by (simp add: proc_view_def)

lemma terminal_open_one_proc_view: "proc_view (terminal_open_one j s) = proc_view s"
  by (simp add: terminal_open_one_def term_upd_def proc_view_def Let_def)

lemma rtc_open_proc_view: "rtc_open a filename s = (r, t) \<Longrightarrow> proc_view t = proc_view s"
  by (auto simp: rtc_open_def rtc_write_def Let_def outb_def proc_view_def)

lemma table_open_proc_view:
  "table_open l tbl filename s = Some (r, t) \<Longrightarrow> proc_view t = proc_view s"
  by (induction l tbl filename s rule: table_open.induct)
    (auto simp: terminal_open_def upt_rec terminal_open_one_proc_view rtc_open_proc_view directory_open_def file_open_def)

lemma table_close_proc_view:
  "table_close tbl fd s = Some (r, t) \<Longrightarrow> r = 0 \<and> t = s"
  by (induction tbl fd s rule: table_close.induct)
    (auto simp: terminal_close_def rtc_close_def directory_close_def file_close_def)

lemma dentry_copy:
  assumes "read_bytes m d 64 = read_bytes m' e 64"
  shows "dentry_type m d = dentry_type m' e" "dentry_inode_num m d = dentry_inode_num m' e"
  using read_bytes_sub [OF assms, of 32 4] read_bytes_sub [OF assms, of 36 4]
  by (auto simp: dentry_type_def dentry_inode_num_def intro: load32_cong)

section \<open>Opening and closing\<close>

lemma read_dentry_by_name_first:
  assumes "cstring (mem s) fname cs" and "length cs \<le> 32" and "fname \<noteq> 0" and "dentry \<noteq> 0"
    and dis: "disjoint_regions dentry 64 (g_directory_entries s) 4096"
    and i: "find_dentry s fname = Some i"
  obtains m where "read_dentry_by_name fname dentry s = Some (0, s\<lparr>mem := m\<rparr>)"
    and "read_bytes m dentry 64 = read_bytes (mem s) (dentry_addr s (word_of_nat i)) 64"
    and "\<And>x. \<not> in_region x dentry 64 \<Longrightarrow> m x = mem s x"
proof -
  let ?e = "dentry_addr s (word_of_nat i)"
  have "i < 64" using find_dentry_Some [OF assms(1,2)] i by blast
  moreover have "?e = g_directory_entries s + word_of_nat (64 * i)" by (simp add: dentry_addr_def)
  ultimately have "disjoint_regions ?e 64 dentry 64"
    using dis disjoint_regions_sym disjoint_regions_sub [of "g_directory_entries s" 4096 dentry 64 "64 * i" 64] by auto
  then have "copy_up_safe dentry ?e (unat (64 :: u32))" by (simp add: copy_up_safe_def disjoint_regions_def)
  then have m: "memcpy (mem s) dentry ?e 64 = write_bytes (mem s) dentry (read_bytes (mem s) ?e 64)"
    by (simp add: memcpy_ref copy_ref_def)
  show ?thesis
  proof (rule that)
    show "read_dentry_by_name fname dentry s = Some (0, s\<lparr>mem := memcpy (mem s) dentry ?e 64\<rparr>)"
      using read_dentry_by_name_cstring [OF assms(1-4)] i by simp
    show "read_bytes (memcpy (mem s) dentry ?e 64) dentry 64 = read_bytes (mem s) ?e 64"
      unfolding m using read_write_bytes [of "read_bytes (mem s) ?e 64" "mem s" dentry] by simp
    show "memcpy (mem s) dentry ?e 64 x = mem s x" if "\<not> in_region x dentry 64" for x
      unfolding m using that by (simp add: write_bytes_outside)
  qed
qed

lemma table_of_type_opens: "table_of_type ty ino = Some (tbl, n, pos) \<Longrightarrow> \<exists>r t. table_open l tbl filename s = Some (r, t)"
  by (auto simp: table_of_type_def split: if_splits)

lemma table_of_type_closes: "table_of_type ty ino = Some (tbl, n, pos) \<Longrightarrow> table_close tbl fd s = Some (0, s)"
  by (auto simp: table_of_type_def terminal_close_def rtc_close_def directory_close_def file_close_def split: if_splits)

text \<open>What a successful open leaves: the process tables with exactly one more descriptor.\<close>

lemma sys_open_view:
  assumes ok: "fds_ok s"
    and name: "cstring (mem s) filename cs" "cs \<noteq> []" "length cs \<le> 32" "filename \<noteq> 0"
    and l: "l_dentry l \<noteq> 0" "disjoint_regions (l_dentry l) 64 (g_directory_entries s) 4096"
    and slot: "find_dentry s filename = Some i"
    and tbl: "table_of_type (dentry_type (mem s) (dentry_addr s (word_of_nat i)))
      (dentry_inode_num (mem s) (dentry_addr s (word_of_nat i))) = Some (tbl, ino, pos)"
    and free: "free_fd (this_pcb s) = Some loc"
  shows "\<exists>t. sys_open l filename s = Some (int loc, t)
     \<and> proc_view t = proc_view (populate_pcb (get_pcb s) loc 1 ino tbl pos s)"
proof -
  obtain m where m: "read_dentry_by_name filename (l_dentry l) s = Some (0, s\<lparr>mem := m\<rparr>)"
    and copy: "read_bytes m (l_dentry l) 64 = read_bytes (mem s) (dentry_addr s (word_of_nat i)) 64"
    using read_dentry_by_name_first [OF name(1,3,4) l(1) l(2) slot] by blast
  let ?u = "populate_pcb (get_pcb s) loc 1 ino tbl pos (s\<lparr>mem := m\<rparr>)"
  have loc: "loc < 8" using free ok by (simp add: fds_ok_def free_fd_Some)
  have "descriptor_op_ptr (fd_at (int loc) ?u) = tbl"
    using loc ok by (simp add: fd_at_def populate_pcb_def fds_ok_def get_pcb_def set_fd_def)
  moreover obtain r t where t: "table_open l tbl filename ?u = Some (r, t)" using table_of_type_opens [OF tbl] by blast
  moreover have "mem s filename \<noteq> 0" using cstring_nonzero [OF name(1), of 0] name(2) by simp
  moreover have "this_pcb (s\<lparr>mem := m\<rparr>) = this_pcb s" "get_pcb (s\<lparr>mem := m\<rparr>) = get_pcb s" by (simp_all add: get_pcb_def)
  ultimately have "sys_open l filename s = Some (int loc, t)"
    using name(4) m tbl free dentry_copy [OF copy] by (simp add: sys_open_def Let_def)
  moreover have "proc_view ?u = proc_view (populate_pcb (get_pcb s) loc 1 ino tbl pos s)"
    by (simp add: proc_view_def populate_pcb_def set_fd_def)
  ultimately show ?thesis using table_open_proc_view [OF t] by auto
qed

lemma fd_at_populate:
  assumes "fds_ok s" and "i < 8" and "j < 8"
  shows "fd_at (int j) (populate_pcb (get_pcb s) i 1 ino tbl pos s) =
    (if j = i then \<lparr>descriptor_op_ptr = tbl, inode_num = ino, file_pos = pos, flags = 1\<rparr> else fd_at (int j) s)"
  using assms by (simp add: fd_at_def populate_pcb_def fds_ok_def get_pcb_def set_fd_def nth_list_update)

lemma sys_close_open_fd:
  assumes "2 \<le> fd" "fd < 8" and "flags (fd_at fd s) \<noteq> OUT_OF_USE"
    and "table_of_type ty n = Some (descriptor_op_ptr (fd_at fd s), ino, pos)" and "fds_ok s"
  shows "sys_close fd s = Some (0, set_fd (get_pcb s) (nat fd) (\<lambda>d. d\<lparr>flags := OUT_OF_USE\<rparr>) s)"
proof -
  let ?t = "set_fd (get_pcb s) (nat fd) (\<lambda>d. d\<lparr>flags := OUT_OF_USE\<rparr>) s"
  have "descriptor_op_ptr (fd_at fd ?t) = descriptor_op_ptr (fd_at fd s)"
    using assms(1,2,5) by (simp add: fd_at_def set_fd_def get_pcb_def fds_ok_def)
  then show ?thesis using assms(1-3) table_of_type_closes [OF assms(4)] by (simp add: sys_close_def Let_def)
qed

section \<open>Properties\<close>


text \<open>The example process with the name of a file at 3 MB: descriptor 3 is the lowest free one.\<close>

lemma process_example_lookup:
  "fds_ok process_example" "cstring (mem process_example) 0x300000 (bytes ''f'')"
  "find_dentry process_example 0x300000 = Some 0" "free_fd (this_pcb process_example) = Some 3"
proof -
  show "fds_ok process_example" by (simp add: fds_ok_def process_example_sel pcb_example_def)
  show cs: "cstring (mem process_example) 0x300000 (bytes ''f'')" unfolding process_example_sel by code_simp
  have "dentry_name process_example (mem process_example) 0 = bytes ''f''"
    unfolding dentry_name_def dentry_addr_def process_example_sel by code_simp
  then show "find_dentry process_example 0x300000 = Some 0" using find_dentry_Some [OF cs, of 0] by simp
  show "free_fd (this_pcb process_example) = Some 3" unfolding process_example_sel by code_simp
qed




end
