(* ===== verification/Execute.thy ===== *)
theory Execute
  imports Syscalls
begin

text \<open>
  Starting and ending programs: what \<open>parse\<close>, \<open>check_valid\<close>, \<open>execute\<close> and \<open>halt\<close> of
  \<^verbatim>\<open>src/student-distrib/systemcalls.c\<close> do. The command is split at its first space, the
  file is looked up and its first bytes are compared with the magic number, a process slot is claimed, the
  program is copied to the user page of the process and its control block is filled; \<open>halt\<close> gives all of
  it back and resumes the caller. Memories that agree on the bytes of the file system image hold the same files, which
  is how the lookups survive the writes to local variables in between.
\<close>

section \<open>Parsing a command\<close>

definition command_word :: "u8 list \<Rightarrow> u8 list" where
  "command_word cs = takeWhile (\<lambda>c. c \<noteq> byte CHR '' '') cs"

definition command_args :: "u8 list \<Rightarrow> u8 list" where
  "command_args cs = drop (Suc (length (command_word cs))) cs"

lemma command_word_set: "c \<in> set (command_word cs) \<Longrightarrow> c \<noteq> byte CHR '' '' \<and> c \<in> set cs"
  unfolding command_word_def by (auto dest: set_takeWhileD)

lemma command_word_end:
  "length (command_word cs) < length cs \<Longrightarrow> cs ! length (command_word cs) = byte CHR '' ''"
  using nth_length_takeWhile [of "\<lambda>c. c \<noteq> byte CHR '' ''" cs] by (simp add: command_word_def)

lemma command_word_nth: "k < length (command_word cs) \<Longrightarrow> cs ! k = command_word cs ! k"
  unfolding command_word_def by (simp add: takeWhile_nth)

lemma length_command_word: "length (command_word cs) \<le> length cs"
  unfolding command_word_def by (rule length_takeWhile_le)

lemma command_args_nth:
  "Suc (length (command_word cs)) + k < length cs \<Longrightarrow> cs ! (Suc (length (command_word cs)) + k) = command_args cs ! k"
  by (simp add: command_args_def)

lemma length_command_args: "length (command_args cs) = length cs - Suc (length (command_word cs))"
  by (simp add: command_args_def)

lemma word_length_from:
  assumes "cstring m cmd cs" and "k \<le> length (command_word cs)"
  shows "word_length m cmd (word_of_nat k) = Some (word_of_nat (length (command_word cs)))"
  using assms(2)
proof (induction rule: inc_induct)
  case base
  have "m (cmd + word_of_nat (length (command_word cs))) = byte CHR '' '' \<or> m (cmd + word_of_nat (length (command_word cs))) = 0"
    using cstring_nth [OF assms(1)] cstring_end [OF assms(1)] command_word_end [of cs] length_command_word [of cs]
    by (cases "length (command_word cs) < length cs") auto
  then show ?case by (subst word_length.simps) auto
next
  case (step k)
  have lt: "k < length cs" using step length_command_word [of cs] by simp
  have "m (cmd + word_of_nat k) = command_word cs ! k"
    using cstring_nth [OF assms(1) lt] command_word_nth [of k cs] step by simp
  moreover have "command_word cs ! k \<noteq> byte CHR '' ''" using step nth_mem command_word_set by blast
  moreover have "m (cmd + word_of_nat k) \<noteq> 0" using cstring_nonzero [OF assms(1) lt] .
  ultimately show ?case using step by (subst word_length.simps) (simp add: add.commute)
qed

lemma parse_loop_args:
  assumes "k \<le> length (command_args cs)" and "length (command_word cs) < length cs"
    and "cstring m cmd cs" and "disjoint_regions cmd (Suc (length cs)) arg (length (command_args cs))"
    and "length cs < 4294967295"
  shows "parse_loop m cmd file arg (word_of_nat (length (command_word cs))) True
      (word_of_nat (Suc (length (command_word cs)) + k))
    = Some (write_bytes m (arg + word_of_nat k) (drop k (command_args cs)))"
  using assms(1,3)
proof (induction arbitrary: m rule: inc_induct)
  case base
  have "Suc (length (command_word cs)) + length (command_args cs) = length cs"
    using assms(2) by (simp add: length_command_args)
  then show ?case using cstring_end [OF base] by (subst parse_loop.simps) simp
next
  case (step k)
  let ?w = "length (command_word cs)"
  let ?i = "Suc ?w + k"
  have lt: "?i < length cs" using step(2) assms(2) by (simp add: length_command_args)
  have idx: "word_of_nat ?i - word_of_nat ?w - 1 = (word_of_nat k :: u32)" by simp
  let ?a = "arg + word_of_nat k" and ?c = "command_args cs ! k"
  have c: "m (cmd + word_of_nat ?i) = ?c" "m (cmd + word_of_nat ?i) \<noteq> 0"
    using cstring_nth [OF step(4) lt] command_args_nth [OF lt] cstring_nonzero [OF step(4) lt] by simp_all
  have "in_region ?a arg (length (command_args cs))"
    using step(2) assms(5) by (intro in_region_offset) (auto simp: length_command_args)
  then have "cstring (m(?a := ?c)) cmd cs"
    using assms(4,5) step(4) disjoint_regionsD by (intro cstring_upd) auto
  note IH = step(3) [OF this]
  have "parse_loop m cmd file arg (word_of_nat ?w) True (word_of_nat ?i)
      = parse_loop (m(?a := ?c)) cmd file arg (word_of_nat ?w) True (word_of_nat (Suc ?w + Suc k))"
    using c by (subst parse_loop.simps) (simp only: idx, simp add: add.commute)
  also have "\<dots> = Some (write_bytes (m(?a := ?c)) (arg + word_of_nat (Suc k)) (drop (Suc k) (command_args cs)))"
    using IH .
  also have "\<dots> = Some (write_bytes m ?a (?c # drop (Suc k) (command_args cs)))"
    by (simp add: add.assoc) (simp add: add.commute)
  finally show ?case using step(2) by (simp add: Cons_nth_drop_Suc)
qed

lemma parse_loop_word:
  assumes "k \<le> length (command_word cs)"
    and "cstring m cmd cs" and "disjoint_regions cmd (Suc (length cs)) file (length (command_word cs))"
    and "length cs < 4294967295"
  shows "parse_loop m cmd file arg n False (word_of_nat k)
    = parse_loop (write_bytes m (file + word_of_nat k) (drop k (command_word cs))) cmd file arg n False
        (word_of_nat (length (command_word cs)))"
  using assms(1,2)
proof (induction arbitrary: m rule: inc_induct)
  case base
  then show ?case by simp
next
  case (step k)
  let ?a = "file + word_of_nat k" and ?c = "command_word cs ! k"
  have lt: "k < length cs" using step(2) length_command_word [of cs] by simp
  have c: "m (cmd + word_of_nat k) = ?c" "m (cmd + word_of_nat k) \<noteq> 0"
    using cstring_nth [OF step(4) lt] command_word_nth [OF step(2)] cstring_nonzero [OF step(4) lt] by simp_all
  have ns: "?c \<noteq> byte CHR '' ''" using step(2) nth_mem command_word_set by blast
  have "in_region ?a file (length (command_word cs))"
    using step(2) lt assms(4) length_command_word [of cs] by (intro in_region_offset) auto
  then have "cstring (m(?a := ?c)) cmd cs"
    using assms(3,4) step(4) disjoint_regionsD by (intro cstring_upd) auto
  note IH = step(3) [OF this]
  have "parse_loop m cmd file arg n False (word_of_nat k)
      = parse_loop (m(?a := ?c)) cmd file arg n False (word_of_nat (Suc k))"
    using c ns by (subst parse_loop.simps) (simp add: add.commute)
  also have "\<dots> = parse_loop (write_bytes m ?a (?c # drop (Suc k) (command_word cs))) cmd file arg n False
        (word_of_nat (length (command_word cs)))"
    unfolding IH by (simp add: add.assoc) (simp add: add.commute)
  finally show ?case using step(2) by (simp add: Cons_nth_drop_Suc)
qed

lemma parse_loop_cstring:
  assumes "cstring m cmd cs"
    and "disjoint_regions cmd (Suc (length cs)) file (length (command_word cs))"
    and "disjoint_regions cmd (Suc (length cs)) arg (length (command_args cs))"
    and "length cs < 4294967295"
  shows "parse_loop m cmd file arg (word_of_nat (length (command_word cs))) False 0
    = Some (write_bytes (write_bytes m file (command_word cs)) arg (command_args cs))"
proof -
  let ?w = "length (command_word cs)" and ?m = "write_bytes m file (command_word cs)"
  have cs: "cstring ?m cmd cs"
    using assms(1,2,4) disjoint_regionsD length_command_word [of cs]
    by (intro cstring_cong [OF assms(1)] write_bytes_outside) auto
  have "parse_loop m cmd file arg (word_of_nat ?w) False 0 = parse_loop ?m cmd file arg (word_of_nat ?w) False (word_of_nat ?w)"
    using parse_loop_word [OF _ assms(1,2,4), of 0 arg "word_of_nat ?w"] by simp
  also have "\<dots> = Some (write_bytes ?m arg (command_args cs))"
  proof (cases "?w < length cs")
    case True
    have c: "?m (cmd + word_of_nat ?w) = byte CHR '' ''" using cstring_nth [OF cs True] command_word_end [OF True] by simp
    have "byte CHR '' '' \<noteq> 0" by code_simp
    with c have "parse_loop ?m cmd file arg (word_of_nat ?w) False (word_of_nat ?w)
        = parse_loop ?m cmd file arg (word_of_nat ?w) True (word_of_nat (Suc ?w + 0))"
      by (subst parse_loop.simps) (simp add: add.commute)
    also have "\<dots> = Some (write_bytes ?m (arg + word_of_nat 0) (drop 0 (command_args cs)))"
      using parse_loop_args [OF _ True cs assms(3,4)] by blast
    finally show ?thesis by simp
  next
    case False
    then have e: "?w = length cs" using length_command_word [of cs] by simp
    then have "command_args cs = []" by (simp add: command_args_def)
    then show ?thesis using cstring_end [OF cs] unfolding e by (subst parse_loop.simps) simp
  qed
  finally show ?thesis .
qed

text \<open>\<open>parse\<close> leaves the two parts of the command, zero padded, in the two buffers.\<close>

lemma parse_cstring:
  assumes cs: "cstring (mem s) cmd cs" and nz: "cmd \<noteq> 0" "file \<noteq> 0" "arg \<noteq> 0"
    and len: "length (command_word cs) \<le> 32" "length (command_args cs) \<le> 32"
    and df: "disjoint_regions cmd (Suc (length cs)) file 34" and da: "disjoint_regions cmd (Suc (length cs)) arg 34"
    and fa: "disjoint_regions file 33 arg 33"
  obtains m where "parse cmd file arg s = Some (s\<lparr>mem := m\<rparr>)"
    and "read_bytes m file 33 = padded (command_word cs) 33" and "read_bytes m arg 33 = padded (command_args cs) 33"
    and "\<And>x. \<not> in_region x file 34 \<Longrightarrow> \<not> in_region x arg 34 \<Longrightarrow> m x = mem s x"
proof -
  have small: "length cs < 4294967295" using len by (simp add: length_command_args)
  let ?m1 = "(mem s)(arg + 33 := 0, file + 33 := 0)"
  let ?z = "replicate 33 0 :: u8 list"
  let ?m2 = "write_bytes (write_bytes ?m1 arg ?z) file ?z"
  let ?m = "write_bytes (write_bytes ?m2 file (command_word cs)) arg (command_args cs)"
  have in34: "in_region (a + 33) a 34" "in_region x a 33 \<Longrightarrow> in_region x a 34" for x a
    using in_region_offset [of 33 34 a] in_region_mono [of x a 33 34] by simp_all
  have m2: "?m2 x = mem s x" if "\<not> in_region x file 34" "\<not> in_region x arg 34" for x
    using that in34 by (subst write_bytes_outside, simp, fastforce)+ auto
  have out: "\<not> in_region x file 34" "\<not> in_region x arg 34" if "in_region x cmd (Suc (length cs))" for x
    using that disjoint_regionsD [OF df] disjoint_regionsD [OF da] by blast+
  have cs2: "cstring ?m2 cmd cs" using small by (intro cstring_cong [OF cs] m2 out) simp_all
  have dis: "disjoint_regions cmd (Suc (length cs)) file (length (command_word cs))"
    "disjoint_regions cmd (Suc (length cs)) arg (length (command_args cs))"
    using df da len by (auto intro: disjoint_regions_mono)
  have "parse cmd file arg s = Some (s\<lparr>mem := ?m\<rparr>)"
    using nz word_length_from [OF cs2, of 0] parse_loop_cstring [OF cs2 dis small]
    unfolding parse_def Let_def zero_loop by simp
  moreover have "read_bytes ?m file 33 = padded (command_word cs) 33"
  proof -
    have "disjoint_regions arg (length (command_args cs)) file 33"
      using fa len disjoint_regions_sym disjoint_regions_mono [OF fa, of 33 "length (command_args cs)"] by auto
    then have "read_bytes ?m file 33 = read_bytes (write_bytes ?m2 file (command_word cs)) file 33"
      using len by (intro read_write_bytes_disjoint) simp_all
    then show ?thesis using len read_write_bytes [of ?z _ "file"] by (simp add: overwrite_prefix padded_def)
  qed
  moreover have "read_bytes ?m arg 33 = padded (command_args cs) 33"
  proof -
    have d: "disjoint_regions file (length (command_word cs)) arg 33" "disjoint_regions file (length ?z) arg 33"
      using fa len disjoint_regions_mono [OF fa] by auto
    have "read_bytes (write_bytes ?m2 file (command_word cs)) arg 33 = read_bytes (write_bytes ?m1 arg ?z) arg (length ?z)"
      using d len by (subst read_write_bytes_disjoint, simp_all)+
    also have "\<dots> = ?z" by (intro read_write_bytes) simp
    finally show ?thesis using len by (simp add: overwrite_prefix padded_def)
  qed
  moreover have "?m x = mem s x" if "\<not> in_region x file 34" "\<not> in_region x arg 34" for x
  proof -
    have "\<not> in_region x arg (length (command_args cs))" "\<not> in_region x file (length (command_word cs))"
      using that len in_region_mono [of x arg "length (command_args cs)" 34]
        in_region_mono [of x "file" "length (command_word cs)" 34] by auto
    then have "?m x = ?m2 x" using len by (simp add: write_bytes_outside)
    then show ?thesis using m2 [OF that] by simp
  qed
  ultimately show ?thesis using that by blast
qed


section \<open>Memories that agree on the file system image\<close>

definition same_image :: "'a fs_scheme \<Rightarrow> mem \<Rightarrow> mem \<Rightarrow> bool" where
  "same_image s m m' \<longleftrightarrow> (\<forall>x. in_region x (g_b_block s) (image_len s m) \<longrightarrow> m' x = m x)"

lemma same_image_refl: "same_image s m m"
  by (simp add: same_image_def)

lemma same_image_read:
  assumes "fs_wf s m" and "same_image s m m'" and "k + j \<le> image_len s m"
  shows "read_bytes m' (g_b_block s + word_of_nat k) j = read_bytes m (g_b_block s + word_of_nat k) j"
proof (rule read_bytes_cong)
  fix i assume "i < j"
  then have "in_region (g_b_block s + word_of_nat (k + i)) (g_b_block s) (image_len s m)"
    using assms by (intro in_region_offset) (auto simp: fs_wf_def)
  then show "m' (g_b_block s + word_of_nat k + word_of_nat i) = m (g_b_block s + word_of_nat k + word_of_nat i)"
    using assms(2) by (simp add: same_image_def add.assoc)
qed

lemma same_image_load:
  "fs_wf s m \<Longrightarrow> same_image s m m' \<Longrightarrow> k + 4 \<le> image_len s m \<Longrightarrow>
     load32 m' (g_b_block s + word_of_nat k) = load32 m (g_b_block s + word_of_nat k)"
  by (rule load32_cong) (rule same_image_read)

lemma same_image_header:
  assumes "fs_wf s m" and "same_image s m m'"
  shows "num_index_nodes s m' = num_index_nodes s m" "num_data_blocks s m' = num_data_blocks s m"
    "image_len s m' = image_len s m" "fs_wf s m'"
proof -
  have "12 \<le> image_len s m" by (simp add: image_len_def)
  then show n: "num_index_nodes s m' = num_index_nodes s m" "num_data_blocks s m' = num_data_blocks s m"
    using same_image_load [OF assms, of 4] same_image_load [OF assms, of 8]
    by (simp_all add: num_index_nodes_def num_data_blocks_def)
  then show "image_len s m' = image_len s m" "fs_wf s m'" using assms(1) by (simp_all add: image_len_def fs_wf_def)
qed

lemma block_offset_bound: "r < 4096 \<Longrightarrow> d < e \<Longrightarrow> 4096 * (1 + n + d) + r < 4096 * (1 + n + e)" for r d e n :: nat
  by simp

lemma same_image_inode:
  assumes wf: "fs_wf s m" "inode_wf s m ino" and same: "same_image s m m'"
  shows "file_size s m' ino = file_size s m ino"
    and "file_contents s m' ino = file_contents s m ino" and "inode_wf s m' ino"
proof -
  have ino: "unat ino < unat (num_index_nodes s m)" using wf(2) by (simp add: inode_wf_def)
  have "4096 * (1 + unat ino) + 4 \<le> image_len s m" using ino by (simp add: image_len_def)
  then show size: "file_size s m' ino = file_size s m ino"
    unfolding file_size_def inode_addr_offset [OF wf(1), of ino] using same_image_load [OF wf(1) same] by blast
  have db: "data_block s m' ino (word_of_nat k) = data_block s m ino (word_of_nat k)" if "k < 1023" for k
  proof -
    have "4096 * (1 + unat ino) + 4 + 4 * k + 4 \<le> image_len s m" using that ino by (simp add: image_len_def)
    from same_image_load [OF wf(1) same this] show ?thesis unfolding data_block_def data_block_offset [OF wf(1)] .
  qed
  have "unat (file_size s m ino) + 4095 < 1024 * 4096" using wf(2) by (simp add: inode_wf_def)
  then have blocks: "file_blocks s m ino \<le> 1023" unfolding file_blocks_def by linarith
  show "inode_wf s m' ino" using wf(2) blocks db same_image_header(1,2) [OF wf(1) same] size
    by (auto simp: inode_wf_def list_all_iff file_blocks_def)
  have "file_byte s m' ino j = file_byte s m ino j" if j: "j < unat (file_size s m ino)" for j
  proof -
    let ?k = "j div 4096"
    have k: "4096 * ?k < unat (file_size s m ino)" using j by (simp add: mult.commute)
    note kb = inode_wf_block [OF wf(2) k]
    let ?d = "data_block s m ino (word_of_nat ?k)"
    have bs: "block_start s m' ino (word_of_nat ?k) = block_start s m ino (word_of_nat ?k)"
      using db [OF kb(1)] same_image_header(1) [OF wf(1) same] by (simp add: block_start_def)
    let ?o = "4096 * (1 + unat (num_index_nodes s m) + unat ?d) + j mod 4096"
    have a: "block_start s m ino (word_of_nat ?k) + word_of_nat (j mod 4096) = g_b_block s + word_of_nat ?o"
      unfolding block_start_offset by (simp add: add.assoc)
    have o: "?o < image_len s m" unfolding image_len_def by (rule block_offset_bound) (use kb(2) in simp_all)
    moreover have "image_len s m \<le> 4294967296" using wf(1) by (simp add: fs_wf_def)
    ultimately have "in_region (g_b_block s + word_of_nat ?o) (g_b_block s) (image_len s m)" by (intro in_region_offset)
    then show ?thesis using same unfolding file_byte_def bs a by (simp add: same_image_def)
  qed
  then show "file_contents s m' ino = file_contents s m ino" by (simp add: file_contents_def size)
qed

lemma same_image_dentry:
  assumes wf: "fs_wf s m" and same: "same_image s m m'" and "0 < num_index_nodes s m" and "j < 64"
  shows "read_bytes m' (dentry_addr s (word_of_nat j)) 64 = read_bytes m (dentry_addr s (word_of_nat j)) 64"
    and "dentry_name s m' j = dentry_name s m j"
proof -
  have "1 \<le> unat (num_index_nodes s m)" using assms(3) by (simp add: word_less_nat_alt)
  then have "64 + 64 * j + 64 \<le> image_len s m" using assms(4) by (simp add: image_len_def)
  moreover have a: "dentry_addr s (word_of_nat j) = g_b_block s + word_of_nat (64 + 64 * j)"
    using wf by (simp add: dentry_addr_def fs_wf_def)
  ultimately show r: "read_bytes m' (dentry_addr s (word_of_nat j)) 64 = read_bytes m (dentry_addr s (word_of_nat j)) 64"
    using same_image_read [OF wf same, of "64 + 64 * j" 64] by simp
  have "take 32 (read_bytes m' (dentry_addr s (word_of_nat j)) 64) = take 32 (read_bytes m (dentry_addr s (word_of_nat j)) 64)"
    using r by simp
  then show "dentry_name s m' j = dentry_name s m j" by (simp add: dentry_name_def prefix_str_def take_read_bytes)
qed

text \<open>The directory slot of a name, independent of where the name stands in memory.\<close>

definition slot_of :: "'a fs_scheme \<Rightarrow> mem \<Rightarrow> u8 list \<Rightarrow> nat option" where
  "slot_of s m cs = scan (\<lambda>j. dentry_name s m j = cs) [0..<64]"

lemma scan_cong: "(\<And>x. x \<in> set xs \<Longrightarrow> P x = Q x) \<Longrightarrow> scan P xs = scan Q xs"
proof -
  have "(\<And>x. x \<in> set xs \<Longrightarrow> P x = Q x) \<Longrightarrow> scan_from P i xs = scan_from Q i xs" for i
    by (induction xs arbitrary: i) auto
  then show "(\<And>x. x \<in> set xs \<Longrightarrow> P x = Q x) \<Longrightarrow> scan P xs = scan Q xs" by (simp add: scan_def)
qed

lemma find_dentry_slot:
  assumes "cstring (mem s) fname cs" and "length cs \<le> 32"
  shows "find_dentry s fname = slot_of s (mem s) cs"
proof -
  have "prefix_str (mem s) fname 32 = cs" using prefix_str_cstring [OF assms(1)] assms(2) by simp
  then show ?thesis unfolding find_dentry_def slot_of_def
    by (intro scan_cong) (auto simp: strncmp_eq_0 dentry_name_def)
qed

lemma slot_of_same:
  assumes "fs_wf s m" "same_image s m m'" "0 < num_index_nodes s m"
  shows "slot_of s m' cs = slot_of s m cs"
  unfolding slot_of_def by (intro scan_cong) (simp add: same_image_dentry(2) [OF assms])

lemma slot_of_less: "slot_of s m cs = Some i \<Longrightarrow> i < 64"
  using scan_Some [of _ "[0..<64]" i] by (simp add: slot_of_def)

lemma fs_mem_cong [simp]:
  "same_image (s\<lparr>mem := k\<rparr>) = same_image s" "slot_of (s\<lparr>mem := k\<rparr>) = slot_of s"
  "dentry_addr (s\<lparr>mem := k\<rparr>) = dentry_addr s" "image_len (s\<lparr>mem := k\<rparr>) = image_len s"
  "num_index_nodes (s\<lparr>mem := k\<rparr>) = num_index_nodes s"
  by (simp_all add: fun_eq_iff same_image_def image_len_def num_index_nodes_def num_data_blocks_def slot_of_def
      dentry_name_def dentry_addr_def)

lemma same_image_outside:
  assumes "outside_image s m a n" and "\<And>x. \<not> in_region x a n \<Longrightarrow> m' x = m'' x" and "same_image s m m''"
  shows "same_image s m m'"
  using assms unfolding same_image_def outside_image_def by (metis disjoint_regionsD)

section \<open>Checking an executable\<close>

definition has_magic :: "u8 list \<Rightarrow> bool" where
  "has_magic c \<longleftrightarrow> 4 \<le> length c \<and> (c ! 0 = 0x7F \<or> c ! 1 = 0x45 \<or> c ! 2 = 0x4C \<or> c ! 3 = 0x46)"

lemma outside_directory:
  assumes "fs_wf s m" and "outside_image s m a n" and "0 < num_index_nodes s m"
  shows "disjoint_regions a n (g_directory_entries s) 4096"
proof -
  have "1 \<le> unat (num_index_nodes s m)" using assms(3) by (simp add: word_less_nat_alt)
  then have "64 + 4096 \<le> image_len s m" by (simp add: image_len_def)
  then have "disjoint_regions (g_b_block s + word_of_nat 64) 4096 a n"
    using assms(1,2) disjoint_regions_sym unfolding outside_image_def fs_wf_def
    by (intro disjoint_regions_sub [of _ "image_len s m"]) auto
  then show ?thesis using assms(1) disjoint_regions_sym by (auto simp: fs_wf_def)
qed

lemma read4: "read_bytes m a 4 = [m a, m (a + 1), m (a + 2), m (a + 3)]"
  by (simp add: read_bytes_def upt_rec)

lemma read_data_head:
  assumes "fs_wf s (mem s)" and "inode_wf s (mem s) ino" and "outside_image s (mem s) buf n" and "n < 4294967296"
  shows "read_data ino 0 buf (word_of_nat n) s =
    (let data = take n (file_contents s (mem s) ino) in (int (length data), s\<lparr>mem := write_bytes (mem s) buf data\<rparr>))"
proof -
  have "outside_image s (mem s) buf (min (unat (word_of_nat n :: u32)) (unat (file_size s (mem s) ino) - unat (0 :: u32)))"
    using assms(3,4) disjoint_regions_mono [of buf n _ _ "min n (unat (file_size s (mem s) ino))"]
    by (simp add: outside_image_def addr_simps)
  from read_data_reads [OF assms(1,2) _ this] show ?thesis using assms(4) by (simp add: addr_simps Let_def)
qed

lemma check_valid_found:
  assumes name: "cstring (mem s) fname cs" "length cs \<le> 32" "fname \<noteq> 0"
    and d: "l_dentry l \<noteq> 0" "outside_image s (mem s) (l_dentry l) 64" and b: "outside_image s (mem s) (l_buf l) 4"
    and dis: "disjoint_regions (l_buf l) 4 (l_dentry l) 64" "disjoint_regions (l_buf l) 4 fname (Suc (length cs))"
    and wf: "fs_wf s (mem s)" "inode_wf s (mem s) ino"
    and slot: "slot_of s (mem s) cs = Some i" and ino: "ino = dentry_inode_num (mem s) (dentry_addr s (word_of_nat i))"
  obtains m where "check_valid l fname s
      = Some (if has_magic (file_contents s (mem s) ino) then sint ino else -1, s\<lparr>mem := m\<rparr>)"
    and "\<And>x. \<not> in_region x (l_dentry l) 64 \<Longrightarrow> \<not> in_region x (l_buf l) 4 \<Longrightarrow> m x = mem s x"
proof -
  let ?m0 = "write_bytes (mem s) (l_buf l) (replicate 4 0)" and ?c = "file_contents s (mem s) ino"
  let ?s0 = "s\<lparr>mem := ?m0\<rparr>"
  have nz: "0 < num_index_nodes s (mem s)" using wf(2) by (auto simp: inode_wf_def word_less_nat_alt)
  have m0: "?m0 x = mem s x" if "\<not> in_region x (l_buf l) 4" for x using that by (simp add: write_bytes_outside)
  have same0: "same_image s (mem s) ?m0"
    by (rule same_image_outside [OF b m0 same_image_refl])
  have len: "length cs < 4294967296" using name(2) by simp
  have "\<not> in_region x (l_buf l) 4" if "in_region x fname (Suc (length cs))" for x
    using dis(2) disjoint_regionsD that by blast
  then have cs0: "cstring (mem ?s0) fname cs" using m0 len by (intro cstring_cong [OF name(1)]) auto
  have slot0: "find_dentry ?s0 fname = Some i"
    using find_dentry_slot [OF cs0 name(2)] slot slot_of_same [OF wf(1) same0 nz] by simp
  have "disjoint_regions (l_dentry l) 64 (g_directory_entries ?s0) 4096"
    using outside_directory [OF wf(1) d(2) nz] by simp
  from read_dentry_by_name_first [OF cs0 name(2,3) d(1) this slot0] obtain m1 where
    r1: "read_dentry_by_name fname (l_dentry l) ?s0 = Some (0, s\<lparr>mem := m1\<rparr>)"
    and copy: "read_bytes m1 (l_dentry l) 64 = read_bytes ?m0 (dentry_addr s (word_of_nat i)) 64"
    and m1: "\<And>x. \<not> in_region x (l_dentry l) 64 \<Longrightarrow> m1 x = ?m0 x"
    by auto
  have copy1: "read_bytes m1 (l_dentry l) 64 = read_bytes (mem s) (dentry_addr s (word_of_nat i)) 64"
    using copy same_image_dentry(1) [OF wf(1) same0 nz slot_of_less [OF slot]] by simp
  have same1: "same_image s (mem s) m1" using m1 same0 by (rule same_image_outside [OF d(2)])
  let ?s1 = "s\<lparr>mem := m1\<rparr>" and ?data = "take 4 ?c"
  let ?m2 = "write_bytes m1 (l_buf l) ?data"
  have wf1: "fs_wf ?s1 (mem ?s1)" "inode_wf ?s1 (mem ?s1) ino" "outside_image ?s1 (mem ?s1) (l_buf l) 4"
    using same_image_header [OF wf(1) same1] same_image_inode(3) [OF wf same1] b
    by (simp_all add: frame_simps outside_image_def)
  have c1: "file_contents ?s1 (mem ?s1) ino = ?c" using same_image_inode(2) [OF wf same1] by (simp add: frame_simps)
  have rd: "read_data ino 0 (l_buf l) 4 ?s1 = (int (length ?data), s\<lparr>mem := ?m2\<rparr>)"
    using read_data_head [OF wf1(1,2) wf1(3)] unfolding c1 by (simp add: Let_def)
  have i1: "dentry_inode_num m1 (l_dentry l) = ino" using dentry_copy(2) [OF copy1] ino by simp
  have "read_bytes ?m2 (l_dentry l) 64 = read_bytes m1 (l_dentry l) 64"
    using dis(1) disjoint_regions_mono [of "l_buf l" 4 "l_dentry l" 64 "length ?data" 64]
    by (intro read_write_bytes_disjoint) auto
  then have i2: "dentry_inode_num ?m2 (l_dentry l) = ino" using i1 dentry_copy(2) by metis
  have result: "check_valid l fname s = Some (if has_magic ?c then sint ino else -1, s\<lparr>mem := ?m2\<rparr>)"
  proof (cases "4 \<le> length ?c")
    case True
    then have "length ?data = 4" by simp
    then have "read_bytes ?m2 (l_buf l) 4 = ?data" using read_write_bytes [of ?data m1 "l_buf l"] by simp
    then have bytes: "?m2 (l_buf l) = ?c ! 0" "?m2 (l_buf l + 1) = ?c ! 1" "?m2 (l_buf l + 2) = ?c ! 2" "?m2 (l_buf l + 3) = ?c ! 3"
      unfolding read4 using True by (auto simp: take_Suc_conv_app_nth numeral_eq_Suc)
    show ?thesis using True name(3) r1 rd i1 i2 bytes
      by (simp add: check_valid_def Let_def zero_loop has_magic_def)
  next
    case False
    then have "uint (file_size s (mem s) ino) \<noteq> 4" using nat_uint_eq [of "file_size s (mem s) ino"] by (metis length_file_contents nat_numeral order_refl)
    then show ?thesis using name(3) r1 rd i1 False
      by (simp only: check_valid_def Let_def zero_loop has_magic_def) simp
  qed
  show ?thesis
  proof (rule that [OF result])
    fix x assume x: "\<not> in_region x (l_dentry l) 64" "\<not> in_region x (l_buf l) 4"
    then have "\<not> in_region x (l_buf l) (length ?data)" using in_region_mono [of x "l_buf l" "length ?data" 4] by auto
    then have "?m2 x = m1 x" by (simp add: write_bytes_outside)
    then show "?m2 x = mem s x" using m1 [OF x(1)] m0 [OF x(2)] by simp
  qed
qed

section \<open>Starting a process\<close>

definition fresh_fds :: "file_descriptor_t list" where
  "fresh_fds = [stdio_fd, stdio_fd] @ replicate 6 closed_fd"

definition set_fds :: "u32 \<Rightarrow> file_descriptor_t list \<Rightarrow> 'a process_scheme \<Rightarrow> 'a process_scheme" where
  "set_fds p ds s = s\<lparr>pcbs := (pcbs s)(p := (pcbs s p)\<lparr>file_descriptor_array := ds\<rparr>)\<rparr>"

lemma set_fds_id: "set_fds p (file_descriptor_array (pcbs s p)) s = s"
  by (simp add: set_fds_def)

lemma set_fd_set_fds: "set_fd p i (\<lambda>_. d) (set_fds p ds s) = set_fds p (ds[i := d]) s"
  by (simp add: set_fd_def set_fds_def)

lemma fold_set_fd:
  "fold (\<lambda>i. set_fd p i (\<lambda>_. d)) is (set_fds p ds s) = set_fds p (fold (\<lambda>i ds. ds[i := d]) is ds) s"
  by (induction "is" arbitrary: ds) (simp_all add: set_fd_set_fds)

lemma init_pcb_fresh:
  assumes "p \<noteq> 0" and "length (file_descriptor_array (pcbs s p)) = 8"
  shows "init_pcb p pid s = (0, s\<lparr>pcbs := (pcbs s)(p := (pcbs s p)\<lparr>file_descriptor_array := fresh_fds, pcb_process_num := pid\<rparr>)\<rparr>)"
proof -
  obtain a b c d e f g h where ds: "file_descriptor_array (pcbs s p) = [a, b, c, d, e, f, g, h]"
    using assms(2) by (auto simp: numeral_eq_Suc length_Suc_conv)
  have "fold (\<lambda>i ds. ds[i := closed_fd]) [2..<8] [stdio_fd, stdio_fd, c, d, e, f, g, h] = fresh_fds"
    by (simp add: upt_rec fresh_fds_def numeral_eq_Suc)
  moreover have "s = set_fds p [a, b, c, d, e, f, g, h] s" using set_fds_id [of p s] ds by simp
  ultimately have "fold (\<lambda>i. set_fd p i (\<lambda>_. closed_fd)) [2..<8]
      (set_fd p 1 (\<lambda>_. stdio_fd) (set_fd p 0 (\<lambda>_. stdio_fd) s)) = set_fds p fresh_fds s"
    by (metis fold_set_fd list_update_code(2,3) One_nat_def set_fd_set_fds)
  then show ?thesis using assms(1) by (simp add: init_pcb_def Let_def set_fds_def)
qed

lemma pcb_addr_nonzero: "pid < 6 \<Longrightarrow> pcb_addr (int pid) \<noteq> 0"
proof -
  assume "pid < 6"
  then have "pid \<in> {0, 1, 2, 3, 4, 5}" by auto
  then show ?thesis by (auto simp: pcb_addr_def)
qed

text \<open>Addresses below the user page, where the kernel and the image live.\<close>

definition below_user :: "u32 \<Rightarrow> nat \<Rightarrow> bool" where
  "below_user a n \<longleftrightarrow> unat a + n \<le> 0x8000000"

lemma in_region_below:
  assumes "below_user a n" and "in_region x a n"
  shows "x < 0x8000000"
proof -
  have d: "unat (x - a) < n" using assms(2) by (simp add: in_region_def)
  have "unat (a + (x - a)) = (unat a + unat (x - a)) mod 2 ^ LENGTH(32)" by (rule unat_word_ariths(1))
  then have "unat x = (unat a + unat (x - a)) mod 4294967296" by simp
  then show ?thesis using assms(1) d by (simp add: below_user_def word_less_nat_alt)
qed

lemma below_not_user_page: "x < 0x8000000 \<Longrightarrow> drop_bit 22 x \<noteq> (32 :: u32)"
proof
  assume x: "x < 0x8000000" and "drop_bit 22 x = 32"
  then have "unat (drop_bit 22 x) = 32" by simp
  then have "unat x div 4194304 = 32" by (simp add: drop_bit_eq_div unat_div)
  moreover have "unat x < 134217728" using x by (simp add: word_less_nat_alt)
  ultimately show False by linarith
qed

lemma below_region_kept:
  assumes "length (pDirectory s) = 1024" and "pid < 6" and "below_user a n" and "in_region x a n"
  shows "mem (switch_user_page (int pid) s) x = mem s x"
  using switch_user_page_sel(2) [OF assms(1,2)] in_region_below [OF assms(3,4)] below_not_user_page by blast

lemma user_region_page:
  assumes "0x8000000 \<le> a" and "unat a + n \<le> 0x8400000" and "in_region x a n"
  shows "drop_bit 22 x = (32 :: u32)"
proof -
  have d: "unat (x - a) < n" using assms(3) by (simp add: in_region_def)
  have "unat (a + (x - a)) = (unat a + unat (x - a)) mod 2 ^ LENGTH(32)" by (rule unat_word_ariths(1))
  then have "unat x = (unat a + unat (x - a)) mod 4294967296" by simp
  then have "134217728 \<le> unat x" "unat x < 138412032" using assms(1,2) d by (simp_all add: word_le_nat_alt)
  then have "unat x div 4194304 = 32" by linarith
  then have "unat (drop_bit 22 x) = unat (32 :: u32)" by (simp add: drop_bit_eq_div unat_div)
  then show ?thesis by (simp only: unsigned_word_eqI)
qed

text \<open>A region of the user page is apart from everything below it.\<close>

lemma user_region_disjoint:
  assumes "below_user a n" and "0x8000000 \<le> b" and "unat b + k \<le> 0x8400000" and "0 < n"
  shows "disjoint_regions b k a n"
proof -
  have b: "134217728 \<le> unat b" using assms(2) by (simp add: word_le_nat_alt)
  have "a \<le> b" using assms(1) b by (simp add: below_user_def word_le_nat_alt)
  then have ba: "unat (b - a) = unat b - unat a" by (rule unat_sub)
  have ab: "unat (a - b) = unat a + 4294967296 - unat b"
    using assms(1,4) b unat_sub_if' [of a b] by (auto simp: below_user_def)
  show ?thesis unfolding disjoint_regions_def using assms ab ba b unfolding below_user_def by auto
qed

text \<open>The conditions on the memory layout: the image and the local variables are in the kernel's part of memory and apart.\<close>

definition kernel_image :: "'a process_scheme \<Rightarrow> bool" where
  "kernel_image s \<longleftrightarrow> fs_wf s (mem s) \<and> below_user (g_b_block s) (image_len s (mem s))"

definition program_wf :: "'a process_scheme \<Rightarrow> u32 \<Rightarrow> bool" where
  "program_wf s ino \<longleftrightarrow> inode_wf s (mem s) ino \<and> 28 \<le> file_size s (mem s) ino \<and> file_size s (mem s) ino \<le> 0x3B8000"

definition entry_point :: "u8 list \<Rightarrow> u32" where
  "entry_point c = load32 (write_bytes (\<lambda>_. 0) 0 (take 4 (drop 24 c))) 0"

lemma image_len_pos: "0 < image_len s m"
  by (simp add: image_len_def)

lemma load32_read: "read_bytes m a 4 = bs \<Longrightarrow> load32 m a = load32 (write_bytes (\<lambda>_. 0) 0 bs) 0"
  using read_write_bytes [of bs "\<lambda>_. 0" 0] length_read_bytes [of m a 4] by (intro load32_cong) auto

lemma switch_keeps_image:
  assumes "kernel_image s" and "length (pDirectory s) = 1024" and "pid < 6"
  shows "same_image s (mem s) (mem (switch_user_page (int pid) s))"
  using assms below_region_kept unfolding kernel_image_def same_image_def by blast

lemma switch_user_page_fs [frame_simps]:
  "g_b_block (switch_user_page pid s) = g_b_block s" "g_index_nodes (switch_user_page pid s) = g_index_nodes s"
  "g_directory_entries (switch_user_page pid s) = g_directory_entries s" "proc_view (switch_user_page pid s) = proc_view s"
  "terminal (switch_user_page pid s) = terminal s" "active_terminal (switch_user_page pid s) = active_terminal s"
  "active_schedule (switch_user_page pid s) = active_schedule s"
  by (simp_all add: switch_user_page_def map_user_page_def Let_def proc_view_def)

lemma fs_fields_cong:
  assumes "g_b_block s = g_b_block t" "g_index_nodes s = g_index_nodes t" "g_directory_entries s = g_directory_entries t"
  shows "file_size s = file_size t" "file_contents s = file_contents t" "fs_wf s = fs_wf t" "inode_wf s = inode_wf t"
    "image_len s = image_len t" "outside_image s = outside_image t" "same_image s = same_image t" "slot_of s = slot_of t"
  using assms
  by (simp_all add: fun_eq_iff file_size_def inode_addr_def file_contents_def file_byte_def block_start_def
      num_index_nodes_def data_block_def fs_wf_def image_len_def num_data_blocks_def inode_wf_def file_blocks_def
      outside_image_def same_image_def slot_of_def dentry_name_def dentry_addr_def)

lemma read_program:
  assumes img: "kernel_image s" and prog: "program_wf s ino" and same: "same_image s (mem s) (mem u)"
    and fields: "g_b_block u = g_b_block s" "g_index_nodes u = g_index_nodes s" "g_directory_entries u = g_directory_entries s"
  shows "read_data ino 0 PROGRAM_IMAGE_OFFSET (file_size u (mem u) ino) u
      = (int (unat (file_size s (mem s) ino)), u\<lparr>mem := write_bytes (mem u) PROGRAM_IMAGE_OFFSET (file_contents s (mem s) ino)\<rparr>)"
    and "outside_image s (mem s) (l_enter l) 4 \<Longrightarrow> read_data ino 24 (l_enter l) 4 u
      = (4, u\<lparr>mem := write_bytes (mem u) (l_enter l) (take 4 (drop 24 (file_contents s (mem s) ino)))\<rparr>)"
proof -
  let ?size = "file_size s (mem s) ino" and ?c = "file_contents s (mem s) ino"
  note cong = fs_fields_cong [OF fields]
  have wf: "fs_wf s (mem s)" "inode_wf s (mem s) ino" using img prog by (simp_all add: kernel_image_def program_wf_def)
  have len: "28 \<le> unat ?size" "unat ?size \<le> 0x3B8000" using prog by (simp_all add: program_wf_def word_le_nat_alt)
  have uwf: "fs_wf u (mem u)" "inode_wf u (mem u) ino" "file_size u (mem u) ino = ?size" "file_contents u (mem u) ino = ?c"
    "image_len u (mem u) = image_len s (mem s)"
    using same_image_header [OF wf(1) same] same_image_inode [OF wf same] by (simp_all add: cong)
  have "outside_image u (mem u) PROGRAM_IMAGE_OFFSET (unat ?size)"
    unfolding outside_image_def uwf(5) fields(1)
    using img len image_len_pos by (intro user_region_disjoint) (auto simp: kernel_image_def)
  from read_data_head [OF uwf(1,2) this] show "read_data ino 0 PROGRAM_IMAGE_OFFSET (file_size u (mem u) ino) u
      = (int (unat ?size), u\<lparr>mem := write_bytes (mem u) PROGRAM_IMAGE_OFFSET ?c\<rparr>)"
    using len unfolding uwf(3,4) by (simp add: Let_def)
  assume out: "outside_image s (mem s) (l_enter l) 4"
  have "min (unat (4 :: u32)) (unat ?size - unat (24 :: u32)) = 4" using len by simp
  then have "outside_image u (mem u) (l_enter l) (min (unat (4 :: u32)) (unat (file_size u (mem u) ino) - unat (24 :: u32)))"
    using out uwf(3,5) by (simp add: outside_image_def fields)
  from read_data_reads [OF uwf(1,2) _ this] show "read_data ino 24 (l_enter l) 4 u
      = (4, u\<lparr>mem := write_bytes (mem u) (l_enter l) (take 4 (drop 24 ?c))\<rparr>)"
    using len unfolding uwf(4) by (simp add: Let_def)
qed

definition new_pcb :: "locals \<Rightarrow> nat \<Rightarrow> 'a process_scheme \<Rightarrow> pcb_t" where
  "new_pcb l pid s = \<lparr>file_descriptor_array = fresh_fds[0 := stdio_fd\<lparr>descriptor_op_ptr := Wild (l_ring3_esp l), inode_num := l_ring3_esp l\<rparr>],
     pcb_esp = esp s, pcb_ebp = ebp s, pcb_process_num = word_of_nat pid, arguments = read_bytes (mem s) (l_args l) 32\<rparr>"

lemma pcb_all_fields: "b\<lparr>pcb_process_num := n, arguments := g, pcb_esp := e, pcb_ebp := f, file_descriptor_array := a\<rparr>
    = \<lparr>file_descriptor_array = a, pcb_esp = e, pcb_ebp = f, pcb_process_num = n, arguments = g\<rparr>" for b :: pcb_t
  by (cases b) simp

lemma start_process_runs:
  assumes img: "kernel_image s" and prog: "program_wf s ino" and len: "length (pDirectory s) = 1024" and pid: "pid < 6"
    and fds: "length (file_descriptor_array (pcbs s (pcb_addr (int pid)))) = 8"
    and args: "below_user (l_args l) 34" and enter: "below_user (l_enter l) 4" "outside_image s (mem s) (l_enter l) 4"
  obtains t where "start_process l pid ino s = EnterUser (entry_point (file_contents s (mem s) ino)) t"
    and "read_bytes (mem t) PROGRAM_IMAGE_OFFSET (unat (file_size s (mem s) ino)) = file_contents s (mem s) ino"
    and "\<And>x. drop_bit 22 x \<noteq> 32 \<Longrightarrow> \<not> in_region x (l_enter l) 4 \<Longrightarrow> mem t x = mem s x"
    and "pDirectory t = (pDirectory s)[32 := user_entry pid]" and "tss_esp0 t = kernel_stack_top (int pid)"
    and "pcbs t = (pcbs s)(pcb_addr (int pid) := new_pcb l pid s)" and "interrupts t"
    and "terminal t = terminal s" "active_terminal t = active_terminal s" "pcb_occupants t = pcb_occupants s"
      "process_previous t = process_previous s" "frames t = frames (switch_user_page (int pid) s)"
proof -
  let ?c = "file_contents s (mem s) ino" and ?u = "switch_user_page (int pid) s" and ?p = "pcb_addr (int pid)"
  let ?n = "unat (file_size s (mem s) ino)"
  have n: "28 \<le> ?n" "?n \<le> 0x3B8000" using prog by (simp_all add: program_wf_def word_le_nat_alt)
  have same: "same_image s (mem s) (mem ?u)" using switch_keeps_image [OF img len pid] .
  let ?m1 = "write_bytes (mem ?u) PROGRAM_IMAGE_OFFSET ?c"
  have rd1: "read_data ino 0 PROGRAM_IMAGE_OFFSET (file_size ?u (mem ?u) ino) ?u = (int ?n, ?u\<lparr>mem := ?m1\<rparr>)"
    using same by (intro read_program(1) [OF img prog]) (simp_all add: frame_simps)
  have up: "disjoint_regions PROGRAM_IMAGE_OFFSET ?n a k" if "below_user a k" "0 < k" for a k
    using that n by (intro user_region_disjoint) simp_all
  have m1: "?m1 x = mem s x" if "below_user a k" "in_region x a k" for a k x
  proof -
    have "0 < k" using that(2) by (auto simp: in_region_def)
    then have "\<not> in_region x PROGRAM_IMAGE_OFFSET ?n" using up that disjoint_regionsD disjoint_regions_sym by metis
    then have "?m1 x = mem ?u x" using n by (simp add: write_bytes_outside)
    then show ?thesis using below_region_kept [OF len pid that] by simp
  qed
  have same1: "same_image s (mem s) ?m1" using img m1 unfolding same_image_def kernel_image_def by blast
  have pcbs_u: "pcbs ?u = pcbs s" "esp ?u = esp s" "ebp ?u = ebp s"
    using proc_viewD [OF switch_user_page_fs(4)] by blast+
  let ?b = "(pcbs s ?p)\<lparr>file_descriptor_array := fresh_fds, pcb_process_num := word_of_nat pid\<rparr>"
  have init: "init_pcb ?p (word_of_nat pid) (?u\<lparr>mem := ?m1\<rparr>) = (0, ?u\<lparr>mem := ?m1, pcbs := (pcbs s)(?p := ?b)\<rparr>)"
    using init_pcb_fresh [of ?p "?u\<lparr>mem := ?m1\<rparr>"] pcb_addr_nonzero [OF pid] fds by (simp add: pcbs_u)
  have args1: "read_bytes ?m1 (l_args l) 32 = read_bytes (mem s) (l_args l) 32"
    using m1 [OF args] in_region_offset [of _ 34 "l_args l"] by (intro read_bytes_cong) simp
  let ?m2 = "store32 ?m1 (l_enter l) 0" and ?e = "take 4 (drop 24 ?c)"
  let ?m3 = "write_bytes ?m2 (l_enter l) ?e"
  have e4: "length ?e = 4" using n by simp
  have m2: "?m2 x = ?m1 x" if "\<not> in_region x (l_enter l) 4" for x
    using that by (simp add: store32_def write_bytes_outside)
  have m3: "?m3 x = ?m1 x" if "\<not> in_region x (l_enter l) 4" for x
    using m2 [OF that] that e4 by (simp add: write_bytes_outside)
  have same2: "same_image s (mem s) ?m2" using m2 same1 by (rule same_image_outside [OF enter(2)])
  have pio: "read_bytes ?m3 PROGRAM_IMAGE_OFFSET ?n = ?c"
  proof -
    have "\<not> in_region x (l_enter l) 4" if "in_region x PROGRAM_IMAGE_OFFSET ?n" for x
      using up [OF enter(1) zero_less_numeral] that disjoint_regionsD by blast
    then have "read_bytes ?m3 PROGRAM_IMAGE_OFFSET ?n = read_bytes ?m1 PROGRAM_IMAGE_OFFSET ?n"
      using m3 in_region_offset [of _ ?n PROGRAM_IMAGE_OFFSET] n by (intro read_bytes_cong) simp
    then show ?thesis using read_write_bytes [of ?c "mem ?u" PROGRAM_IMAGE_OFFSET] n by simp
  qed
  have entry: "load32 ?m3 (l_enter l) = entry_point ?c"
    unfolding entry_point_def by (intro load32_read) (use read_write_bytes [of ?e ?m2 "l_enter l"] e4 in simp)
  let ?v = "?u\<lparr>pcbs := (pcbs s)(?p := ?b\<lparr>arguments := read_bytes (mem s) (l_args l) 32\<rparr>), mem := ?m2\<rparr>"
  have rd2: "read_data ino 24 (l_enter l) 4 ?v = (4, ?v\<lparr>mem := ?m3\<rparr>)"
    using read_program(2) [OF img prog _ _ _ _ enter(2), of ?v] same2 by (simp add: frame_simps)
  let ?t = "?u\<lparr>mem := ?m3, tss_esp0 := kernel_stack_top (int pid), interrupts := True, pcbs := (pcbs s)(?p := new_pcb l pid s)\<rparr>"
  have run: "start_process l pid ino s = EnterUser (entry_point ?c) ?t"
    unfolding start_process_def Let_def rd1 snd_conv init prod.case
    using rd2 entry by (simp add: args1 pcbs_u sti_def go_to_ring_three_def set_fd_def new_pcb_def fresh_fds_def stdio_fd_def pcb_all_fields)
  show ?thesis
  proof (rule that [OF run])
    show "pDirectory ?t = (pDirectory s)[32 := user_entry pid]" using switch_user_page_sel(1) [OF len pid] by simp
    show "mem ?t x = mem s x" if "drop_bit 22 x \<noteq> 32" "\<not> in_region x (l_enter l) 4" for x
    proof -
      have "\<not> in_region x PROGRAM_IMAGE_OFFSET ?n" using that(1) n user_region_page [of PROGRAM_IMAGE_OFFSET ?n x] by auto
      then have "?m1 x = mem ?u x" using n by (simp add: write_bytes_outside)
      then show ?thesis using m3 [OF that(2)] switch_user_page_sel(2) [OF len pid that(1)] by simp
    qed
  qed (use pio proc_viewD [OF switch_user_page_fs(4)] in \<open>simp_all add: frame_simps\<close>)
qed

section \<open>Execute\<close>

definition locals_ok :: "locals \<Rightarrow> 'a process_scheme \<Rightarrow> u32 \<Rightarrow> nat \<Rightarrow> bool" where
  "locals_ok l s cmd n \<longleftrightarrow>
     l_file_name l \<noteq> 0 \<and> l_args l \<noteq> 0 \<and> l_dentry l \<noteq> 0
     \<and> outside_image s (mem s) (l_file_name l) 34 \<and> outside_image s (mem s) (l_args l) 34
     \<and> outside_image s (mem s) (l_dentry l) 64 \<and> outside_image s (mem s) (l_buf l) 4
     \<and> outside_image s (mem s) (l_enter l) 4
     \<and> disjoint_regions cmd n (l_file_name l) 34 \<and> disjoint_regions cmd n (l_args l) 34
     \<and> disjoint_regions (l_file_name l) 33 (l_args l) 33 \<and> disjoint_regions (l_buf l) 4 (l_file_name l) 33
     \<and> disjoint_regions (l_args l) 33 (l_dentry l) 64 \<and> disjoint_regions (l_args l) 33 (l_buf l) 4
     \<and> disjoint_regions (l_buf l) 4 (l_dentry l) 64
     \<and> below_user (l_file_name l) 34 \<and> below_user (l_args l) 34 \<and> below_user (l_dentry l) 64
     \<and> below_user (l_buf l) 4 \<and> below_user (l_enter l) 4"

lemma cstring_padded:
  assumes "read_bytes m a n = padded cs n" and "length cs < n" and "0 \<notin> set cs"
  shows "cstring m a cs"
proof -
  have "read_bytes m a (Suc (length cs)) = take (Suc (length cs)) (padded cs n)"
    using assms(1,2) by (metis Suc_leI min_absorb1 take_read_bytes)
  moreover have "n - length cs = Suc (n - Suc (length cs))" using assms(2) by simp
  ultimately show ?thesis using assms(3) by (simp add: cstring_def padded_def)
qed

lemma sint_inode: "fs_wf s m \<Longrightarrow> inode_wf s m ino \<Longrightarrow> 0 \<le> sint ino"
proof -
  assume "fs_wf s m" "inode_wf s m ino"
  then have "unat ino < 2147483648" by (simp add: fs_wf_def inode_wf_def image_len_def)
  then show ?thesis using sint_of_nat32 [of "unat ino"] by simp
qed

lemma execute_front:
  assumes img: "kernel_image s" and cmd: "cstring (mem s) cmd cs" "cmd \<noteq> 0"
    and len: "length (command_word cs) \<le> 32" "length (command_args cs) \<le> 32"
    and l: "locals_ok l s cmd (Suc (length cs))"
    and slot: "slot_of s (mem s) (command_word cs) = Some i"
    and ino: "ino = dentry_inode_num (mem s) (dentry_addr s (word_of_nat i))" "inode_wf s (mem s) ino"
  obtains m where "execute l cmd s = Some (
      if \<not> has_magic (file_contents s (mem s) ino)
      then Return (-1) (put_string (bytes ''curr i node number is invalid | '') ((cli s)\<lparr>mem := m\<rparr>))
      else case free_pid s of
        None \<Rightarrow> Return (-1) (put_string (bytes ''too many processes, '') ((cli s)\<lparr>mem := m\<rparr>))
      | Some pid \<Rightarrow> start_process l pid ino (claim_pid pid ((cli s)\<lparr>mem := m\<rparr>)))"
    and "read_bytes m (l_args l) 32 = padded (command_args cs) 32" and "same_image s (mem s) m"
    and "\<And>x. \<not> in_region x (l_file_name l) 34 \<Longrightarrow> \<not> in_region x (l_args l) 34 \<Longrightarrow> \<not> in_region x (l_dentry l) 64
      \<Longrightarrow> \<not> in_region x (l_buf l) 4 \<Longrightarrow> m x = mem s x"
proof -
  have wf: "fs_wf s (mem s)" using img by (simp add: kernel_image_def)
  note l = l [unfolded locals_ok_def]
  have cs: "cstring (mem (cli s)) cmd cs" using cmd(1) by (simp add: frame_simps)
  obtain m1 where p: "parse cmd (l_file_name l) (l_args l) (cli s) = Some ((cli s)\<lparr>mem := m1\<rparr>)"
    and f1: "read_bytes m1 (l_file_name l) 33 = padded (command_word cs) 33"
    and a1: "read_bytes m1 (l_args l) 33 = padded (command_args cs) 33"
    and m1: "\<And>x. \<not> in_region x (l_file_name l) 34 \<Longrightarrow> \<not> in_region x (l_args l) 34 \<Longrightarrow> m1 x = mem s x"
    using l cmd(2) len by (elim conjE) (rule parse_cstring [OF cs], auto simp: frame_simps)
  let ?s1 = "(cli s)\<lparr>mem := m1\<rparr>" and ?c = "file_contents s (mem s) ino"
  have same1: "same_image s (mem s) m1"
    using l m1 disjoint_regionsD unfolding same_image_def outside_image_def by metis
  have nz: "0 < num_index_nodes s (mem s)" using ino(2) by (auto simp: inode_wf_def word_less_nat_alt)
  have cong: "fs_wf ?s1 = fs_wf s" "inode_wf ?s1 = inode_wf s" "slot_of ?s1 = slot_of s" "file_contents ?s1 = file_contents s"
    "outside_image ?s1 = outside_image s" "dentry_addr ?s1 = dentry_addr s" "slot_of (cli s) = slot_of s"
    "dentry_addr (cli s) = dentry_addr s"
    using fs_fields_cong [of ?s1 s] fs_fields_cong [of "cli s" s] by (simp_all add: cli_def dentry_addr_def fun_eq_iff)
  have name: "cstring m1 (l_file_name l) (command_word cs)"
    using len(1) command_word_set cmd(1) by (intro cstring_padded [OF f1]) (auto simp: cstring_def)
  have dn: "dentry_inode_num m1 (dentry_addr s (word_of_nat i)) = ino"
    using dentry_copy(2) [OF same_image_dentry(1) [OF wf same1 nz slot_of_less [OF slot]]] ino(1) by simp
  obtain m2 where v: "check_valid l (l_file_name l) ?s1 = Some (if has_magic ?c then sint ino else -1, ?s1\<lparr>mem := m2\<rparr>)"
    and m2: "\<And>x. \<not> in_region x (l_dentry l) 64 \<Longrightarrow> \<not> in_region x (l_buf l) 4 \<Longrightarrow> m2 x = m1 x"
  proof (rule check_valid_found [of ?s1 "l_file_name l" "command_word cs" l ino i])
    show "disjoint_regions (l_buf l) 4 (l_file_name l) (Suc (length (command_word cs)))"
      using l len(1) disjoint_regions_mono [of "l_buf l" 4 "l_file_name l" 33] by simp
    show "fs_wf ?s1 (mem ?s1)" "inode_wf ?s1 (mem ?s1) ino" "slot_of ?s1 (mem ?s1) (command_word cs) = Some i"
      using same_image_header(4) [OF wf same1] same_image_inode(3) [OF wf ino(2) same1] slot_of_same [OF wf same1 nz] slot
      by (simp_all add: cong)
    show "outside_image ?s1 (mem ?s1) (l_dentry l) 64" "outside_image ?s1 (mem ?s1) (l_buf l) 4"
      using l same_image_header(3) [OF wf same1] unfolding cong by (simp_all add: outside_image_def)
  qed (use that l len(1) name dn same_image_inode(2) [OF wf ino(2) same1] in \<open>simp_all add: cong\<close>)
  show ?thesis
  proof (rule that)
    show "execute l cmd s = Some (
      if \<not> has_magic ?c
      then Return (-1) (put_string (bytes ''curr i node number is invalid | '') ((cli s)\<lparr>mem := m2\<rparr>))
      else case free_pid s of
        None \<Rightarrow> Return (-1) (put_string (bytes ''too many processes, '') ((cli s)\<lparr>mem := m2\<rparr>))
      | Some pid \<Rightarrow> start_process l pid ino (claim_pid pid ((cli s)\<lparr>mem := m2\<rparr>)))"
    proof -
      have "free_pid ((cli s)\<lparr>mem := m2\<rparr>) = free_pid s" by (simp add: free_pid_def cli_def)
      then show ?thesis using cmd(2) p v sint_inode [OF wf ino(2)]
        by (simp add: execute_def Let_def split: option.split)
    qed
    have out: "\<not> in_region x (l_dentry l) 64 \<and> \<not> in_region x (l_buf l) 4" if "in_region x (l_args l) 33" for x
      using l that disjoint_regionsD by metis
    have "read_bytes m2 (l_args l) 33 = padded (command_args cs) 33"
      unfolding a1 [symmetric] using out m2 in_region_offset [of _ 33 "l_args l"] by (intro read_bytes_cong) simp
    then have "take 32 (read_bytes m2 (l_args l) 33) = take 32 (padded (command_args cs) 33)" by simp
    then show "read_bytes m2 (l_args l) 32 = padded (command_args cs) 32"
      using len(2) by (simp add: take_read_bytes padded_def min_def)
    show "same_image s (mem s) m2"
      using l m2 same1 disjoint_regionsD unfolding same_image_def outside_image_def by metis
    show "m2 x = mem s x" if "\<not> in_region x (l_file_name l) 34" "\<not> in_region x (l_args l) 34"
      "\<not> in_region x (l_dentry l) 64" "\<not> in_region x (l_buf l) 4" for x
      using m1 [OF that(1,2)] m2 [OF that(3,4)] by simp
  qed
qed

lemma claim_pid_frame [frame_simps]:
  "mem (claim_pid i s) = mem s" "g_b_block (claim_pid i s) = g_b_block s" "g_index_nodes (claim_pid i s) = g_index_nodes s"
  "g_directory_entries (claim_pid i s) = g_directory_entries s" "pDirectory (claim_pid i s) = pDirectory s"
  "pcbs (claim_pid i s) = pcbs s" "esp (claim_pid i s) = esp s" "ebp (claim_pid i s) = ebp s"
  "active_terminal (claim_pid i s) = active_terminal s" "active_schedule (claim_pid i s) = active_schedule s" "frames (claim_pid i s) = frames s"
  by (simp_all add: claim_pid_def Let_def term_upd_def)

lemma claim_pid_terminal:
  "terminal (claim_pid i s) = terminal (term_upd (active_terminal s) (\<lambda>t. t\<lparr>process_num := int i\<rparr>) s)"
  by (simp add: claim_pid_def Let_def term_upd_def)

definition started :: "locals \<Rightarrow> u8 list \<Rightarrow> u32 \<Rightarrow> nat \<Rightarrow> 'a process_scheme \<Rightarrow> 'a process_scheme \<Rightarrow> bool" where
  "started l cs ino pid s t \<longleftrightarrow>
     read_bytes (mem t) PROGRAM_IMAGE_OFFSET (unat (file_size s (mem s) ino)) = file_contents s (mem s) ino
     \<and> pcbs t = (pcbs s)(pcb_addr (int pid) := \<lparr>
         file_descriptor_array = fresh_fds[0 := stdio_fd\<lparr>descriptor_op_ptr := Wild (l_ring3_esp l), inode_num := l_ring3_esp l\<rparr>],
         pcb_esp = esp s, pcb_ebp = ebp s, pcb_process_num = word_of_nat pid, arguments = padded (command_args cs) 32\<rparr>)
     \<and> pDirectory t = (pDirectory s)[32 := user_entry pid] \<and> tss_esp0 t = kernel_stack_top (int pid)
     \<and> pcb_occupants t = (pcb_occupants s)[pid := -1]
     \<and> process_previous t = (process_previous s)[pid := process_num (active s)]
     \<and> terminal t = terminal (term_upd (active_terminal s) (\<lambda>t. t\<lparr>process_num := int pid\<rparr>) s)
     \<and> active_terminal t = active_terminal s \<and> interrupts t"

lemma execute_starts:
  assumes img: "kernel_image s" and cmd: "cstring (mem s) cmd cs" "cmd \<noteq> 0"
    and len: "length (command_word cs) \<le> 32" "length (command_args cs) \<le> 32"
    and l: "locals_ok l s cmd (Suc (length cs))"
    and slot: "slot_of s (mem s) (command_word cs) = Some i"
    and ino: "ino = dentry_inode_num (mem s) (dentry_addr s (word_of_nat i))"
    and prog: "program_wf s ino" "has_magic (file_contents s (mem s) ino)"
    and free: "free_pid s = Some pid"
    and pd: "length (pDirectory s) = 1024" and fds: "length (file_descriptor_array (pcbs s (pcb_addr (int pid)))) = 8"
  obtains t where "execute l cmd s = Some (EnterUser (entry_point (file_contents s (mem s) ino)) t)"
    and "started l cs ino pid s t"
    and "\<And>x. bit (pDirectory s ! 32) 0 \<Longrightarrow> drop_bit 22 x = 32 \<Longrightarrow>
      frames t (pDirectory s ! 32 AND 0xFFC00000) (x AND 0x3FFFFF) = mem s x"
proof -
  have wf: "fs_wf s (mem s)" "inode_wf s (mem s) ino" using img prog by (simp_all add: kernel_image_def program_wf_def)
  obtain m where ex: "execute l cmd s = Some (start_process l pid ino (claim_pid pid ((cli s)\<lparr>mem := m\<rparr>)))"
    and args: "read_bytes m (l_args l) 32 = padded (command_args cs) 32" and same: "same_image s (mem s) m"
    and m: "\<And>x. \<not> in_region x (l_file_name l) 34 \<Longrightarrow> \<not> in_region x (l_args l) 34 \<Longrightarrow> \<not> in_region x (l_dentry l) 64
      \<Longrightarrow> \<not> in_region x (l_buf l) 4 \<Longrightarrow> m x = mem s x"
    using execute_front [OF img cmd len l slot ino wf(2)] prog(2) free by (auto split: if_splits)
  note l = l [unfolded locals_ok_def]
  let ?u = "claim_pid pid ((cli s)\<lparr>mem := m\<rparr>)"
  have pid: "pid < 6" using scan_Some [OF free [unfolded free_pid_def]] by simp
  have cli: "active_terminal (cli s) = active_terminal s" "terminal (cli s) = terminal s" "esp (cli s) = esp s" "ebp (cli s) = ebp s"
    "pcbs (cli s) = pcbs s" "pDirectory (cli s) = pDirectory s" "frames (cli s) = frames s" "pcb_occupants (cli s) = pcb_occupants s"
    "process_previous (cli s) = process_previous s"
    by (simp_all add: cli_def)
  have fields: "g_b_block ?u = g_b_block s" "g_index_nodes ?u = g_index_nodes s" "g_directory_entries ?u = g_directory_entries s"
    by (simp_all add: frame_simps) (simp_all add: cli_def)
  note cong = fs_fields_cong [OF fields]
  have um: "mem ?u = m" by (simp add: frame_simps)
  have data: "file_size ?u (mem ?u) ino = file_size s (mem s) ino" "file_contents ?u (mem ?u) ino = file_contents s (mem s) ino"
    using same_image_inode [OF wf same] unfolding cong um by simp_all
  have u: "kernel_image ?u" "program_wf ?u ino"
    using img prog(1) same_image_header [OF wf(1) same] same_image_inode [OF wf same]
    unfolding kernel_image_def program_wf_def cong um fields by simp_all
  have pre: "length (pDirectory ?u) = 1024" "length (file_descriptor_array (pcbs ?u (pcb_addr (int pid)))) = 8"
    using pd fds by (simp_all add: frame_simps cli)
  have out: "outside_image ?u (mem ?u) (l_enter l) 4" "below_user (l_args l) 34" "below_user (l_enter l) 4"
    using l same_image_header(3) [OF wf(1) same] unfolding cong um by (simp_all add: outside_image_def)
  obtain t where run: "start_process l pid ino ?u = EnterUser (entry_point (file_contents s (mem s) ino)) t"
    and t: "read_bytes (mem t) PROGRAM_IMAGE_OFFSET (unat (file_size s (mem s) ino)) = file_contents s (mem s) ino"
      "pDirectory t = (pDirectory ?u)[32 := user_entry pid]" "tss_esp0 t = kernel_stack_top (int pid)"
      "pcbs t = (pcbs ?u)(pcb_addr (int pid) := new_pcb l pid ?u)" "interrupts t"
      "terminal t = terminal ?u" "active_terminal t = active_terminal ?u" "pcb_occupants t = pcb_occupants ?u"
      "process_previous t = process_previous ?u" "frames t = frames (switch_user_page (int pid) ?u)"
    using start_process_runs [OF u pre(1) pid pre(2) out(2,3,1)] unfolding data by blast
  show ?thesis
  proof (rule that [of t])
    show "execute l cmd s = Some (EnterUser (entry_point (file_contents s (mem s) ino)) t)" using ex run by simp
    show "started l cs ino pid s t"
      using t args unfolding started_def
      by (simp add: frame_simps cli claim_pid_sel claim_pid_terminal new_pcb_def term_upd_def term_at_def)
    fix x :: u32 assume b: "bit (pDirectory s ! 32) 0" and x: "drop_bit 22 x = 32"
    have up: "\<not> in_region x a n" if "below_user a n" for a n
      using in_region_below [OF that, of x] below_not_user_page x by blast
    have "frames t (pDirectory s ! 32 AND 0xFFC00000) (x AND 0x3FFFFF) = m (0x8000000 + (x AND 0x3FFFFF))"
      using switch_user_page_sel(4) [of ?u pid] pd pid b t(10) by (simp add: frame_simps cli)
    also have "\<dots> = mem s x" using split_user_address [OF x] m up l by simp
    finally show "frames t (pDirectory s ! 32 AND 0xFFC00000) (x AND 0x3FFFFF) = mem s x" .
  qed
qed

section \<open>Halt\<close>

definition closable :: "file_descriptor_t \<Rightarrow> bool" where
  "closable d \<longleftrightarrow> flags d \<noteq> 1 \<or> descriptor_op_ptr d \<in> {term_table, rtc_table, directory_table, file_table}"

definition emptied :: "file_descriptor_t \<Rightarrow> file_descriptor_t" where
  "emptied d = d\<lparr>flags := OUT_OF_USE, descriptor_op_ptr := NULL\<rparr>"

abbreviation fd_list :: "'a process_scheme \<Rightarrow> file_descriptor_t list" where
  "fd_list s \<equiv> file_descriptor_array (this_pcb s)"

lemma set_fd_as_set_fds: "set_fd p i f s = set_fds p ((file_descriptor_array (pcbs s p))[i := f (file_descriptor_array (pcbs s p) ! i)]) s"
  by (simp add: set_fd_def set_fds_def)

lemma set_fds_twice: "set_fds p ds (set_fds p es s) = set_fds p ds s"
  by (simp add: set_fds_def)

lemma set_fds_sel [frame_simps]:
  "get_pcb (set_fds p ds s) = get_pcb s" "file_descriptor_array (pcbs (set_fds p ds s) p) = ds"
  "terminal (set_fds p ds s) = terminal s" "pcb_occupants (set_fds p ds s) = pcb_occupants s"
  "process_previous (set_fds p ds s) = process_previous s" "pcb_process_num (pcbs (set_fds p ds s) q) = pcb_process_num (pcbs s q)"
  "pcb_esp (pcbs (set_fds p ds s) q) = pcb_esp (pcbs s q)" "pcb_ebp (pcbs (set_fds p ds s) q) = pcb_ebp (pcbs s q)"
  "pDirectory (set_fds p ds s) = pDirectory s" "mem (set_fds p ds s) = mem s" "frames (set_fds p ds s) = frames s"
  by (simp_all add: set_fds_def get_pcb_def)

lemma table_close_some: "tbl \<in> {term_table, rtc_table, directory_table, file_table} \<Longrightarrow> table_close tbl fd s = Some (0, s)"
  by (auto simp: terminal_close_def rtc_close_def directory_close_def file_close_def)

lemma halt_close_empties:
  assumes "fds_ok s" and "2 \<le> i" "i < 8" and "closable (fd_list s ! i)"
  shows "halt_close i s = Some (set_fds (get_pcb s) ((fd_list s)[i := emptied (fd_list s ! i)]) s)"
proof (cases "flags (fd_list s ! i) = 1")
  case False
  then show ?thesis using assms(3) by (simp add: halt_close_def fd_at_def set_fd_as_set_fds emptied_def)
next
  case True
  let ?t = "set_fds (get_pcb s) ((fd_list s)[i := (fd_list s ! i)\<lparr>flags := OUT_OF_USE\<rparr>]) s"
  have "descriptor_op_ptr (fd_at (int i) ?t) = descriptor_op_ptr (fd_list s ! i)"
    using assms(1,3) by (simp add: fd_at_def frame_simps fds_ok_def)
  then have "sys_close (int i) s = Some (0, ?t)"
    using assms True table_close_some [of "descriptor_op_ptr (fd_list s ! i)"]
    by (simp add: sys_close_def Let_def fd_at_def set_fd_as_set_fds closable_def)
  then show ?thesis using True assms(1,3)
    by (simp add: halt_close_def fd_at_def set_fd_as_set_fds frame_simps fds_ok_def set_fds_twice emptied_def)
qed

lemma halt_close_all_empties:
  assumes "fds_ok s" and "\<And>i. i \<in> set is \<Longrightarrow> 2 \<le> i \<and> i < 8 \<and> closable (fd_list s ! i)"
  shows "halt_close_all is s = Some (set_fds (get_pcb s) (fold (\<lambda>i ds. ds[i := emptied (ds ! i)]) is (fd_list s)) s)"
  using assms
proof (induction "is" arbitrary: s)
  case Nil
  then show ?case by (simp add: set_fds_id)
next
  case (Cons i "is")
  let ?t = "set_fds (get_pcb s) ((fd_list s)[i := emptied (fd_list s ! i)]) s"
  have step: "halt_close i s = Some ?t" using Cons.prems by (intro halt_close_empties) auto
  have ok: "fds_ok ?t" using Cons.prems(1) by (simp add: fds_ok_def frame_simps)
  have "closable (emptied d)" for d by (simp add: closable_def emptied_def)
  then have "\<And>j. j \<in> set is \<Longrightarrow> 2 \<le> j \<and> j < 8 \<and> closable (fd_list ?t ! j)"
    using Cons.prems by (auto simp: frame_simps nth_list_update fds_ok_def)
  from Cons.IH [OF ok this] show ?case using step by (simp add: frame_simps set_fds_twice)
qed

lemma process_terminal_cong:
  "terminal s = terminal t \<Longrightarrow> pcb_process_num (this_pcb s) = pcb_process_num (this_pcb t) \<Longrightarrow> process_terminal s = process_terminal t"
  by (simp add: process_terminal_def)

lemma halt_resumes:
  assumes ok: "fds_ok s" "\<And>i. 2 \<le> i \<Longrightarrow> i < 8 \<Longrightarrow> closable (fd_list s ! i)"
    and tm: "process_terminal s = Some tn" and pid: "process_num (terminal s ! tn) = int pid" "3 \<le> pid" "pid < 6"
  shows "\<exists>ds. halt l status s = Some (halt_resume tn pid (get_pcb s) status
     ((set_fds (get_pcb s) ds s)\<lparr>pcb_occupants := (pcb_occupants s)[pid := 0]\<rparr>))"
proof -
  let ?ds = "fold (\<lambda>i ds. ds[i := emptied (ds ! i)]) [2..<8] (fd_list s)"
  let ?t = "set_fds (get_pcb s) ?ds s"
  have "halt_close_all [2..<8] s = Some ?t" using ok by (intro halt_close_all_empties) auto
  moreover have "process_terminal ?t = Some tn" using tm process_terminal_cong [of ?t s] by (simp add: frame_simps)
  moreover have "process_num (term_at (int tn) ?t) = int pid" using pid by (simp add: term_at_def frame_simps)
  ultimately have "halt l status s = Some (halt_resume tn pid (get_pcb s) status
      (?t\<lparr>pcb_occupants := (pcb_occupants s)[pid := 0]\<rparr>))"
    using pid(2,3) by (simp add: halt_def Let_def frame_simps)
  then show ?thesis by blast
qed

section \<open>What execute leaves in the process tables\<close>

definition kernel_view :: "'a process_scheme \<Rightarrow> (u32 \<times> u32 \<times> (u32 \<Rightarrow> pcb_t) \<times> (u32 \<Rightarrow> int \<Rightarrow> file_descriptor_t) \<times> int list \<times> int list)
    \<times> terminal_t list \<times> int \<times> sched_t \<times> u32 list \<times> (u32 \<Rightarrow> u32 \<Rightarrow> u8)" where
  "kernel_view s = (proc_view s, terminal s, active_terminal s, active_schedule s, pDirectory s, frames s)"

lemma kernel_viewD:
  assumes "kernel_view s = kernel_view t"
  shows "proc_view s = proc_view t" "terminal s = terminal t" "active_terminal s = active_terminal t"
    "pDirectory s = pDirectory t" "frames s = frames t" "free_pid s = free_pid t" "active_schedule s = active_schedule t"
  using assms by (simp_all add: kernel_view_def proc_view_def free_pid_def)

lemma putc_kernel_view: "kernel_view (putc c s) = kernel_view s"
  by (simp add: putc_def putc_defs Let_def kernel_view_def proc_view_def update_cursor_def outb_def)

lemma kernel_view_frame [frame_simps]:
  "kernel_view (put_string cs s) = kernel_view s" "kernel_view (s\<lparr>mem := m\<rparr>) = kernel_view s"
  "kernel_view (cli s) = kernel_view s" "kernel_view (sti s) = kernel_view s" "kernel_view (s\<lparr>tss_esp0 := e\<rparr>) = kernel_view s"
proof -
  show "kernel_view (put_string cs s) = kernel_view s"
    by (induction cs arbitrary: s) (simp_all add: put_string_def putc_kernel_view)
qed (simp_all add: kernel_view_def proc_view_def cli_def sti_def)

lemma read_data_kernel_view [frame_simps]: "kernel_view (snd (read_data ino off buf n s)) = kernel_view s"
  by (simp add: read_data_def Let_def frame_simps split: prod.split)

lemma read_data_kernel_view_eq: "read_data ino off buf n s = (r, t) \<Longrightarrow> kernel_view t = kernel_view s"
  using read_data_kernel_view [of ino off buf n s] by simp

lemma read_dentry_kernel_view:
  "read_dentry_by_name f d s = Some (r, t) \<Longrightarrow> kernel_view t = kernel_view s"
  by (auto simp: read_dentry_by_name_def Let_def frame_simps split: if_splits option.splits bind_splits)

lemma parse_kernel_view: "parse cmd f a s = Some t \<Longrightarrow> kernel_view t = kernel_view s"
  by (auto simp: parse_def Let_def frame_simps split: if_splits bind_splits)

lemma check_valid_kernel_view:
  "check_valid l f s = Some (r, t) \<Longrightarrow> kernel_view t = kernel_view s"
  by (auto simp: check_valid_def Let_def frame_simps dest!: read_dentry_kernel_view read_data_kernel_view_eq split: if_splits bind_splits prod.splits)

lemma init_pcb_some:
  assumes "p \<noteq> 0"
  obtains ds where "init_pcb p pid s = (0, s\<lparr>pcbs := (pcbs s)(p := (pcbs s p)\<lparr>file_descriptor_array := ds, pcb_process_num := pid\<rparr>)\<rparr>)"
proof -
  have "set_fd p 1 (\<lambda>_. stdio_fd) (set_fd p 0 (\<lambda>_. stdio_fd) s)
      = set_fds p ((file_descriptor_array (pcbs s p))[0 := stdio_fd, 1 := stdio_fd]) s"
    using set_fd_set_fds set_fds_id by metis
  then obtain ds where "fold (\<lambda>i. set_fd p i (\<lambda>_. closed_fd)) [2..<8]
      (set_fd p 1 (\<lambda>_. stdio_fd) (set_fd p 0 (\<lambda>_. stdio_fd) s)) = set_fds p ds s" using fold_set_fd by metis
  then have "init_pcb p pid s = (0, s\<lparr>pcbs := (pcbs s)(p := (pcbs s p)\<lparr>file_descriptor_array := ds, pcb_process_num := pid\<rparr>)\<rparr>)"
    using assms unfolding init_pcb_def Let_def by (simp add: set_fds_def)
  then show ?thesis by (rule that)
qed

lemma kernel_view_pcbs: "kernel_view s = kernel_view t \<Longrightarrow> kernel_view (s\<lparr>pcbs := b\<rparr>) = kernel_view (t\<lparr>pcbs := b\<rparr>)"
  by (simp add: kernel_view_def proc_view_def)

lemma start_process_tables:
  assumes "start_process l pid ino s = EnterUser e t" and "pid < 6"
  shows "pcb_occupants t = pcb_occupants s" "process_previous t = process_previous s" "terminal t = terminal s"
    "pcb_esp (pcbs t (pcb_addr (int pid))) = esp s" "pcb_ebp (pcbs t (pcb_addr (int pid))) = ebp s"
    "pcb_process_num (pcbs t (pcb_addr (int pid))) = word_of_nat pid"
    "pDirectory t = pDirectory (switch_user_page (int pid) s)" "active_terminal t = active_terminal s"
    "active_schedule t = active_schedule s"
proof -
  let ?p = "pcb_addr (int pid)" and ?u = "switch_user_page (int pid) s"
  let ?v = "snd (read_data ino 0 PROGRAM_IMAGE_OFFSET (file_size ?u (mem ?u) ino) ?u)"
  obtain ds where i: "init_pcb ?p (word_of_nat pid) ?v =
      (0, ?v\<lparr>pcbs := (pcbs ?v)(?p := (pcbs ?v ?p)\<lparr>file_descriptor_array := ds, pcb_process_num := word_of_nat pid\<rparr>)\<rparr>)"
    by (rule init_pcb_some [OF pcb_addr_nonzero [OF assms(2)]])
  have kv: "kernel_view ?v = kernel_view ?u" by (rule read_data_kernel_view)
  let ?b = "(pcbs ?v ?p)\<lparr>file_descriptor_array := ds, pcb_process_num := word_of_nat pid\<rparr>"
  define w where "w = snd (read_data ino 24 (l_enter l) 4 (?v\<lparr>pcbs := (pcbs ?v)(?p := ?b\<lparr>arguments := read_bytes (mem ?v) (l_args l) 32\<rparr>),
      mem := store32 (mem ?v) (l_enter l) 0\<rparr>))"
  have w: "kernel_view w = kernel_view (?v\<lparr>pcbs := (pcbs ?v)(?p := ?b\<lparr>arguments := read_bytes (mem ?v) (l_args l) 32\<rparr>)\<rparr>)"
    unfolding w_def by (simp add: frame_simps)
  have t: "t = set_fd ?p 0 (\<lambda>d. d\<lparr>descriptor_op_ptr := Wild (l_ring3_esp l), inode_num := l_ring3_esp l\<rparr>)
      (sti (w\<lparr>tss_esp0 := kernel_stack_top (int pid), pcbs := (pcbs w)(?p := (pcbs w ?p)\<lparr>pcb_esp := esp w, pcb_ebp := ebp w\<rparr>)\<rparr>))"
    using assms(1) unfolding start_process_def Let_def i prod.case by (simp add: w_def go_to_ring_three_def)
  note w' = kernel_viewD [OF w] proc_viewD [OF kernel_viewD(1) [OF w]]
    and v' = kernel_viewD [OF kv] proc_viewD [OF kernel_viewD(1) [OF kv]]
    and u' = switch_user_page_fs proc_viewD [OF switch_user_page_fs(4)]
  show "pcb_occupants t = pcb_occupants s" "process_previous t = process_previous s" "terminal t = terminal s"
    "pcb_esp (pcbs t ?p) = esp s" "pcb_ebp (pcbs t ?p) = ebp s" "pcb_process_num (pcbs t ?p) = word_of_nat pid"
    "pDirectory t = pDirectory ?u" "active_terminal t = active_terminal s" "active_schedule t = active_schedule s"
    using w' v' u' unfolding t by (simp_all add: set_fd_def sti_def)
qed

lemma execute_tables:
  assumes "execute l cmd s = Some (EnterUser e t)"
  obtains pid where "free_pid s = Some pid" and "pcb_occupants t = (pcb_occupants s)[pid := -1]"
    and "process_previous t = (process_previous s)[pid := process_num (active s)]"
    and "terminal t = terminal (term_upd (active_terminal s) (\<lambda>t. t\<lparr>process_num := int pid\<rparr>) s)"
    and "pcb_esp (pcbs t (pcb_addr (int pid))) = esp s" "pcb_ebp (pcbs t (pcb_addr (int pid))) = ebp s"
    and "pcb_process_num (pcbs t (pcb_addr (int pid))) = word_of_nat pid"
    and "active_terminal t = active_terminal s" "active_schedule t = active_schedule s"
proof -
  obtain u r v pid where p: "parse cmd (l_file_name l) (l_args l) (cli s) = Some u"
    and c: "check_valid l (l_file_name l) u = Some (r, v)" and f: "free_pid v = Some pid"
    and run: "start_process l pid (word_of_int r) (claim_pid pid v) = EnterUser e t"
    using assms by (auto simp: execute_def Let_def split: if_splits bind_splits option.splits)
  have kv: "kernel_view v = kernel_view s"
    using parse_kernel_view [OF p] check_valid_kernel_view [OF c] by (simp add: frame_simps)
  note v = kernel_viewD [OF kv] proc_viewD [OF kernel_viewD(1) [OF kv]]
  have "pid < 6" using scan_Some [OF f [unfolded free_pid_def]] by simp
  note t = start_process_tables [OF run this]
  show ?thesis
    by (rule that [of pid]) (use f t v in \<open>simp_all add: claim_pid_sel claim_pid_terminal frame_simps term_upd_def term_at_def\<close>)
qed

text \<open>What a program and the kernel on its behalf keep while it runs: its slot, its parent, its terminal, its saved frame.\<close>

definition same_process :: "nat \<Rightarrow> 'a process_scheme \<Rightarrow> 'a process_scheme \<Rightarrow> bool" where
  "same_process pid t u \<longleftrightarrow>
     pcb_occupants u = pcb_occupants t \<and> process_previous u = process_previous t
     \<and> map process_num (terminal u) = map process_num (terminal t)
     \<and> pcb_esp (pcbs u (pcb_addr (int pid))) = pcb_esp (pcbs t (pcb_addr (int pid)))
     \<and> pcb_ebp (pcbs u (pcb_addr (int pid))) = pcb_ebp (pcbs t (pcb_addr (int pid)))
     \<and> pcb_process_num (pcbs u (pcb_addr (int pid))) = pcb_process_num (pcbs t (pcb_addr (int pid)))"

definition tables_wf :: "'a process_scheme \<Rightarrow> bool" where
  "tables_wf s \<longleftrightarrow> length (pcb_occupants s) = 6 \<and> length (process_previous s) = 6 \<and> length (terminal s) = 3
     \<and> 0 \<le> active_terminal s \<and> active_terminal s < 3 \<and> list_all (\<lambda>t. 0 \<le> process_num t \<and> process_num t < 6) (terminal s)"

lemma small_int_words: "0 \<le> i \<Longrightarrow> i < 6 \<Longrightarrow> k < 6 \<Longrightarrow> (word_of_int i = (word_of_nat k :: u32)) = (i = int k)"
proof -
  assume "0 \<le> i" "i < 6" "k < 6"
  then have "uint (word_of_int i :: u32) = i" "uint (word_of_nat k :: u32) = int k"
    by (simp_all add: unsigned_of_int unsigned_of_nat take_bit_int_eq_self take_bit_nat_eq_self)
  then show ?thesis by (metis of_int_of_nat_eq)
qed

lemma nums_eq: "map process_num ts = map process_num us \<Longrightarrow> j < length us \<Longrightarrow> process_num (ts ! j) = process_num (us ! j)"
  by (metis length_map nth_map)

text \<open>The terminal of the process that \<open>execute\<close> has started is the one it was started on.\<close>

lemma started_terminal:
  assumes wf: "tables_wf s" and pid: "pid < 6" "list_all (\<lambda>t. process_num t \<noteq> int pid) (terminal s)"
    and nums: "map process_num (terminal u) = map process_num ((terminal s)[nat (active_terminal s) := (active s)\<lparr>process_num := int pid\<rparr>])"
    and num: "pcb_process_num (this_pcb u) = word_of_nat pid"
  shows "process_terminal u = Some (nat (active_terminal s))" "process_num (terminal u ! nat (active_terminal s)) = int pid"
    "length (terminal u) = 3"
proof -
  let ?a = "nat (active_terminal s)"
  have len: "length (terminal s) = 3" "?a < 3" using wf by (auto simp: tables_wf_def)
  show "length (terminal u) = 3" using nums len by (metis length_list_update length_map)
  have n: "process_num (terminal u ! j) = (if j = ?a then int pid else process_num (terminal s ! j))" if "j < 3" for j
    using nums_eq [OF nums, of j] that len by (simp add: nth_list_update)
  show a: "process_num (terminal u ! ?a) = int pid" using n [OF len(2)] by simp
  have "process_num (terminal s ! j) \<noteq> int pid" "0 \<le> process_num (terminal s ! j)" "process_num (terminal s ! j) < 6" if "j < 3" for j
    using that len pid(2) wf by (auto simp: tables_wf_def list_all_length)
  then have "word_of_int (process_num (terminal u ! j)) \<noteq> (word_of_nat pid :: u32)" if "j < ?a" for j
    using that n [of j] len(2) pid(1) small_int_words by simp
  then show "process_terminal u = Some ?a"
    unfolding process_terminal_def num using a len \<open>length (terminal u) = 3\<close> by (intro scan_SomeI) simp_all
qed

lemma halt_resume_view:
  assumes "tn < 3" and "length (terminal s) = 3"
  shows "\<exists>v. halt_resume tn pid c st s = Resume (pcb_esp (pcbs s c)) (pcb_ebp (pcbs s c)) st v
     \<and> pcb_occupants v = pcb_occupants s \<and> tss_esp0 v = pcb_esp (pcbs s c)
     \<and> pDirectory v = pDirectory (map_user_page (process_previous s ! pid) s)
     \<and> terminal v = (terminal s)[tn := (terminal s ! tn)\<lparr>process_num := process_previous s ! pid\<rparr>]"
  using assms by (simp add: halt_resume_def Let_def term_upd_def term_at_def switch_user_page_def map_user_page_def)

section \<open>Properties\<close>

text \<open>An image with the program \<open>p\<close> of 28 bytes, the command \<open>p x\<close>, and three processes running.\<close>

definition exec_example_mem :: mem where
  "exec_example_mem = fold (\<lambda>(a, bs) m. write_bytes m a bs)
     [(0x300000, bytes ''p x''), (0x100004, bytes32 1 @ bytes32 1), (0x100040, bytes ''p''), (0x100060, bytes32 2 @ bytes32 0),
      (0x101000, bytes32 28 @ bytes32 0), (0x102000, [0x7F, 0x45, 0x4C, 0x46]), (0x102018, bytes32 0x08048100)] (\<lambda>_. 0)"

definition exec_example :: process where
  "exec_example = process_example\<lparr>mem := exec_example_mem, pcb_occupants := [-1, -1, -1, 0, 0, 0]\<rparr>"

lemma exec_example_sel:
  "g_b_block exec_example = 0x100000" "g_index_nodes exec_example = 0x101000" "g_directory_entries exec_example = 0x100040"
  "mem exec_example = exec_example_mem" "esp exec_example = 0x7FFF00" "ebp exec_example = 0x7FFF40" "pcbs exec_example = (\<lambda>_. pcb_example)"
  "pDirectory exec_example = replicate 1024 0" "terminal exec_example = [terminal_example 0, terminal_example 1, terminal_example 2]"
  "pcb_occupants exec_example = [-1, -1, -1, 0, 0, 0]" "process_previous exec_example = [0, 0, 0, 0, 0, 0]" "active_terminal exec_example = 0"
  by (simp_all add: exec_example_def process_example_def kbd.defs kbd_example_def tty.defs tty_example_def fs.defs fs_example_def
      paging.defs paging_example_def rtc.defs)

lemma exec_example_loads:
  "load32 exec_example_mem 0x100004 = 1" "load32 exec_example_mem 0x100008 = 1" "load32 exec_example_mem 0x101000 = 28"
  "load32 exec_example_mem 0x101004 = 0" "load32 exec_example_mem 0x100064 = 0"
  "read_bytes exec_example_mem 0x102000 28 = [0x7F, 0x45, 0x4C, 0x46] @ replicate 20 0 @ bytes32 0x08048100"
  by code_simp+

lemma exec_example_image:
  "num_index_nodes exec_example exec_example_mem = 1" "num_data_blocks exec_example exec_example_mem = 1"
  "file_size exec_example exec_example_mem 0 = 28" "data_block exec_example exec_example_mem 0 0 = 0"
  "dentry_inode_num exec_example_mem (dentry_addr exec_example 0) = 0" "image_len exec_example exec_example_mem = 12288"
  by (simp_all add: num_index_nodes_def num_data_blocks_def file_size_def data_block_def inode_addr_def image_len_def
      dentry_inode_num_def dentry_addr_def exec_example_sel exec_example_loads)

lemma exec_example_wf:
  "kernel_image exec_example" "program_wf exec_example 0" "tables_wf exec_example" "free_pid exec_example = Some 3"
  by (simp_all add: kernel_image_def program_wf_def fs_wf_def inode_wf_def file_blocks_def below_user_def tables_wf_def free_pid_def scan_def
      exec_example_image exec_example_sel terminal_example_def)

lemma exec_example_contents:
  "file_contents exec_example exec_example_mem 0 = [0x7F, 0x45, 0x4C, 0x46] @ replicate 20 0 @ bytes32 0x08048100"
proof -
  have "block_start exec_example exec_example_mem 0 0 = 0x102000"
    by (simp add: block_start_def exec_example_image exec_example_sel)
  then have "read_bytes exec_example_mem 0x102000 28 = take 28 (drop 0 (file_contents exec_example exec_example_mem 0))"
    using block_bytes [of 0 0 28 exec_example exec_example_mem 0] by (simp add: exec_example_image)
  then show ?thesis using exec_example_loads(6) by (simp add: exec_example_image)
qed

lemma exec_example_slot:
  "slot_of exec_example exec_example_mem (command_word (bytes ''p x'')) = Some 0" "cstring exec_example_mem 0x300000 (bytes ''p x'')"
  "command_word (bytes ''p x'') = bytes ''p''" "command_args (bytes ''p x'') = bytes ''x''"
proof -
  show w: "command_word (bytes ''p x'') = bytes ''p''" "command_args (bytes ''p x'') = bytes ''x''" by code_simp+
  show "cstring exec_example_mem 0x300000 (bytes ''p x'')" by code_simp
  have "dentry_name exec_example exec_example_mem 0 = bytes ''p''"
    unfolding dentry_name_def dentry_addr_def exec_example_sel by code_simp
  then show "slot_of exec_example exec_example_mem (command_word (bytes ''p x'')) = Some 0"
    unfolding slot_of_def w by (intro scan_SomeI) simp_all
qed

lemma exec_example_locals: "locals_ok locals_example exec_example 0x300000 (Suc (length (bytes ''p x'')))"
  by (simp add: locals_ok_def locals_example_def outside_image_def disjoint_regions_def below_user_def exec_example_image exec_example_sel)


lemma exec_example_runs:
  "has_magic (file_contents exec_example (mem exec_example) 0)" "entry_point (file_contents exec_example (mem exec_example) 0) = 0x08048100"
  "length (pDirectory exec_example) = 1024" "length (file_descriptor_array (pcbs exec_example (pcb_addr (int 3)))) = 8"
proof -
  show "has_magic (file_contents exec_example (mem exec_example) 0)" by (simp add: has_magic_def exec_example_sel exec_example_contents)
  have "entry_point ([0x7F, 0x45, 0x4C, 0x46] @ replicate 20 0 @ bytes32 0x08048100) = 0x08048100" by code_simp
  then show "entry_point (file_contents exec_example (mem exec_example) 0) = 0x08048100"
    unfolding exec_example_sel exec_example_contents .
qed (simp_all add: exec_example_sel pcb_example_def)




lemma start_process_enters: "pid < 6 \<Longrightarrow> \<exists>e t. start_process l pid ino s = EnterUser e t"
proof -
  assume "pid < 6"
  then obtain ds where "init_pcb (pcb_addr (int pid)) (word_of_nat pid) u =
      (0, u\<lparr>pcbs := (pcbs u)(pcb_addr (int pid) := (pcbs u (pcb_addr (int pid)))\<lparr>file_descriptor_array := ds u, pcb_process_num := word_of_nat pid\<rparr>)\<rparr>)"
    for u :: "'a process_scheme"
    using init_pcb_some [OF pcb_addr_nonzero] by metis
  then show ?thesis by (simp add: start_process_def Let_def go_to_ring_three_def)
qed

lemma read_dentry_interrupts: "read_dentry_by_name f d s = Some (r, t) \<Longrightarrow> interrupts t = interrupts s"
  by (auto simp: read_dentry_by_name_def Let_def frame_simps split: if_splits option.splits bind_splits)

lemma read_data_interrupts: "read_data ino off buf n s = (r, t) \<Longrightarrow> interrupts t = interrupts s"
  by (auto simp: read_data_def Let_def split: prod.splits if_splits)

lemma parse_interrupts: "parse cmd f a s = Some t \<Longrightarrow> interrupts t = interrupts s"
  by (auto simp: parse_def Let_def frame_simps split: if_splits bind_splits)

lemma check_valid_interrupts: "check_valid l f s = Some (r, t) \<Longrightarrow> interrupts t = interrupts s"
  by (auto simp: check_valid_def Let_def frame_simps dest!: read_dentry_interrupts read_data_interrupts
      split: if_splits bind_splits prod.splits)

lemma execute_returns:
  assumes "execute l cmd s = Some (Return r t)"
  shows "r = -1 \<and> kernel_view t = kernel_view s \<and> \<not> interrupts t"
proof -
  have no: "start_process l pid ino u \<noteq> Return r t" if "free_pid v = Some pid" for pid ino u and v :: "'a process_scheme"
  proof -
    have "pid < 6" using scan_Some [OF that [unfolded free_pid_def]] by simp
    then show ?thesis using start_process_enters by (metis outcome.distinct(1))
  qed
  have "(\<exists>msg. r = -1 \<and> t = put_string msg (cli s))
     \<or> (\<exists>u k v msg. parse cmd (l_file_name l) (l_args l) (cli s) = Some u \<and> check_valid l (l_file_name l) u = Some (k, v)
        \<and> r = -1 \<and> t = put_string msg v)"
    using assms no by (auto simp: execute_def Let_def split: if_splits bind_splits option.splits)
  then show ?thesis
  proof (elim disjE exE conjE)
    fix u k v msg
    assume p: "parse cmd (l_file_name l) (l_args l) (cli s) = Some u" and c: "check_valid l (l_file_name l) u = Some (k, v)"
      and "r = -1" "t = put_string msg v"
    then show ?thesis
      using parse_kernel_view [OF p] parse_interrupts [OF p] check_valid_kernel_view [OF c] check_valid_interrupts [OF c]
      by (simp add: frame_simps)
  qed (simp add: frame_simps)
qed

lemma execute_not_resume: "execute l cmd s \<noteq> Some (Resume a b c t)"
proof -
  have "start_process l pid ino u \<noteq> Resume a b c t" if "free_pid v = Some pid" for pid ino u and v :: "'a process_scheme"
  proof -
    have "pid < 6" using scan_Some [OF that [unfolded free_pid_def]] by simp
    then show ?thesis using start_process_enters by (metis outcome.distinct(5))
  qed
  then show ?thesis by (auto simp: execute_def Let_def split: if_splits bind_splits option.splits)
qed





end
