(* ===== verification/Schedule.thy ===== *)
theory Schedule
  imports Execute
begin

text \<open>
  The scheduler of \<^verbatim>\<open>src/student-distrib/schedule.c\<close> and the timer that drives it,
  \<^verbatim>\<open>pit.c\<close>. The first three ticks start a shell on each terminal, the fourth shows terminal 0, and
  from then on every tick gives the processor to the process of the next terminal. A tick of the last kind saves the stack pointers of the process it
  interrupts and loads those of the next one: what follows the tick runs on the other stack. The main results are that
  ticks go round, that the interrupted process gets back exactly its stack and that no tick changes the memory of any
  process.
\<close>

section \<open>Operations\<close>

abbreviation MAX_TERMINALS :: int where "MAX_TERMINALS \<equiv> 3"

definition schedule_initialization :: "'a process_scheme \<Rightarrow> 'a process_scheme" where
  "schedule_initialization s = s\<lparr>active_schedule :=
     \<lparr>current_running_process_count = 0, next_terminal_in_schedule = 2, schedule_activated = 1\<rparr>\<rparr>"

text \<open>Storing the stack pointers in a terminal structure.\<close>

definition save_stack :: "int \<Rightarrow> 'a process_scheme \<Rightarrow> 'a process_scheme" where
  "save_stack i s = term_upd i (\<lambda>t. t\<lparr>current_esp := esp s, current_ebp := ebp s\<rparr>) s"

definition count_process :: "'a process_scheme \<Rightarrow> 'a process_scheme" where
  "count_process s = s\<lparr>active_schedule := (active_schedule s)\<lparr>current_running_process_count :=
     current_running_process_count (active_schedule s) + 1\<rparr>\<rparr>"

text \<open>The branch that starts a shell: \<open>execute\<close> enters it or, when it fails, returns.\<close>

definition schedule_start :: "locals \<Rightarrow> 'a process_scheme \<Rightarrow> 'a process_scheme outcome option" where
  "schedule_start l s =
     (let s = (if current_running_process_count (active_schedule s) \<noteq> 0 then save_stack (active_terminal s) s else s);
          last_running_process = current_running_process_count (active_schedule s);
          s = save_and_switch_term last_running_process s;
          s = s\<lparr>active_terminal := last_running_process\<rparr>;
          s = count_process s;
          s = sti s
      in do {
        r \<leftarrow> execute l (l_shell l) s;
        Some (case r of Return _ s \<Rightarrow> Return 0 (sti s) | _ \<Rightarrow> r)
      })"

definition schedule_show :: "'a process_scheme \<Rightarrow> 'a process_scheme" where
  "schedule_show s =
     (let s = save_stack 2 s;
          s = count_process s
      in save_and_switch_term 0 s)"

definition schedule_next :: "'a process_scheme \<Rightarrow> 'a process_scheme" where
  "schedule_next s =
     (let s = save_stack (next_terminal_in_schedule (active_schedule s)) s;
          s = s\<lparr>active_schedule := (active_schedule s)\<lparr>next_terminal_in_schedule :=
                next_terminal_in_schedule (active_schedule s) + 1\<rparr>\<rparr>;
          s = s\<lparr>active_schedule := (active_schedule s)\<lparr>next_terminal_in_schedule :=
                next_terminal_in_schedule (active_schedule s) mod 3\<rparr>\<rparr>;
          next = next_terminal_in_schedule (active_schedule s);
          s = (if next \<noteq> active_terminal s then disable_irq 1 s else enable_irq 1 s);
          pid = process_num (term_at next s);
          s = switch_user_page pid s;
          s = s\<lparr>tss_esp0 := kernel_stack_top pid\<rparr>
      in s\<lparr>esp := current_esp (term_at next s), ebp := current_ebp (term_at next s)\<rparr>)"

definition schedule_handling :: "locals \<Rightarrow> 'a process_scheme \<Rightarrow> 'a process_scheme outcome option" where
  "schedule_handling l s =
     (let s = cli s;
          n = current_running_process_count (active_schedule s)
      in if schedule_activated (active_schedule s) \<noteq> 0 then
           if n < MAX_TERMINALS then schedule_start l s
           else if n = MAX_TERMINALS then Some (Return 0 (sti (schedule_show s)))
           else Some (Return 0 (sti (schedule_next s)))
         else Some (Return 0 (put_string (bytes ''schedule not yet activated for this OS'') s)))"

section \<open>The timer\<close>

abbreviation PIT_IRQ :: u32 where "PIT_IRQ \<equiv> 0"

text \<open>The divisor is 11931; its low byte is taken with a logical conjunction, whose value is 1.\<close>

definition PIT_initialize :: "'a process_scheme \<Rightarrow> 'a process_scheme" where
  "PIT_initialize s =
     (let s = schedule_initialization s;
          s = enable_irq PIT_IRQ s;
          s = outb 0x34 0x43 s;
          s = outb (if (11931 :: nat) \<noteq> 0 \<and> (0xFF :: nat) \<noteq> 0 then 1 else 0) 0x40 s
      in outb (word_of_nat (11931 div 256)) 0x40 s)"

definition PIT_handler :: "locals \<Rightarrow> 'a process_scheme \<Rightarrow> 'a process_scheme outcome option" where
  "PIT_handler l s =
     (let s = disable_irq 1 s;
          s = send_eoi PIT_IRQ s
      in schedule_handling l s)"

section \<open>The memory of every process\<close>

text \<open>
  The bytes of the user page of process \<open>pid\<close>: in memory while the page is mapped, in its frame otherwise. Loading another page keeps
  them all.
\<close>

definition page_of :: "'a process_scheme \<Rightarrow> nat \<Rightarrow> u32 \<Rightarrow> u8" where
  "page_of s pid x =
     (if pDirectory s ! 32 = user_entry pid then mem s (0x8000000 + (x AND 0x3FFFFF))
      else frames s (EIGHTMB + FOURMB * word_of_nat pid) (x AND 0x3FFFFF))"

lemma user_entry_inj: "p < 6 \<Longrightarrow> q < 6 \<Longrightarrow> user_entry p = user_entry q \<Longrightarrow> p = q"
  using user_entry_frame(1) user_frame_inj by metis

lemma user_page_offset: "drop_bit 22 (0x8000000 + (x AND 0x3FFFFF)) = (32 :: u32)"
  "(0x8000000 + (x AND 0x3FFFFF)) AND 0x3FFFFF = x AND (0x3FFFFF :: u32)"
proof -
  have m: "y AND 0x3FFFFF = y mod 4194304" for y :: u32
    by (simp add: page_masks take_bit_eq_mask [symmetric] take_bit_eq_mod)
  have lt: "unat (x mod 4194304) < 4194304" by (simp add: unat_mod)
  have s: "unat (0x8000000 + x mod 4194304) = 134217728 + unat (x mod 4194304)"
    using lt by (simp add: unat_word_ariths(1) [where a = "0x8000000"])
  have "unat (drop_bit 22 (0x8000000 + x mod 4194304)) = unat (32 :: u32)"
    using lt s by (simp add: drop_bit_eq_div unat_div)
  then show "drop_bit 22 (0x8000000 + (x AND 0x3FFFFF)) = (32 :: u32)" unfolding m by (simp only: unsigned_word_eqI)
  have "(134217728 + a) mod 4194304 = a mod 4194304" for a :: nat using mod_mult_self4 [of 4194304 32 a] by simp
  then have "unat ((0x8000000 + x mod 4194304) mod 4194304) = unat (x mod 4194304)" using s by (simp add: unat_mod)
  then show "(0x8000000 + (x AND 0x3FFFFF)) AND 0x3FFFFF = x AND (0x3FFFFF :: u32)" unfolding m by (simp only: unsigned_word_eqI)
qed

lemma page_of_switch:
  assumes len: "length (pDirectory s) = 1024" and p: "p < 6" "pDirectory s ! 32 = user_entry p" and q: "q < 6" and r: "r < 6"
  shows "page_of (switch_user_page (int q) s) r x = page_of s r x"
proof -
  let ?u = "switch_user_page (int q) s" and ?F = "\<lambda>k. EIGHTMB + FOURMB * word_of_nat k :: u32" and ?o = "x AND 0x3FFFFF"
  have pd: "pDirectory ?u ! 32 = user_entry q" using switch_user_page_sel(1) [OF len q] len by simp
  have b: "bit (pDirectory s ! 32) 0" using user_entry_frame(2) [OF p(1)] p(2) by simp
  have fr: "frames ?u = (frames s)(?F p := \<lambda>off. mem s (0x8000000 + off))"
    using switch_user_page_sel(4) [OF len q b] p user_entry_frame(1) [OF p(1)] by simp
  have mapped: "mem ?u (0x8000000 + ?o) = frames ?u (?F q) ?o"
    using switch_user_page_sel(3) [OF len q user_page_offset(1)] user_page_offset(2) by simp
  have "page_of ?u r x = frames ?u (?F r) ?o"
    using pd mapped user_entry_inj [OF q r] by (auto simp: page_of_def)
  also have "\<dots> = page_of s r x"
    using fr p user_frame_inj [of r p] r user_entry_inj [OF p(1) r] by (auto simp: page_of_def)
  finally show ?thesis .
qed

section \<open>One tick\<close>

definition sched_wf :: "'a process_scheme \<Rightarrow> bool" where
  "sched_wf s \<longleftrightarrow> length (terminal s) = 3 \<and> length (pDirectory s) = 1024
     \<and> next_terminal_in_schedule (active_schedule s) \<in> {0, 1, 2}
     \<and> list_all (\<lambda>t. 0 \<le> process_num t \<and> process_num t < 6) (terminal s)
     \<and> pDirectory s ! 32 = user_entry (nat (process_num (term_at (next_terminal_in_schedule (active_schedule s)) s)))"

text \<open>The terminal whose process runs, the one that is next, and its process.\<close>

abbreviation turn :: "'a process_scheme \<Rightarrow> int" where
  "turn s \<equiv> next_terminal_in_schedule (active_schedule s)"

abbreviation proc_of :: "int \<Rightarrow> 'a process_scheme \<Rightarrow> nat" where
  "proc_of i s \<equiv> nat (process_num (term_at i s))"

lemma sched_wfD:
  assumes "sched_wf s"
  shows "length (terminal s) = 3" "length (pDirectory s) = 1024" "0 \<le> turn s" "turn s < 3"
    "pDirectory s ! 32 = user_entry (proc_of (turn s) s)"
    "0 \<le> i \<Longrightarrow> i < 3 \<Longrightarrow> proc_of i s < 6" "0 \<le> i \<Longrightarrow> i < 3 \<Longrightarrow> int (proc_of i s) = process_num (term_at i s)"
proof -
  show "length (terminal s) = 3" "length (pDirectory s) = 1024" "0 \<le> turn s" "turn s < 3"
    "pDirectory s ! 32 = user_entry (proc_of (turn s) s)"
    using assms by (auto simp: sched_wf_def)
  assume "0 \<le> i" "i < 3"
  then have "nat i < length (terminal s)" using assms by (simp add: sched_wf_def)
  then have "0 \<le> process_num (term_at i s)" "process_num (term_at i s) < 6"
    using assms by (auto simp: sched_wf_def list_all_length term_at_def)
  then show "proc_of i s < 6" "int (proc_of i s) = process_num (term_at i s)" by simp_all
qed

definition irq_view :: "'a process_scheme \<Rightarrow> _" where
  "irq_view s = (kernel_view s, mem s, active_schedule s, screen_x s, screen_y s, tss_esp0 s)"

lemma irq_view_frame:
  "irq_view (enable_irq 1 s) = irq_view s" "irq_view (disable_irq 1 s) = irq_view s" "irq_view (cli s) = irq_view s"
  "irq_view (send_eoi 0 s) = irq_view s"
  by (simp_all add: irq_view_def kernel_view_def proc_view_def enable_irq_def disable_irq_def send_eoi_def cli_def outb_def Let_def word_le_nat_alt word_less_nat_alt)

lemma irq_viewD:
  assumes "irq_view s = irq_view t"
  shows "terminal s = terminal t" "active_terminal s = active_terminal t" "pDirectory s = pDirectory t" "frames s = frames t"
    "mem s = mem t" "active_schedule s = active_schedule t" "esp s = esp t" "ebp s = ebp t" "pcb_occupants s = pcb_occupants t"
    "process_previous s = process_previous t" "pcbs s = pcbs t"
  using assms by (simp_all add: irq_view_def kernel_view_def proc_view_def)

lemma switch_fields:
  "frames (switch_user_page pid s) = (if bit (pDirectory s ! 32) 0
     then (frames s)(pDirectory s ! 32 AND 0xFFC00000 := \<lambda>off. mem s (0x8000000 + off)) else frames s)"
  "pDirectory (switch_user_page pid s) = (pDirectory s)[32 := (EIGHTMB + FOURMB * word_of_int pid) OR 0x87]"
  "mem (switch_user_page pid s) x = (if drop_bit 22 x = 32
     then frames (switch_user_page pid s) (pDirectory (switch_user_page pid s) ! 32 AND 0xFFC00000) (x AND 0x3FFFFF) else mem s x)"
proof -
  show "frames (switch_user_page pid s) = (if bit (pDirectory s ! 32) 0
      then (frames s)(pDirectory s ! 32 AND 0xFFC00000 := \<lambda>off. mem s (0x8000000 + off)) else frames s)"
    "pDirectory (switch_user_page pid s) = (pDirectory s)[32 := (EIGHTMB + FOURMB * word_of_int pid) OR 0x87]"
    by (simp_all add: switch_user_page_def map_user_page_def user_frame_of_def Let_def)
  show "mem (switch_user_page pid s) x = (if drop_bit 22 x = 32
      then frames (switch_user_page pid s) (pDirectory (switch_user_page pid s) ! 32 AND 0xFFC00000) (x AND 0x3FFFFF) else mem s x)"
    by (cases "drop_bit 22 x = 32") (simp_all add: switch_user_page_def map_user_page_def user_frame_of_def Let_def)
qed

lemma switch_cong:
  assumes "pDirectory s = pDirectory t" "frames s = frames t" "mem s = mem t"
  shows "frames (switch_user_page pid s) = frames (switch_user_page pid t)"
    "pDirectory (switch_user_page pid s) = pDirectory (switch_user_page pid t)"
    "mem (switch_user_page pid s) = mem (switch_user_page pid t)"
proof -
  show f: "frames (switch_user_page pid s) = frames (switch_user_page pid t)"
    and p: "pDirectory (switch_user_page pid s) = pDirectory (switch_user_page pid t)"
    using assms by (simp_all add: switch_fields(1,2))
  show "mem (switch_user_page pid s) = mem (switch_user_page pid t)"
    by (rule ext) (simp only: switch_fields(3) f p assms(3))
qed

lemma switch_more [frame_simps]:
  "master_bit_mask (switch_user_page pid s) = master_bit_mask s"
  "pcb_occupants (switch_user_page pid s) = pcb_occupants s"
  by (simp_all add: switch_user_page_def map_user_page_def Let_def)

text \<open>The state in which the next process is chosen: the interrupted one is saved, the turn has moved, the keyboard line is set.\<close>

lemma turn_mod: "0 \<le> n \<Longrightarrow> n < 3 \<Longrightarrow> 0 \<le> (n + 1) mod 3 \<and> (n + 1) mod 3 < (3 :: int) \<and> (n + 1) mod 3 \<noteq> n"
  by presburger

lemma schedule_next_effect:
  assumes wf: "sched_wf s"
  defines "k \<equiv> (turn s + 1) mod 3" and "t \<equiv> schedule_next s"
  shows "turn t = k" "active_schedule t = (active_schedule s)\<lparr>next_terminal_in_schedule := k\<rparr>"
    "terminal t = (terminal s)[nat (turn s) := (term_at (turn s) s)\<lparr>current_esp := esp s, current_ebp := ebp s\<rparr>]"
    "esp t = current_esp (term_at k s)" "ebp t = current_ebp (term_at k s)"
    "tss_esp0 t = kernel_stack_top (int (proc_of k s))"
    "pDirectory t = (pDirectory s)[32 := user_entry (proc_of k s)]"
    "page_of t r x = page_of (switch_user_page (int (proc_of k s)) s) r x"
    "mem t = mem (switch_user_page (int (proc_of k s)) s)"
    "active_terminal t = active_terminal s" "bit (master_bit_mask t) 1 \<longleftrightarrow> k \<noteq> active_terminal s" "pcb_occupants t = pcb_occupants s"
proof -
  note w = sched_wfD [OF wf]
  have k: "0 \<le> k" "k < 3" "k \<noteq> turn s" using turn_mod [OF w(3,4)] by (auto simp: k_def)
  define a where "a = (save_stack (turn s) s)\<lparr>active_schedule := (active_schedule s)\<lparr>next_terminal_in_schedule := k\<rparr>\<rparr>"
  define b where "b = (if k \<noteq> active_terminal s then disable_irq 1 a else enable_irq 1 a)"
  have av: "terminal a = (terminal s)[nat (turn s) := (term_at (turn s) s)\<lparr>current_esp := esp s, current_ebp := ebp s\<rparr>]"
    "active_schedule a = (active_schedule s)\<lparr>next_terminal_in_schedule := k\<rparr>" "mem a = mem s" "frames a = frames s"
    "pDirectory a = pDirectory s" "active_terminal a = active_terminal s" "pcb_occupants a = pcb_occupants s"
    using w by (simp_all add: a_def save_stack_def term_upd_def term_at_def)
  have "irq_view b = irq_view a" by (simp add: b_def irq_view_frame)
  note bv = irq_viewD [OF this, unfolded av]
  have ne: "nat k \<noteq> nat (turn s)" using k w(3) by simp
  have tb: "term_at k b = term_at k s" using ne by (simp add: term_at_def bv)
  let ?u = "switch_user_page (process_num (term_at k s)) b"
  have t: "t = ?u\<lparr>tss_esp0 := kernel_stack_top (process_num (term_at k s)), esp := current_esp (term_at k s), ebp := current_ebp (term_at k s)\<rparr>"
  proof -
    have st: "active_schedule (save_stack i s) = active_schedule s" "active_terminal (save_stack i s) = active_terminal s" for i
      by (simp_all add: save_stack_def frame_simps)
    have as: "active_schedule b = (active_schedule s)\<lparr>next_terminal_in_schedule := k\<rparr>" by (simp add: bv)
    let ?v = "switch_user_page (process_num (term_at k b)) b"
    have "t = (let s = ?v\<lparr>tss_esp0 := kernel_stack_top (process_num (term_at k b))\<rparr>
        in s\<lparr>esp := current_esp (term_at k s), ebp := current_ebp (term_at k s)\<rparr>)"
      by (simp add: t_def schedule_next_def Let_def b_def a_def k_def st irq_viewD(6) [OF irq_view_frame(1)] irq_viewD(6) [OF irq_view_frame(2)])
    moreover have "term_at k (?v\<lparr>tss_esp0 := e\<rparr>) = term_at k b" for e by (simp add: term_at_def frame_simps)
    ultimately show ?thesis by (simp add: Let_def tb)
  qed
  have pk: "int (proc_of k s) = process_num (term_at k s)" "proc_of k s < 6" using w(6,7) k by simp_all
  note sw = switch_cong [OF bv(3,4,5), of "process_num (term_at k s)"]
  show "turn t = k" "active_schedule t = (active_schedule s)\<lparr>next_terminal_in_schedule := k\<rparr>"
    "terminal t = (terminal s)[nat (turn s) := (term_at (turn s) s)\<lparr>current_esp := esp s, current_ebp := ebp s\<rparr>]"
    "esp t = current_esp (term_at k s)" "ebp t = current_ebp (term_at k s)"
    "active_terminal t = active_terminal s" "pcb_occupants t = pcb_occupants s"
    unfolding t by (simp_all add: frame_simps bv)
  show "tss_esp0 t = kernel_stack_top (int (proc_of k s))" unfolding t pk(1) by simp
  show "pDirectory t = (pDirectory s)[32 := user_entry (proc_of k s)]"
    using switch_user_page_sel(1) [OF w(2) pk(2)] sw(2) unfolding t pk(1) by simp
  show "mem t = mem (switch_user_page (int (proc_of k s)) s)" unfolding t pk(1) using sw(3) by simp
  show "page_of t r x = page_of (switch_user_page (int (proc_of k s)) s) r x" unfolding t page_of_def pk(1) using sw by simp
  show "bit (master_bit_mask t) 1 \<longleftrightarrow> k \<noteq> active_terminal s"
    unfolding t by (simp add: frame_simps b_def enable_irq_master_bit disable_irq_master_bit bit_simps)
qed

lemma schedule_next_wf:
  assumes "sched_wf s"
  shows "sched_wf (schedule_next s)" "proc_of i (schedule_next s) = proc_of i s"
    "0 \<le> i \<Longrightarrow> i < 3 \<Longrightarrow> term_at i (schedule_next s) =
       (if i = turn s then (term_at i s)\<lparr>current_esp := esp s, current_ebp := ebp s\<rparr> else term_at i s)"
proof -
  note w = sched_wfD [OF assms] and e = schedule_next_effect [OF assms]
  let ?t = "schedule_next s" and ?k = "(turn s + 1) mod 3"
  show num: "proc_of i ?t = proc_of i s" for i
    using w(1,3,4) by (simp add: term_at_def e(3) nth_list_update)
  have k: "?k \<in> {0, 1, 2}" using w(3,4) by auto
  have "list_all (\<lambda>t. 0 \<le> process_num t \<and> process_num t < 6) (terminal ?t)"
    using assms w(1,3,4) unfolding e(3) sched_wf_def by (simp add: list_all_length nth_list_update term_at_def)
  then show "sched_wf ?t"
    using w(1,2) k num [of ?k] unfolding sched_wf_def e(1,3,7) by simp
  show "term_at i ?t = (if i = turn s then (term_at i s)\<lparr>current_esp := esp s, current_ebp := ebp s\<rparr> else term_at i s)"
    if "0 \<le> i" "i < 3"
    using that w(1,3,4) by (auto simp: term_at_def e(3) nth_list_update)
qed

lemma page_of_next:
  assumes "sched_wf s" and "r < 6"
  shows "page_of (schedule_next s) r x = page_of s r x" "drop_bit 22 y \<noteq> 32 \<Longrightarrow> mem (schedule_next s) y = mem s y"
proof -
  note w = sched_wfD [OF assms(1)] and e = schedule_next_effect [OF assms(1)]
  have k: "0 \<le> (turn s + 1) mod 3" "(turn s + 1) mod 3 < 3" by simp_all
  show "page_of (schedule_next s) r x = page_of s r x"
    unfolding e(8) using page_of_switch [OF w(2) w(6) [OF w(3,4)] w(5) w(6) [OF k] assms(2)] .
  show "mem (schedule_next s) y = mem s y" if "drop_bit 22 y \<noteq> 32"
    unfolding e(9) using switch_user_page_sel(2) [OF w(2) w(6) [OF k] that] .
qed

text \<open>A running process sees its own page.\<close>

lemma running_page:
  assumes "sched_wf s" and "drop_bit 22 x = 32"
  shows "mem s x = page_of s (proc_of (turn s) s) x"
  using sched_wfD(5) [OF assms(1)] split_user_address [OF assms(2)] by (simp add: page_of_def)

lemma tick_next:
  assumes "schedule_activated (active_schedule s) \<noteq> 0" and "current_running_process_count (active_schedule s) > 3"
  shows "schedule_handling l s = Some (Return 0 (sti (schedule_next (cli s))))"
  using assms by (simp add: schedule_handling_def Let_def cli_def)

lemma sched_wf_irq:
  "irq_view s = irq_view t \<Longrightarrow> sched_wf s = sched_wf t" "irq_view s = irq_view t \<Longrightarrow> page_of s = page_of t"
  by (simp_all add: irq_view_def kernel_view_def proc_view_def sched_wf_def term_at_def page_of_def fun_eq_iff)

lemma sti_irq: "irq_view (sti s) = irq_view s" "master_bit_mask (sti s) = master_bit_mask s"
  by (simp_all add: irq_view_def kernel_view_def proc_view_def sti_def)

text \<open>A timer interrupt, once the three shells run: acknowledged, and the turn passed on.\<close>

definition scheduling :: "'a process_scheme \<Rightarrow> bool" where
  "scheduling s \<longleftrightarrow> sched_wf s \<and> schedule_activated (active_schedule s) \<noteq> 0 \<and> current_running_process_count (active_schedule s) > 3"

lemma timer_tick:
  fixes s :: "'a process_scheme"
  assumes "scheduling s"
  obtains u t :: "'a process_scheme" where "PIT_handler l s = Some (Return 0 t)" "irq_view u = irq_view s" "sched_wf u" "irq_view t = irq_view (schedule_next u)"
    "master_bit_mask t = master_bit_mask (schedule_next u)" "interrupts t"
proof -
  let ?v = "send_eoi 0 (disable_irq 1 s)" and ?u = "cli (send_eoi 0 (disable_irq 1 s))"
  have v: "irq_view ?v = irq_view s" "irq_view ?u = irq_view s" by (simp_all add: irq_view_frame)
  have "PIT_handler l s = Some (Return 0 (sti (schedule_next ?u)))"
    unfolding PIT_handler_def Let_def using assms by (intro tick_next) (simp_all add: irq_viewD(6) [OF v(1)] scheduling_def)
  moreover have "sched_wf ?u" using assms sched_wf_irq(1) [OF v(2)] by (simp add: scheduling_def)
  ultimately show ?thesis using that [of "sti (schedule_next ?u)" ?u] v(2) sti_irq by (auto simp: sti_def)
qed

lemma timer_tick_effect:
  fixes s t :: "'a process_scheme"
  assumes "scheduling s" and "PIT_handler l s = Some (Return 0 t)"
  defines "k \<equiv> (turn s + 1) mod 3"
  shows "scheduling t" "turn t = k" "esp t = current_esp (term_at k s)" "ebp t = current_ebp (term_at k s)"
    "tss_esp0 t = kernel_stack_top (int (proc_of k s))" "proc_of i t = proc_of i s"
    "0 \<le> i \<Longrightarrow> i < 3 \<Longrightarrow> term_at i t = (if i = turn s then (term_at i s)\<lparr>current_esp := esp s, current_ebp := ebp s\<rparr> else term_at i s)"
    "active_terminal t = active_terminal s" "bit (master_bit_mask t) 1 \<longleftrightarrow> k \<noteq> active_terminal s"
    "r < 6 \<Longrightarrow> page_of t r x = page_of s r x" "drop_bit 22 x \<noteq> 32 \<Longrightarrow> mem t x = mem s x" "interrupts t"
    "pcb_occupants t = pcb_occupants s"
proof -
  obtain u t' :: "'a process_scheme" where t': "PIT_handler l s = Some (Return 0 t')" and u: "irq_view u = irq_view s" "sched_wf u"
    and tv': "irq_view t' = irq_view (schedule_next u)" and bm': "master_bit_mask t' = master_bit_mask (schedule_next u)" "interrupts t'"
    by (rule timer_tick [OF assms(1), of l])
  have eq: "t' = t" using t' assms(2) by simp
  note tv = tv' [unfolded eq] and bm = bm' [unfolded eq]
  note us = irq_viewD [OF u(1)] and t = irq_viewD [OF tv] and e = schedule_next_effect [OF u(2)] and n = schedule_next_wf [OF u(2)]
    and p = page_of_next [OF u(2)]
  have tu: "term_at j u = term_at j s" "term_at j t = term_at j (schedule_next u)" for j by (simp_all add: term_at_def us(1) t(1))
  show "scheduling t" using n(1) assms(1) sched_wf_irq(1) [OF tv] by (simp add: scheduling_def t(6) e(2) us(6))
  show "turn t = k" "esp t = current_esp (term_at k s)" "ebp t = current_ebp (term_at k s)"
    "active_terminal t = active_terminal s" "bit (master_bit_mask t) 1 \<longleftrightarrow> k \<noteq> active_terminal s" "pcb_occupants t = pcb_occupants s"
    using e(1,4,5,10-12) by (simp_all add: t us k_def tu(1) bm)
  have "tss_esp0 t = tss_esp0 (schedule_next u)" using tv by (simp add: irq_view_def)
  then show "tss_esp0 t = kernel_stack_top (int (proc_of k s))" using e(6) by (simp add: k_def us(6) tu(1))
  show "proc_of i t = proc_of i s" using n(2) [of i] by (simp add: tu)
  show "term_at i t = (if i = turn s then (term_at i s)\<lparr>current_esp := esp s, current_ebp := ebp s\<rparr> else term_at i s)"
    if "0 \<le> i" "i < 3" using n(3) [OF that] by (simp add: tu us(6,7,8))
  show "page_of t r x = page_of s r x" if "r < 6"
    using p(1) [OF that] sched_wf_irq(2) [OF u(1)] sched_wf_irq(2) [OF tv] by simp
  show "mem t x = mem s x" if "drop_bit 22 x \<noteq> 32" using p(2) [of 0, OF _ that] by (simp add: t(5) us(5))
  show "interrupts t" by (rule bm(2))
qed

section \<open>Processes that take turns\<close>

text \<open>
  What the running process does between two interrupts: it computes in its own page, and its stack pointers move.
\<close>

inductive user_step :: "'a process_scheme \<Rightarrow> 'a process_scheme \<Rightarrow> bool" where
  compute: "(\<And>x. drop_bit 22 x \<noteq> 32 \<Longrightarrow> m x = mem s x) \<Longrightarrow> user_step s (s\<lparr>mem := m, esp := e, ebp := b\<rparr>)"

text \<open>
  Runs in which the process of terminal \<open>i\<close> does not compute: the others do, and the timer interrupts them, until the turn comes to \<open>i\<close>.
\<close>

inductive away :: "locals \<Rightarrow> int \<Rightarrow> 'a process_scheme \<Rightarrow> 'a process_scheme \<Rightarrow> bool" for l i s where
  here: "away l i s s"
| other: "away l i s t \<Longrightarrow> turn t \<noteq> i \<Longrightarrow> user_step t u \<Longrightarrow> away l i s u"
| tick: "away l i s t \<Longrightarrow> turn t \<noteq> i \<Longrightarrow> PIT_handler l t = Some (Return 0 u) \<Longrightarrow> away l i s u"

inductive_cases user_stepE: "user_step s t"

lemma user_step_frame:
  assumes "user_step s t" and "scheduling s" and "r < 6" "r \<noteq> proc_of (turn s) s"
  shows "scheduling t" "active_schedule t = active_schedule s" "terminal t = terminal s" "page_of t r x = page_of s r x"
proof -
  have wf: "sched_wf s" using assms(2) by (simp add: scheduling_def)
  have p: "proc_of (turn s) s < 6" using sched_wfD(3,4,6) [OF wf] by simp
  have ne: "user_entry (proc_of (turn s) s) \<noteq> user_entry r" using user_entry_inj [OF p assms(3)] assms(4) by auto
  show "scheduling t" "active_schedule t = active_schedule s" "terminal t = terminal s" "page_of t r x = page_of s r x"
    using assms(1,2) ne sched_wfD(5) [OF wf]
    by (auto elim!: user_stepE simp: scheduling_def sched_wf_def term_at_def page_of_def)
qed

text \<open>The terminals run different processes.\<close>

definition distinct_processes :: "'a process_scheme \<Rightarrow> bool" where
  "distinct_processes s \<longleftrightarrow> distinct (map process_num (terminal s))"

lemma distinct_processesD:
  assumes "distinct_processes s" "scheduling s" and "0 \<le> i" "i < 3" "0 \<le> j" "j < 3" "i \<noteq> j"
  shows "proc_of i s \<noteq> proc_of j s"
proof -
  have wf: "sched_wf s" using assms(2) by (simp add: scheduling_def)
  have "process_num (term_at i s) \<noteq> process_num (term_at j s)"
    using assms sched_wfD(1) [OF wf] nth_eq_iff_index_eq [of "map process_num (terminal s)" "nat i" "nat j"]
    by (simp add: distinct_processes_def term_at_def)
  then show ?thesis using sched_wfD(7) [OF wf assms(3,4)] sched_wfD(7) [OF wf assms(5,6)] by metis
qed

lemma distinct_processes_cong:
  assumes "scheduling s" "scheduling t" "\<And>i. proc_of i t = proc_of i s"
  shows "distinct_processes t = distinct_processes s"
proof -
  have wf: "sched_wf s" "sched_wf t" using assms by (simp_all add: scheduling_def)
  have "process_num (terminal t ! j) = process_num (terminal s ! j)" if "j < 3" for j
    using that assms(3) [of "int j"] sched_wfD(7) [OF wf(1), of "int j"] sched_wfD(7) [OF wf(2), of "int j"] by (simp add: term_at_def)
  then have "map process_num (terminal t) = map process_num (terminal s)"
    using sched_wfD(1) [OF wf(1)] sched_wfD(1) [OF wf(2)] by (intro nth_equalityI) simp_all
  then show ?thesis by (simp add: distinct_processes_def)
qed

lemma away_keeps:
  assumes "away l i s t" and "scheduling s" "distinct_processes s" "0 \<le> i" "i < 3"
  shows "scheduling t \<and> distinct_processes t \<and> proc_of i t = proc_of i s \<and> (\<forall>x. page_of t (proc_of i s) x = page_of s (proc_of i s) x)
     \<and> current_esp (term_at i t) = current_esp (term_at i s) \<and> current_ebp (term_at i t) = current_ebp (term_at i s)
     \<and> (turn s \<noteq> i \<longrightarrow> turn t = i \<longrightarrow> esp t = current_esp (term_at i s) \<and> ebp t = current_ebp (term_at i s))"
  using assms(1)
proof induction
  case here
  then show ?case using assms by simp
next
  case (other t u)
  then have t: "scheduling t" "distinct_processes t" "proc_of i t = proc_of i s" by simp_all
  then have wf: "sched_wf t" by (simp add: scheduling_def)
  have "proc_of i s < 6" "proc_of i s \<noteq> proc_of (turn t) t"
    using sched_wfD(6) [OF wf assms(4,5)] distinct_processesD [OF t(2,1) assms(4,5) sched_wfD(3,4) [OF wf]] other(2) t(3) by auto
  note f = user_step_frame [OF other(3) t(1) this]
  have "term_at j u = term_at j t" for j by (simp add: term_at_def f(3))
  then show ?case using other f by (simp add: distinct_processes_def)
next
  case (tick t u)
  then have t: "scheduling t" "distinct_processes t" "proc_of i t = proc_of i s" by simp_all
  then have wf: "sched_wf t" by (simp add: scheduling_def)
  note e = timer_tick_effect [OF t(1) tick(3)]
  have "distinct_processes u" using distinct_processes_cong [OF t(1) e(1)] e(6) t(2) by simp
  moreover have "term_at i u = term_at i t" using e(7) [OF assms(4,5)] tick(2) by simp
  ultimately show ?case
    using tick e(1-4,6,10) sched_wfD(6) [OF wf assms(4,5)] by simp
qed

section \<open>Starting the shells\<close>

lemma switch_term_frame:
  fixes s :: "'a process_scheme"
  shows "pcb_occupants (save_and_switch_term b s) = pcb_occupants s" "active_schedule (save_and_switch_term b s) = active_schedule s"
    "process_previous (save_and_switch_term b s) = process_previous s"
  by (simp_all add: save_and_switch_term_def Let_def frame_simps term_upd_def update_cursor_def outb_def)

lemma switch_term_at:
  fixes s :: "'a process_scheme"
  assumes "tty_wf s" "0 \<le> b" "b < 3" "0 \<le> j"
  shows "process_num (term_at j (save_and_switch_term b s)) = process_num (term_at j s)"
    "current_esp (term_at j (save_and_switch_term b s)) = current_esp (term_at j s)"
    "length (terminal (save_and_switch_term b s)) = 3"
proof -
  have len: "length (terminal s) = 3" using assms(1) by (simp add: tty_wf_def)
  show "process_num (term_at j (save_and_switch_term b s)) = process_num (term_at j s)"
    "current_esp (term_at j (save_and_switch_term b s)) = current_esp (term_at j s)"
    "length (terminal (save_and_switch_term b s)) = 3"
    using save_and_switch_term_sel(4) [OF assms(1-3), of j] save_and_switch_term_sel(5) [OF assms(1-3)] assms(4) len
    by (cases "b = active_terminal s"; simp add: save_and_switch_term_def)+
qed

lemma tty_wf_save_stack: "tty_wf s \<Longrightarrow> tty_wf (save_stack i s)"
  by (auto simp: save_stack_def term_upd_def tty_wf_def list_all_iff nth_list_update)

text \<open>The state in which \<open>execute\<close> is called.\<close>

definition before_shell :: "'a process_scheme \<Rightarrow> 'a process_scheme" where
  "before_shell s = (let n = current_running_process_count (active_schedule s)
     in sti (count_process ((save_and_switch_term n (if n \<noteq> 0 then save_stack (active_terminal s) s else s))\<lparr>active_terminal := n\<rparr>)))"

lemma before_shell_sel:
  fixes s :: "'a process_scheme"
  assumes wf: "tty_wf s" and n: "n = current_running_process_count (active_schedule s)" "0 \<le> n" "n < 3"
  defines "u \<equiv> before_shell s"
  shows "schedule_start l s = (do { r \<leftarrow> execute l (l_shell l) u; Some (case r of Return _ s \<Rightarrow> Return 0 (sti s) | _ \<Rightarrow> r) })"
    "active_terminal u = n" "current_running_process_count (active_schedule u) = n + 1" "pcb_occupants u = pcb_occupants s"
    "length (terminal u) = 3" "0 \<le> j \<Longrightarrow> process_num (term_at j u) = process_num (term_at j s)"
    "n \<noteq> 0 \<Longrightarrow> current_esp (term_at (active_terminal s) u) = esp s"
proof -
  let ?a = "if n \<noteq> 0 then save_stack (active_terminal s) s else s"
  have act: "active_schedule (save_stack (active_terminal s) s) = active_schedule s" by (simp add: save_stack_def frame_simps)
  have u: "u = sti (count_process ((save_and_switch_term n ?a)\<lparr>active_terminal := n\<rparr>))"
    by (simp add: u_def before_shell_def n(1) Let_def)
  show "schedule_start l s = (do { r \<leftarrow> execute l (l_shell l) u; Some (case r of Return _ s \<Rightarrow> Return 0 (sti s) | _ \<Rightarrow> r) })"
    by (simp add: u schedule_start_def Let_def n(1) act)
  have wfa: "tty_wf ?a" using wf tty_wf_save_stack [OF wf] by simp
  have a: "0 \<le> active_terminal s" "active_terminal s < 3" "length (terminal s) = 3" using wf by (simp_all add: tty_wf_def)
  have fa: "active_schedule ?a = active_schedule s" "pcb_occupants ?a = pcb_occupants s"
    by (simp_all add: act) (simp add: save_stack_def term_upd_def)
  have tu: "term_at j u = term_at j (save_and_switch_term n ?a)" for j
    by (simp add: u count_process_def sti_def term_at_def)
  show "active_terminal u = n" "current_running_process_count (active_schedule u) = n + 1" "pcb_occupants u = pcb_occupants s"
    using fa n(1) unfolding u by (simp_all add: count_process_def sti_def switch_term_frame)
  have "length (terminal (save_and_switch_term n ?a)) = 3" by (rule switch_term_at(3) [OF wfa n(2,3), of 0]) simp
  then show "length (terminal u) = 3" by (simp add: u count_process_def sti_def)
  show "process_num (term_at j u) = process_num (term_at j s)" if "0 \<le> j"
    unfolding tu switch_term_at(1) [OF wfa n(2,3) that] using that a by (simp add: save_stack_def term_at_upd)
  show "current_esp (term_at (active_terminal s) u) = esp s" if "n \<noteq> 0"
    unfolding tu switch_term_at(2) [OF wfa n(2,3) a(1)] using that a by (simp add: save_stack_def term_at_upd)
qed

section \<open>Properties\<close>

text \<open>Three shells are running, the one of terminal 2 is interrupted and terminal 0 is shown.\<close>

definition sched_example :: process where
  "sched_example = exec_example\<lparr>pDirectory := (replicate 1024 0)[32 := user_entry 2],
     active_schedule := \<lparr>current_running_process_count = 4, next_terminal_in_schedule = 2, schedule_activated = 1\<rparr>\<rparr>"

lemma sched_example_ok:
  "scheduling sched_example" "distinct_processes sched_example" "turn sched_example = 2" "active_terminal sched_example = 0"
  "esp sched_example = 0x7FFF00" "ebp sched_example = 0x7FFF40" "mem sched_example = exec_example_mem"
  by (simp_all add: scheduling_def sched_wf_def sched_example_def exec_example_sel terminal_example_def term_at_def
      distinct_processes_def)

text \<open>
  C11. Every timer interrupt passes the turn on. When the three shells run, the handler returns with interrupts enabled; the turn has gone to
  the next terminal, cyclically; the interrupted stack pointers are stored in the terminal that had the turn and those of the next terminal are
  loaded, together with the top of its kernel stack in the task segment; the keyboard line is masked unless
  the next terminal is the one shown; no byte of any process, and none outside the program page, has changed; and the scheduler is ready for the next interrupt.
\<close>

theorem schedule_round_robin:
  assumes "scheduling s"
  shows "\<exists>t. PIT_handler l s = Some (Return 0 t) \<and> turn t = (turn s + 1) mod 3 \<and> interrupts t \<and> scheduling t
     \<and> current_esp (term_at (turn s) t) = esp s \<and> current_ebp (term_at (turn s) t) = ebp s
     \<and> esp t = current_esp (term_at (turn t) s) \<and> ebp t = current_ebp (term_at (turn t) s)
     \<and> tss_esp0 t = kernel_stack_top (int (proc_of (turn t) s))
     \<and> (bit (master_bit_mask t) 1 \<longleftrightarrow> turn t \<noteq> active_terminal t)
     \<and> (\<forall>r x. r < 6 \<longrightarrow> page_of t r x = page_of s r x) \<and> (\<forall>x. drop_bit 22 x \<noteq> 32 \<longrightarrow> mem t x = mem s x)"
proof -
  obtain t where t: "PIT_handler l s = Some (Return 0 t)" by (rule timer_tick [OF assms])
  have "0 \<le> turn s" "turn s < 3" using assms sched_wfD(3,4) by (auto simp: scheduling_def)
  then show ?thesis using t timer_tick_effect [OF assms t] by (intro exI [of _ t]) simp
qed

theorem schedule_round_robin_witness:
  "\<exists>t. PIT_handler locals_example sched_example = Some (Return 0 t) \<and> turn t = 0 \<and> current_esp (term_at 2 t) = 0x7FFF00
     \<and> \<not> bit (master_bit_mask t) 1"
  using schedule_round_robin [OF sched_example_ok(1), of locals_example] timer_tick_effect(8) [OF sched_example_ok(1)]
  by (fastforce simp: sched_example_ok)




text \<open>The first tick, with the program of the example in the place of the shell.\<close>

definition boot_example :: process where
  "boot_example = exec_example\<lparr>active_schedule :=
     \<lparr>current_running_process_count = 0, next_terminal_in_schedule = 2, schedule_activated = 1\<rparr>\<rparr>"

lemma boot_example_shell:
  "\<exists>t. execute (locals_example\<lparr>l_shell := 0x300000\<rparr>) 0x300000 (before_shell (cli boot_example)) = Some (EnterUser 0x08048100 t)"
proof -
  let ?u = "before_shell (cli boot_example)" and ?l = "locals_example\<lparr>l_shell := 0x300000\<rparr>"
  have f: "g_b_block ?u = g_b_block exec_example" "g_index_nodes ?u = g_index_nodes exec_example"
    "g_directory_entries ?u = g_directory_entries exec_example" "mem ?u = mem exec_example" "pDirectory ?u = pDirectory exec_example"
    "pcbs ?u = pcbs exec_example" "pcb_occupants ?u = pcb_occupants exec_example"
    by (simp_all add: before_shell_def boot_example_def count_process_def save_and_switch_term_def exec_example_sel Let_def
        cli_def sti_def)
  note c = fs_fields_cong [OF f(1-3)]
  have d: "dentry_addr ?u = dentry_addr exec_example" by (simp add: fun_eq_iff dentry_addr_def f)
  have w: "kernel_image ?u" "program_wf ?u 0" "free_pid ?u = Some 3" "locals_ok ?l ?u 0x300000 (Suc (length (bytes ''p x'')))"
    using exec_example_wf exec_example_locals by (simp_all add: kernel_image_def program_wf_def free_pid_def locals_ok_def c f)
  obtain t where "execute ?l 0x300000 ?u = Some (EnterUser (entry_point (file_contents ?u (mem ?u) 0)) t)"
    by (rule execute_starts [where s = ?u and cmd = "0x300000" and cs = "bytes ''p x''" and l = ?l and i = 0 and ino = 0 and pid = 3])
      (use w in \<open>simp_all only: c d f\<close>, use exec_example_slot exec_example_runs exec_example_image in \<open>simp_all add: exec_example_sel\<close>)
  moreover have "entry_point (file_contents ?u (mem ?u) 0) = 0x08048100" using exec_example_runs(2) by (simp add: c f)
  ultimately show ?thesis by auto
qed


text \<open>
  The timer is programmed with divisor \<open>0x2E01\<close>, not the intended 11931 (\<open>0x2E9B\<close>): the mode word goes to the command
  register, then the low byte, which a logical conjunction turns into 1, then the high byte. The scheduler starts with no shell started, and
  the masks of the interrupt controller are written back unchanged.
\<close>

lemma PIT_initialize_divisor:
  "out_log (PIT_initialize s) = out_log s @ [(0x21, master_bit_mask s), (0x43, 0x34), (0x40, 0x01), (0x40, 0x2E)]
   \<and> master_bit_mask (PIT_initialize s) = master_bit_mask s \<and> 256 * 0x2E + 0x01 \<noteq> (11931 :: nat)
   \<and> active_schedule (PIT_initialize s) = \<lparr>current_running_process_count = 0, next_terminal_in_schedule = 2, schedule_activated = 1\<rparr>"
proof -
  have "ucast (ucast (master_bit_mask s) :: u32) = master_bit_mask s" by (rule bit_word_eqI) (simp add: bit_simps)
  then show ?thesis
    by (simp add: PIT_initialize_def schedule_initialization_def Let_def outb_def enable_irq_def)
qed

end
