(* ===== verification/Interrupts.thy ===== *)
theory Interrupts
  imports Schedule
begin

text \<open>
  The interrupt descriptor table: its entries and the macro that fills them
    (\<^verbatim>\<open>src/student-distrib/x86_desc.h\<close>), \<open>initialize_idt\<close> and the exception handlers of
  \<^verbatim>\<open>idt_init.c\<close>, and the entry points of
    \<^verbatim>\<open>handlers.S\<close>. The addresses the linker gives to the handlers are a parameter. The main results are about what
  the processor does with
  the table: which handler every vector reaches, which of them a user program may call, and that an exception prints its message
  and never returns.
\<close>

section \<open>Descriptors\<close>

record idt_desc_t =
  offset_15_00 :: u16
  seg_selector :: u16
  reserved4 :: u8
  reserved3 :: "1 word"
  reserved2 :: "1 word"
  reserved1 :: "1 word"
  idt_size :: "1 word"
  reserved0 :: "1 word"
  idt_dpl :: "2 word"
  idt_present :: "1 word"
  offset_31_16 :: u16

definition SET_IDT_ENTRY :: "u32 \<Rightarrow> idt_desc_t \<Rightarrow> idt_desc_t" where
  "SET_IDT_ENTRY handler str = str\<lparr>offset_31_16 := ucast (drop_bit 16 (handler AND 0xFFFF0000)),
     offset_15_00 := ucast (handler AND 0xFFFF)\<rparr>"

abbreviation KERNEL_CS :: u16 where "KERNEL_CS \<equiv> 0x0010"
abbreviation NUM_VEC :: nat where "NUM_VEC \<equiv> 256"

text \<open>The register the processor finds the table with: the limit and the base that \<open>lidt\<close> loads.\<close>

record kernel = process +
  idt :: "idt_desc_t list"
  idtr :: "u16 \<times> u32"

text \<open>The code an entry can point to.\<close>

datatype handler = H_PIT_interrupt | H_keyboard_interrupt | H_rtc_interrupt | H_sys_call_interrupt | H_undefined_interrupt
  | H_divide_error | H_debug_exception | H_nmi_interrupt | H_breakpoint_interrupt | H_overflow_exception | H_bound_range_exceeded
  | H_invalid_opcode | H_device_not_available | H_double_fault | H_coprocessor_segment_overrun | H_invalid_tss
  | H_segment_not_present | H_stack_segment_fault | H_general_protection | H_page_fault | H_reserved
  | H_floating_point_error | H_alignment_check | H_machine_check | H_simd_floating_point_exception

section \<open>Filling the table\<close>

definition set_gate :: "nat \<Rightarrow> u32 \<Rightarrow> 'a kernel_scheme \<Rightarrow> 'a kernel_scheme" where
  "set_gate i handler s = s\<lparr>idt := (idt s)[i := SET_IDT_ENTRY handler (idt s ! i)]\<rparr>"

text \<open>One round of the loop.\<close>

definition init_gate :: "(handler \<Rightarrow> u32) \<Rightarrow> nat \<Rightarrow> 'a kernel_scheme \<Rightarrow> 'a kernel_scheme" where
  "init_gate addr i s =
     (let s = s\<lparr>idt := (idt s)[i := (idt s ! i)\<lparr>seg_selector := KERNEL_CS, reserved4 := 0, reserved3 := 1, reserved2 := 1,
            reserved1 := 1, idt_size := 1, reserved0 := 0, idt_dpl := 0, idt_present := 1\<rparr>]\<rparr>;
          s = (if i = 0x80 then s\<lparr>idt := (idt s)[i := (idt s ! i)\<lparr>idt_dpl := 3\<rparr>]\<rparr> else s)
      in if i > 31 then set_gate i (addr H_undefined_interrupt) s else s)"

definition initialize_idt :: "(handler \<Rightarrow> u32) \<Rightarrow> u32 \<Rightarrow> 'a kernel_scheme \<Rightarrow> 'a kernel_scheme" where
  "initialize_idt addr idt_base s =
     (let s = s\<lparr>idtr := (8 * 256 - 1, idt_base)\<rparr>;
          s = fold (init_gate addr) [0..<NUM_VEC] s;
          s = set_gate 0x20 (addr H_PIT_interrupt) s;
          s = set_gate 0x21 (addr H_keyboard_interrupt) s;
          s = set_gate 0x28 (addr H_rtc_interrupt) s;
          s = set_gate 0x80 (addr H_sys_call_interrupt) s;
          s = set_gate 0 (addr H_divide_error) s;
          s = set_gate 1 (addr H_debug_exception) s;
          s = set_gate 2 (addr H_nmi_interrupt) s;
          s = set_gate 3 (addr H_breakpoint_interrupt) s;
          s = set_gate 4 (addr H_overflow_exception) s;
          s = set_gate 5 (addr H_bound_range_exceeded) s;
          s = set_gate 6 (addr H_invalid_opcode) s;
          s = set_gate 7 (addr H_device_not_available) s;
          s = set_gate 8 (addr H_double_fault) s;
          s = set_gate 9 (addr H_coprocessor_segment_overrun) s;
          s = set_gate 10 (addr H_invalid_tss) s;
          s = set_gate 11 (addr H_segment_not_present) s;
          s = set_gate 12 (addr H_stack_segment_fault) s;
          s = set_gate 13 (addr H_general_protection) s;
          s = set_gate 14 (addr H_page_fault) s;
          s = set_gate 15 (addr H_reserved) s;
          s = set_gate 16 (addr H_floating_point_error) s;
          s = set_gate 17 (addr H_alignment_check) s;
          s = set_gate 18 (addr H_machine_check) s
      in set_gate 19 (addr H_simd_floating_point_exception) s)"

section \<open>Handlers\<close>

text \<open>A handler returns to what it interrupted, or stays in an endless loop.\<close>

datatype 's entered = Resumes 's | Spins 's

definition divide_error :: "'a console_scheme \<Rightarrow> 'a console_scheme entered" where
  "divide_error s = Spins (put_string (bytes ''Divide error'') s)"

definition debug_exception :: "'a console_scheme \<Rightarrow> 'a console_scheme entered" where
  "debug_exception s = Spins (put_string (bytes ''Debug exceptions'') s)"

definition nmi_interrupt :: "'a console_scheme \<Rightarrow> 'a console_scheme entered" where
  "nmi_interrupt s = Spins (put_string (bytes ''Non-maskable external interrupt'') s)"

definition breakpoint_interrupt :: "'a console_scheme \<Rightarrow> 'a console_scheme entered" where
  "breakpoint_interrupt s = Spins (put_string (bytes ''Breakpoint'') s)"

definition overflow_exception :: "'a console_scheme \<Rightarrow> 'a console_scheme entered" where
  "overflow_exception s = Spins (put_string (bytes ''Overflow'') s)"

definition bound_range_exceeded :: "'a console_scheme \<Rightarrow> 'a console_scheme entered" where
  "bound_range_exceeded s = Spins (put_string (bytes ''Bounds range exceeded'') s)"

definition invalid_opcode :: "'a console_scheme \<Rightarrow> 'a console_scheme entered" where
  "invalid_opcode s = Spins (put_string (bytes ''Invalid opcode'') s)"

definition device_not_available :: "'a console_scheme \<Rightarrow> 'a console_scheme entered" where
  "device_not_available s = Spins (put_string (bytes ''Device not available'') s)"

definition double_fault :: "'a console_scheme \<Rightarrow> 'a console_scheme entered" where
  "double_fault s = Spins (put_string (bytes ''Double fault'') s)"

definition coprocessor_segment_overrun :: "'a console_scheme \<Rightarrow> 'a console_scheme entered" where
  "coprocessor_segment_overrun s = Spins (put_string (bytes ''Coprocessor segment overrun'') s)"

definition invalid_tss :: "'a console_scheme \<Rightarrow> 'a console_scheme entered" where
  "invalid_tss s = Spins (put_string (bytes ''Invalid TSS'') s)"

definition segment_not_present :: "'a console_scheme \<Rightarrow> 'a console_scheme entered" where
  "segment_not_present s = Spins (put_string (bytes ''Segment not present'') s)"

definition stack_segment_fault :: "'a console_scheme \<Rightarrow> 'a console_scheme entered" where
  "stack_segment_fault s = Spins (put_string (bytes ''Stack segment fault'') s)"

definition general_protection :: "'a console_scheme \<Rightarrow> 'a console_scheme entered" where
  "general_protection s = Spins (put_string (bytes ''General protection'') s)"

text \<open>The number printed is the register \<open>ecx\<close> plus one, whatever it holds.\<close>

definition page_fault :: "u32 \<Rightarrow> 'a console_scheme \<Rightarrow> 'a console_scheme entered" where
  "page_fault ecx s =
     (let s = put_string (rendering (Hex (ecx + 1)) @ bytes '' '') s;
          s = put_string (bytes ''Page fault'') s
      in Spins s)"

definition reserved :: "'a console_scheme \<Rightarrow> 'a console_scheme entered" where
  "reserved s = Spins (put_string (bytes ''Reserved'') s)"

definition floating_point_error :: "'a console_scheme \<Rightarrow> 'a console_scheme entered" where
  "floating_point_error s = Spins (put_string (bytes ''Floating point error'') s)"

definition alignment_check :: "'a console_scheme \<Rightarrow> 'a console_scheme entered" where
  "alignment_check s = Spins (put_string (bytes ''Alignment check'') s)"

definition machine_check :: "'a console_scheme \<Rightarrow> 'a console_scheme entered" where
  "machine_check s = Spins (put_string (bytes ''Machine check'') s)"

definition simd_floating_point_exception :: "'a console_scheme \<Rightarrow> 'a console_scheme entered" where
  "simd_floating_point_exception s = Spins (put_string (bytes ''SIMD floating-point exception'') s)"

definition undefined_interrupt :: "'a console_scheme \<Rightarrow> 'a console_scheme entered" where
  "undefined_interrupt s = Resumes (put_string (bytes ''Undefined interrupt'') s)"


section \<open>What the processor does with a vector\<close>

text \<open>
  What a handler needs besides the state: the places of local variables, what happens while a read waits, and the registers.
\<close>

record 's int_context =
  x_locals :: locals
  x_keys :: "('s \<Rightarrow> 's) list"
  x_ticks :: "bool list"
  x_eax :: u32
  x_ebx :: u32
  x_ecx :: u32
  x_edx :: u32

datatype 's delivered = Finished "'s outcome" | Stuck 's

fun stuck :: "'s entered \<Rightarrow> 's delivered" where
  "stuck (Resumes s) = Finished (Return 0 s)"
| "stuck (Spins s) = Stuck s"

text \<open>
    The entry points. Those of the keyboard and the clock end with \<open>popfl\<close> and \<open>iret\<close> on the stack they started
  on, so the interrupt flag comes back; the timer's may return
  on the stack of another process.
\<close>

definition same_flags :: "'a kernel_scheme \<Rightarrow> 'a kernel_scheme \<Rightarrow> 'a kernel_scheme" where
  "same_flags s t = t\<lparr>interrupts := interrupts s\<rparr>"

fun handle :: "'a kernel_scheme int_context \<Rightarrow> handler \<Rightarrow> 'a kernel_scheme \<Rightarrow> 'a kernel_scheme delivered
option" where
  "handle x H_PIT_interrupt s = map_option Finished (PIT_handler (x_locals x) s)"
| "handle x H_keyboard_interrupt s = Some (Finished (Return 0 (same_flags s (keyboard_handler s))))"
| "handle x H_rtc_interrupt s = Some (Finished (Return 0 (same_flags s (rtc_handle_interrupt s))))"
| "handle x H_sys_call_interrupt s =
     map_option Finished (sys_call_interrupt (x_locals x) (x_keys x) (x_ticks x) (x_eax x) (x_ebx x) (x_ecx x) (x_edx x) s)"
| "handle x H_undefined_interrupt s = Some (stuck (undefined_interrupt s))"
| "handle x H_divide_error s = Some (stuck (divide_error s))"
| "handle x H_debug_exception s = Some (stuck (debug_exception s))"
| "handle x H_nmi_interrupt s = Some (stuck (nmi_interrupt s))"
| "handle x H_breakpoint_interrupt s = Some (stuck (breakpoint_interrupt s))"
| "handle x H_overflow_exception s = Some (stuck (overflow_exception s))"
| "handle x H_bound_range_exceeded s = Some (stuck (bound_range_exceeded s))"
| "handle x H_invalid_opcode s = Some (stuck (invalid_opcode s))"
| "handle x H_device_not_available s = Some (stuck (device_not_available s))"
| "handle x H_double_fault s = Some (stuck (double_fault s))"
| "handle x H_coprocessor_segment_overrun s = Some (stuck (coprocessor_segment_overrun s))"
| "handle x H_invalid_tss s = Some (stuck (invalid_tss s))"
| "handle x H_segment_not_present s = Some (stuck (segment_not_present s))"
| "handle x H_stack_segment_fault s = Some (stuck (stack_segment_fault s))"
| "handle x H_general_protection s = Some (stuck (general_protection s))"
| "handle x H_page_fault s = Some (stuck (page_fault (x_ecx x) s))"
| "handle x H_reserved s = Some (stuck (reserved s))"
| "handle x H_floating_point_error s = Some (stuck (floating_point_error s))"
| "handle x H_alignment_check s = Some (stuck (alignment_check s))"
| "handle x H_machine_check s = Some (stuck (machine_check s))"
| "handle x H_simd_floating_point_exception s = Some (stuck (simd_floating_point_exception s))"

definition gate_offset :: "idt_desc_t \<Rightarrow> u32" where
  "gate_offset d = ucast (offset_15_00 d) OR push_bit 16 (ucast (offset_31_16 d))"

text \<open>
    Delivery of a vector: a present gate leads to the code at its offset; \<open>code\<close> says what the linker put there. An
  \<open>int\<close> instruction
  of a program at a lower privilege than the gate asks for raises a general protection exception, vector 13, instead.
\<close>

definition deliver :: "(u32 \<Rightarrow> handler option) \<Rightarrow> 'a kernel_scheme int_context \<Rightarrow> nat \<Rightarrow> 'a kernel_scheme \<Rightarrow> 'a kernel_scheme delivered option" where
  "deliver code x v s =
     (if v < length (idt s) \<and> idt_present (idt s ! v) = 1
      then case code (gate_offset (idt s ! v)) of None \<Rightarrow> None | Some h \<Rightarrow> handle x h s else None)"

definition soft_int :: "nat \<Rightarrow> (u32 \<Rightarrow> handler option) \<Rightarrow> 'a kernel_scheme int_context \<Rightarrow> nat \<Rightarrow> 'a kernel_scheme
    \<Rightarrow> 'a kernel_scheme delivered option" where
  "soft_int cpl code x v s = deliver code x (if cpl \<le> unat (idt_dpl (idt s ! v)) then v else 13) s"

section \<open>The table after initialisation\<close>

definition exceptions :: "handler list" where
    "exceptions = [H_divide_error, H_debug_exception, H_nmi_interrupt, H_breakpoint_interrupt, H_overflow_exception, H_bound_range_exceeded,
     H_invalid_opcode, H_device_not_available, H_double_fault, H_coprocessor_segment_overrun, H_invalid_tss, H_segment_not_present,
     H_stack_segment_fault, H_general_protection, H_page_fault, H_reserved, H_floating_point_error, H_alignment_check, H_machine_check,
     H_simd_floating_point_exception]"

text \<open>The handler of every vector; 20 to 31 have none.\<close>

definition handler_of :: "nat \<Rightarrow> handler option" where
  "handler_of v =
     (if v < 20 then Some (exceptions ! v) else if v < 32 then None
      else if v = 0x20 then Some H_PIT_interrupt else if v = 0x21 then Some H_keyboard_interrupt
      else if v = 0x28 then Some H_rtc_interrupt else if v = 0x80 then Some H_sys_call_interrupt
      else Some H_undefined_interrupt)"

lemma set_entry_offset: "gate_offset (SET_IDT_ENTRY a d) = a"
proof (rule bit_word_eqI)
  fix n assume n: "n < LENGTH(32)"
  have m: "(0xFFFF0000 :: u32) = push_bit 16 (mask 16)" "(0xFFFF :: u32) = mask 16" by (simp_all add: mask_eq_exp_minus_1)
  show "bit (gate_offset (SET_IDT_ENTRY a d)) n = bit a n"
    unfolding gate_offset_def SET_IDT_ENTRY_def m using n by (cases "n < 16") (auto simp: bit_simps)
qed

text \<open>The fields of a gate that are not its offset.\<close>

definition gate_flags :: "idt_desc_t \<Rightarrow> u16 \<times> u8 \<times> (1 word \<times> 1 word \<times> 1 word \<times> 1 word) \<times> 1 word \<times> 2 word \<times> 1 word" where
  "gate_flags d = (seg_selector d, reserved4 d, (idt_size d, reserved1 d, reserved2 d, reserved3 d), reserved0 d, idt_dpl d, idt_present d)"

lemma set_gate_idt:
  "length (idt (set_gate i a s)) = length (idt s)"
  "gate_flags (idt (set_gate i a s) ! v) = gate_flags (idt s ! v)"
  "i < length (idt s) \<Longrightarrow> gate_offset (idt (set_gate i a s) ! v) = (if v = i then a else gate_offset (idt s ! v))"
proof -
  show "length (idt (set_gate i a s)) = length (idt s)" by (simp add: set_gate_def)
  show "gate_flags (idt (set_gate i a s) ! v) = gate_flags (idt s ! v)"
    by (cases "i < length (idt s)"; cases "v = i") (simp_all add: set_gate_def gate_flags_def SET_IDT_ENTRY_def list_update_beyond)
  show "gate_offset (idt (set_gate i a s) ! v) = (if v = i then a else gate_offset (idt s ! v))" if "i < length (idt s)"
    using that by (simp add: set_gate_def set_entry_offset nth_list_update)
qed

definition ready_flags :: "nat \<Rightarrow> u16 \<times> u8 \<times> (1 word \<times> 1 word \<times> 1 word \<times> 1 word) \<times> 1 word \<times> 2 word \<times> 1 word" where
  "ready_flags v = (KERNEL_CS, 0, (1, 1, 1, 1), 0, if v = 0x80 then 3 else 0, 1)"

definition ready_gate :: "(handler \<Rightarrow> u32) \<Rightarrow> nat \<Rightarrow> idt_desc_t \<Rightarrow> idt_desc_t" where
  "ready_gate addr i d =
     (let d = d\<lparr>seg_selector := KERNEL_CS, reserved4 := 0, reserved3 := 1, reserved2 := 1,
            reserved1 := 1, idt_size := 1, reserved0 := 0, idt_dpl := 0, idt_present := 1\<rparr>;
          d = (if i = 0x80 then d\<lparr>idt_dpl := 3\<rparr> else d)
      in if i > 31 then SET_IDT_ENTRY (addr H_undefined_interrupt) d else d)"

lemma ready_gate_sel:
  "gate_flags (ready_gate addr i d) = ready_flags i"
  "gate_offset (ready_gate addr i d) = (if 31 < i then addr H_undefined_interrupt else gate_offset d)"
proof -
  show "gate_flags (ready_gate addr i d) = ready_flags i"
    by (simp add: ready_gate_def gate_flags_def ready_flags_def SET_IDT_ENTRY_def Let_def)
  show "gate_offset (ready_gate addr i d) = (if 31 < i then addr H_undefined_interrupt else gate_offset d)"
    by (cases "31 < i"; cases "i = 0x80") (simp_all add: ready_gate_def Let_def set_entry_offset, simp add: gate_offset_def)
qed

lemma init_gate_eq: "i < length (idt s) \<Longrightarrow> init_gate addr i s = s\<lparr>idt := (idt s)[i := ready_gate addr i (idt s ! i)]\<rparr>"
  by (cases "i = 0x80"; cases "31 < i") (simp_all add: init_gate_def ready_gate_def Let_def set_gate_def)

lemma init_gate_idt:
  assumes "i < length (idt s)"
  shows "length (idt (init_gate addr i s)) = length (idt s)"
    "gate_flags (idt (init_gate addr i s) ! v) = (if v = i then ready_flags i else gate_flags (idt s ! v))"
    "gate_offset (idt (init_gate addr i s) ! v) = (if v = i \<and> 31 < i then addr H_undefined_interrupt else gate_offset (idt s ! v))"
  using assms by (auto simp: init_gate_eq nth_list_update ready_gate_sel)

lemma init_gates_idt:
  assumes "n \<le> length (idt s)"
  shows "length (idt (fold (init_gate addr) [0..<n] s)) = length (idt s)
    \<and> gate_flags (idt (fold (init_gate addr) [0..<n] s) ! v) = (if v < n then ready_flags v else gate_flags (idt s ! v))
    \<and> gate_offset (idt (fold (init_gate addr) [0..<n] s) ! v) =
       (if v < n \<and> 31 < v then addr H_undefined_interrupt else gate_offset (idt s ! v))"
  using assms
proof (induction n)
  case (Suc n)
  let ?u = "fold (init_gate addr) [0..<n] s"
  from Suc have len: "n < length (idt ?u)" by simp
  show ?case using Suc init_gate_idt [OF len, of addr] by (auto simp: less_Suc_eq)
qed simp

lemma exception_vectors: "v < 20 \<Longrightarrow> v \<in> {0, 1, 2, 3, 4, 5, 6, 7, 8, 9, 10, 11, 12, 13, 14, 15, 16, 17, 18, 19 :: nat}"
  by (simp only: insert_iff empty_iff) presburger

lemma initialize_idt_gates:
  fixes addr base
  assumes "length (idt s) = 256" and "v < 256"
  defines "t \<equiv> initialize_idt addr base s"
  shows "length (idt t) = 256" "gate_flags (idt t ! v) = ready_flags v"
    "gate_offset (idt t ! v) = (case handler_of v of Some h \<Rightarrow> addr h | None \<Rightarrow> gate_offset (idt s ! v))"
proof -
  let ?s = "s\<lparr>idtr := (2047, base)\<rparr>"
  let ?u = "fold (init_gate addr) [0..<256] ?s"
  have i: "length (idt ?u) = 256" "gate_flags (idt ?u ! v) = ready_flags v"
    "gate_offset (idt ?u ! v) = (if 31 < v then addr H_undefined_interrupt else gate_offset (idt s ! v))"
    using init_gates_idt [of 256 ?s addr v] assms(1,2) by simp_all
  show "length (idt t) = 256" "gate_flags (idt t ! v) = ready_flags v"
    using i by (simp_all add: t_def initialize_idt_def Let_def set_gate_idt(1,2))
  have t: "gate_offset (idt t ! v) = (if v < 20 then addr (exceptions ! v) else if v = 0x80 then addr H_sys_call_interrupt
      else if v = 0x28 then addr H_rtc_interrupt else if v = 0x21 then addr H_keyboard_interrupt
      else if v = 0x20 then addr H_PIT_interrupt else gate_offset (idt ?u ! v))"
  proof (cases "v < 20")
    case True
    from exception_vectors [OF this] show ?thesis
      by (elim insertE emptyE; simp add: t_def initialize_idt_def Let_def set_gate_idt(1,3) i(1) exceptions_def)
  next
    case False
    then show ?thesis by (simp add: t_def initialize_idt_def Let_def set_gate_idt(1,3) i(1))
  qed
  show "gate_offset (idt t ! v) = (case handler_of v of Some h \<Rightarrow> addr h | None \<Rightarrow> gate_offset (idt s ! v))"
    unfolding t i(3) by (simp add: handler_of_def)
qed

lemma deliver_handler:
  assumes "length (idt s) = 256" "v < 256" "handler_of v = Some h" and "\<And>h. code (addr h) = Some h"
  shows "deliver code x v (initialize_idt addr base s) = handle x h (initialize_idt addr base s)"
proof -
  let ?t = "initialize_idt addr base s"
  note g = initialize_idt_gates [OF assms(1,2), of addr base]
  have "idt_present (idt ?t ! v) = 1" using g(2) by (simp add: gate_flags_def ready_flags_def)
  then show ?thesis using g assms(2-4) by (simp add: deliver_def)
qed

lemma initialize_idt_frame:
  obtains g where "initialize_idt addr base s = s\<lparr>idtr := (2047, base), idt := g\<rparr>"
proof -
  let ?F = "\<lambda>t. \<exists>g. t = s\<lparr>idtr := (2047, base), idt := g\<rparr>"
  have F: "?F (t\<lparr>idt := h\<rparr>)" if "?F t" for h t using that by auto
  have set: "?F (set_gate i a t)" if "?F t" for i a t unfolding set_gate_def by (rule F [OF that])
  have init: "?F (init_gate addr i t)" if "?F t" for i t unfolding init_gate_def Let_def by (simp only: set F that split: if_split) simp
  have fold: "?F t \<Longrightarrow> ?F (fold (init_gate addr) xs t)" for xs t
    by (induction xs arbitrary: t) (simp_all add: init)
  have "?F (s\<lparr>idtr := (2047, base)\<rparr>)" by (rule exI [of _ "idt s"]) simp
  then have "?F (initialize_idt addr base s)"
    unfolding initialize_idt_def Let_def by (intro set fold) simp
  then show ?thesis using that by blast
qed

section \<open>Exceptions\<close>

definition messages :: "u8 list list" where
  "messages = [bytes ''Divide error'', bytes ''Debug exceptions'', bytes ''Non-maskable external interrupt'',
     bytes ''Breakpoint'', bytes ''Overflow'', bytes ''Bounds range exceeded'', bytes ''Invalid opcode'',
     bytes ''Device not available'', bytes ''Double fault'', bytes ''Coprocessor segment overrun'', bytes ''Invalid TSS'',
     bytes ''Segment not present'', bytes ''Stack segment fault'', bytes ''General protection'', bytes ''Page fault'',
     bytes ''Reserved'', bytes ''Floating point error'', bytes ''Alignment check'', bytes ''Machine check'',
     bytes ''SIMD floating-point exception'']"

definition exception_text :: "u32 \<Rightarrow> nat \<Rightarrow> u8 list" where
  "exception_text ecx v = (if v = 14 then rendering (Hex (ecx + 1)) @ bytes '' '' else []) @ messages ! v"

lemma handle_exception:
  assumes "v < 20"
  shows "handle x (exceptions ! v) s = Some (Stuck (put_string (exception_text (x_ecx x) v) s))"
  using exception_vectors [OF assms]
  by (elim insertE emptyE; simp add: exceptions_def exception_text_def messages_def put_string_def Let_def
            divide_error_def debug_exception_def nmi_interrupt_def breakpoint_interrupt_def overflow_exception_def bound_range_exceeded_def
      invalid_opcode_def device_not_available_def double_fault_def coprocessor_segment_overrun_def invalid_tss_def segment_not_present_def
      stack_segment_fault_def general_protection_def page_fault_def reserved_def floating_point_error_def alignment_check_def
      machine_check_def simd_floating_point_exception_def)

section \<open>Properties\<close>

text \<open>A kernel before initialisation, and code at one address for each handler.\<close>

definition idt_zero :: idt_desc_t where
  "idt_zero = \<lparr>offset_15_00 = 0, seg_selector = 0, reserved4 = 0, reserved3 = 0, reserved2 = 0, reserved1 = 0, idt_size = 0,
     reserved0 = 0, idt_dpl = 0, idt_present = 0, offset_31_16 = 0\<rparr>"

definition kernel_example :: kernel where
  "kernel_example = process.extend exec_example \<lparr>idt = replicate 256 idt_zero, idtr = (0, 0)\<rparr>"

definition handlers :: "handler list" where
  "handlers = [H_PIT_interrupt, H_keyboard_interrupt, H_rtc_interrupt, H_sys_call_interrupt, H_undefined_interrupt] @ exceptions"

definition link_example :: "handler \<Rightarrow> u32" where
  "link_example h = 0x400000 + 16 * word_of_nat (the (scan (\<lambda>i. handlers ! i = h) [0..<25]))"

text \<open>
    C25. The interrupt descriptor table. After \<open>initialize_idt\<close> all 256 gates are present, in the kernel code segment, with the
  type bits of a 32-bit trap gate; only gate 0x80 may be
  used from ring 3. The offset of every gate is the address of its handler: vectors 0 to 19 the exceptions, 0x20 the timer, 0x21
    the keyboard, 0x28 the clock, 0x80 the system calls, every other one above 31 the undefined interrupt. Gates 20 to 31 are present too,
  but their offset is never set.
\<close>

theorem initialize_idt_table:
  assumes "length (idt s) = 256" and "v < 256" and "t = initialize_idt addr base s"
  shows "length (idt t) = 256 \<and> idtr t = (2047, base)
     \<and> gate_flags (idt t ! v) = (KERNEL_CS, 0, (1, 1, 1, 1), 0, if v = 0x80 then 3 else 0, 1)
     \<and> gate_offset (idt t ! v) = (case handler_of v of Some h \<Rightarrow> addr h | None \<Rightarrow> gate_offset (idt s ! v))"
proof -
  obtain g where "t = s\<lparr>idtr := (2047, base), idt := g\<rparr>" using initialize_idt_frame assms(3) by metis
  then show ?thesis using initialize_idt_gates [OF assms(1,2), of addr base] assms(3) by (simp add: ready_flags_def)
qed

theorem initialize_idt_table_witness:
  "gate_offset (idt (initialize_idt link_example 0x500000 kernel_example) ! 0x21) = 0x400010
   \<and> gate_offset (idt (initialize_idt link_example 0x500000 kernel_example) ! 20) = 0"
proof -
  have l: "length (idt kernel_example) = 256" "idt kernel_example ! 20 = idt_zero" by (simp_all add: kernel_example_def process.defs)
  have "link_example H_keyboard_interrupt = 0x400010" by code_simp
  then show ?thesis
        using initialize_idt_table [OF l(1) _ refl, of "0x21" link_example "0x500000"] initialize_idt_table [OF l(1) _ refl, of "20"
    link_example "0x500000"] l(2)
    by (simp add: handler_of_def gate_offset_def idt_zero_def)
qed

text \<open>
    C12. The only way in. A user program that executes \<open>int v\<close> reaches the system call dispatcher when \<open>v\<close> is 0x80,
  with its registers as the arguments; for every
  other vector the processor raises a general protection exception, whose handler prints its message and never returns.
\<close>

theorem user_enters_by_system_call:
  assumes "length (idt s) = 256" "v < 256" and "\<And>h. code (addr h) = Some h" and "t = initialize_idt addr base s"
  shows "soft_int 3 code x v t =
     (if v = 0x80 then map_option Finished
        (sys_call_interrupt (x_locals x) (x_keys x) (x_ticks x) (x_eax x) (x_ebx x) (x_ecx x) (x_edx x) t)
      else Some (Stuck (put_string (bytes ''General protection'') t)))"
proof -
  have dpl: "unat (idt_dpl (idt t ! v)) = (if v = 0x80 then 3 else 0)"
    using initialize_idt_gates(2) [OF assms(1,2), of addr base] unfolding assms(4) by (simp add: gate_flags_def ready_flags_def)
  have d: "deliver code x u t = handle x h t" if "u < 256" "handler_of u = Some h" for u h
    unfolding assms(4) by (rule deliver_handler) (use assms that in auto)
  show ?thesis
  proof (cases "v = 0x80")
    case True
    then show ?thesis using d [of v H_sys_call_interrupt] dpl by (simp add: soft_int_def handler_of_def)
  next
    case False
    moreover have "deliver code x 13 t = handle x H_general_protection t" by (rule d) (simp_all add: handler_of_def exceptions_def)
    ultimately show ?thesis by (simp add: soft_int_def dpl general_protection_def)
  qed
qed

lemma link_example_code: "\<exists>code. \<forall>h. code (link_example h) = Some h"
proof -
  have in_list: "h \<in> set handlers" for h by (cases h) (simp_all add: handlers_def exceptions_def)
  have "distinct (map link_example handlers)" by code_simp
  then have "inj_on link_example (set handlers)" by (simp add: distinct_map)
  then have "inj link_example" using in_list by (simp add: inj_on_def inj_def)
  then show ?thesis by (intro exI [of _ "\<lambda>a. Some (inv link_example a)"]) simp
qed

theorem user_enters_by_system_call_witness:
  "\<exists>code. \<forall>x. soft_int 3 code x 0x20 (initialize_idt link_example 0x500000 kernel_example)
     = Some (Stuck (put_string (bytes ''General protection'') (initialize_idt link_example 0x500000 kernel_example)))"
proof -
  have l: "length (idt kernel_example) = 256" by (simp add: kernel_example_def process.defs)
  obtain code where "\<And>h. code (link_example h) = Some h" using link_example_code by blast
  with user_enters_by_system_call [OF l, of "0x20" code link_example] show ?thesis by auto
qed

text \<open>An exception in any state with the table of \<open>initialize_idt\<close>.\<close>

lemma exception_delivered:
  assumes "length (idt s) = 256" and "v < 20" and "\<And>h. code (addr h) = Some h" and t: "idt t = idt (initialize_idt addr base s)"
  shows "deliver code x v t = Some (Stuck (put_string (exception_text (x_ecx x) v) t))"
proof -
  note g = initialize_idt_gates [OF assms(1), of v addr base, folded t]
  have "deliver code x v t = handle x (exceptions ! v) t"
    using g assms(2,3) by (simp add: deliver_def handler_of_def gate_flags_def ready_flags_def)
  then show ?thesis using handle_exception [OF assms(2), of x t] by simp
qed

text \<open>
    An exception is the end. When an exception arrives, whatever the state, its message (for a page fault after a number, the register
  \<open>ecx\<close> plus one) is printed on the screen, nothing but the video memory has
  changed of the memory, and the handler never returns.
\<close>

lemma exception_stops:
  assumes "length (idt s) = 256" "v < 20" and "\<And>h. code (addr h) = Some h" and "t = initialize_idt addr base s" and "cursor_ok s"
  shows "\<exists>u. deliver code x v t = Some (Stuck u) \<and> abs_screen u = fold a_put (exception_text (x_ecx x) v) (abs_screen s)
     \<and> (\<forall>a. \<not> in_region a VIDEO 4000 \<longrightarrow> mem u a = mem s a)"
proof -
  obtain g where t: "t = s\<lparr>idtr := (2047, base), idt := g\<rparr>" using initialize_idt_frame assms(4) by metis
  have "deliver code x v t = Some (Stuck (put_string (exception_text (x_ecx x) v) t))"
    using exception_delivered [OF assms(1-3)] assms(4) by blast
  moreover have "cursor_ok t" "abs_screen t = abs_screen s" "mem t = mem s"
    using assms(5) t by (simp_all add: cursor_ok_def abs_screen_def cursor_pos_def)
  ultimately show ?thesis using put_string_abs put_string_frame by metis
qed

end
