(* ===== verification/Boot.thy ===== *)
theory Boot
  imports Interrupts
begin

text \<open>
  Booting: \<open>entry\<close> of \<^verbatim>\<open>src/student-distrib/kernel.c\<close>, with the Multiboot structures of \<^verbatim>\<open>multiboot.h\<close> read from memory, the segment descriptors of
  \<^verbatim>\<open>x86_desc.h\<close>, and \<open>launch_tests\<close> of \<^verbatim>\<open>tests.c\<close>, which runs none. The addresses that the linker
  chooses are parameters. \<open>entry\<close> is modelled as one sequence, without interrupts arriving on the way. The main result puts the components together: from a sound
  boot loader the kernel reaches its idle loop in the state that the other theories start from.
\<close>

section \<open>Segment descriptors\<close>

record seg_desc_t =
  seg_lim_15_00 :: u16
  base_15_00 :: u16
  base_23_16 :: u8
  seg_type :: "4 word"
  seg_sys :: "1 word"
  seg_dpl :: "2 word"
  seg_present :: "1 word"
  seg_lim_19_16 :: "4 word"
  avail :: "1 word"
  seg_reserved :: "1 word"
  opsize :: "1 word"
  granularity :: "1 word"
  base_31_24 :: u8

definition SET_LDT_PARAMS :: "u32 \<Rightarrow> u32 \<Rightarrow> seg_desc_t \<Rightarrow> seg_desc_t" where
  "SET_LDT_PARAMS addr lim str = str\<lparr>
     base_31_24 := ucast (drop_bit 24 (addr AND 0xFF000000)),
     base_23_16 := ucast (drop_bit 16 (addr AND 0x00FF0000)),
     base_15_00 := ucast (addr AND 0x0000FFFF),
     seg_lim_19_16 := ucast (drop_bit 16 (lim AND 0x000F0000)),
     seg_lim_15_00 := ucast (lim AND 0x0000FFFF)\<rparr>"

definition SET_TSS_PARAMS :: "u32 \<Rightarrow> u32 \<Rightarrow> seg_desc_t \<Rightarrow> seg_desc_t" where
  "SET_TSS_PARAMS addr lim str = str\<lparr>
     base_31_24 := ucast (drop_bit 24 (addr AND 0xFF000000)),
     base_23_16 := ucast (drop_bit 16 (addr AND 0x00FF0000)),
     base_15_00 := ucast (addr AND 0x0000FFFF),
     seg_lim_19_16 := ucast (drop_bit 16 (lim AND 0x000F0000)),
     seg_lim_15_00 := ucast (lim AND 0x0000FFFF)\<rparr>"

abbreviation TSS_SIZE :: u32 where "TSS_SIZE \<equiv> 104"
abbreviation KERNEL_DS :: u16 where "KERNEL_DS \<equiv> 0x0018"
abbreviation KERNEL_TSS :: u16 where "KERNEL_TSS \<equiv> 0x0030"
abbreviation KERNEL_LDT :: u16 where "KERNEL_LDT \<equiv> 0x0038"

text \<open>The two local descriptors; \<open>d\<close> is what their stack slot holds before.\<close>

definition make_ldt_desc :: "seg_desc_t \<Rightarrow> u32 \<Rightarrow> u32 \<Rightarrow> seg_desc_t" where
  "make_ldt_desc d ldt ldt_size =
     (let d = d\<lparr>granularity := 0, opsize := 1, seg_reserved := 0, avail := 0, seg_present := 1, seg_dpl := 0, seg_sys := 0, seg_type := 2\<rparr>
      in SET_LDT_PARAMS ldt ldt_size d)"

definition make_tss_desc :: "seg_desc_t \<Rightarrow> u32 \<Rightarrow> u32 \<Rightarrow> seg_desc_t" where
  "make_tss_desc d tss tss_size =
     (let d = d\<lparr>granularity := 0, opsize := 0, seg_reserved := 0, avail := 0, seg_lim_19_16 := ucast (TSS_SIZE AND 0x000F0000),
            seg_present := 1, seg_dpl := 0, seg_sys := 0, seg_type := 9, seg_lim_15_00 := ucast (TSS_SIZE AND 0x0000FFFF)\<rparr>
      in SET_TSS_PARAMS tss tss_size d)"

text \<open>The descriptor table entries, the fields of the task segment set once, and the segment registers.\<close>

record boot = kernel +
  ldt_desc_ptr :: seg_desc_t
  tss_desc_ptr :: seg_desc_t
  tss_ldt_segment_selector :: u16
  tss_ss0 :: u16
  ldtr :: u16
  tr :: u16

text \<open>What the linker decides; the sizes of \<^verbatim>\<open>x86_desc.S\<close> are last bytes.\<close>

record link =
  ld_handler :: "handler \<Rightarrow> u32"
  ld_idt :: u32
  ld_ldt :: u32
  ld_tss :: u32

abbreviation ldt_size :: u32 where "ldt_size \<equiv> 4 * 8 - 1"
abbreviation tss_size :: u32 where "tss_size \<equiv> 104 - 1"

section \<open>Multiboot information\<close>

abbreviation MULTIBOOT_BOOTLOADER_MAGIC :: u32 where "MULTIBOOT_BOOTLOADER_MAGIC \<equiv> 0x2BADB002"

definition CHECK_FLAG :: "u32 \<Rightarrow> nat \<Rightarrow> bool" where
  "CHECK_FLAG fl b \<longleftrightarrow> fl AND push_bit b 1 \<noteq> 0"

abbreviation mbi_flags :: "mem \<Rightarrow> u32 \<Rightarrow> u32" where "mbi_flags m mbi \<equiv> load32 m mbi"
abbreviation mem_lower :: "mem \<Rightarrow> u32 \<Rightarrow> u32" where "mem_lower m mbi \<equiv> load32 m (mbi + 4)"
abbreviation mem_upper :: "mem \<Rightarrow> u32 \<Rightarrow> u32" where "mem_upper m mbi \<equiv> load32 m (mbi + 8)"
abbreviation boot_device :: "mem \<Rightarrow> u32 \<Rightarrow> u32" where "boot_device m mbi \<equiv> load32 m (mbi + 12)"
abbreviation cmdline :: "mem \<Rightarrow> u32 \<Rightarrow> u32" where "cmdline m mbi \<equiv> load32 m (mbi + 16)"
abbreviation mods_count :: "mem \<Rightarrow> u32 \<Rightarrow> u32" where "mods_count m mbi \<equiv> load32 m (mbi + 20)"
abbreviation mods_addr :: "mem \<Rightarrow> u32 \<Rightarrow> u32" where "mods_addr m mbi \<equiv> load32 m (mbi + 24)"
abbreviation elf_sec :: "mem \<Rightarrow> u32 \<Rightarrow> u32 \<Rightarrow> u32" where "elf_sec m mbi off \<equiv> load32 m (mbi + 28 + off)"
abbreviation mmap_length :: "mem \<Rightarrow> u32 \<Rightarrow> u32" where "mmap_length m mbi \<equiv> load32 m (mbi + 44)"
abbreviation mmap_addr :: "mem \<Rightarrow> u32 \<Rightarrow> u32" where "mmap_addr m mbi \<equiv> load32 m (mbi + 48)"
abbreviation mod_start :: "mem \<Rightarrow> u32 \<Rightarrow> u32" where "mod_start m a \<equiv> load32 m a"
abbreviation mod_end :: "mem \<Rightarrow> u32 \<Rightarrow> u32" where "mod_end m a \<equiv> load32 m (a + 4)"

text \<open>A call of \<open>printf\<close> prints the rendering of its format and arguments.\<close>

definition say :: "piece list \<Rightarrow> 'a console_scheme \<Rightarrow> 'a console_scheme" where
  "say ps s = put_string (concat (map rendering ps)) s"

abbreviation lit :: "string \<Rightarrow> piece list" where
  "lit s \<equiv> map Literal (bytes s)"

abbreviation newline :: piece where
  "newline \<equiv> Literal 10"

definition report_cmdline :: "u32 \<Rightarrow> 'a console_scheme \<Rightarrow> 'a console_scheme option" where
  "report_cmdline p s = do {
     (_, s) \<leftarrow> puts p (say (lit ''cmdline = '') s);
     Some (say [newline] s)
   }"

definition report_header :: "u32 \<Rightarrow> 'a console_scheme \<Rightarrow> 'a console_scheme option" where
  "report_header mbi s =
     (let s = say (lit ''flags = 0x'' @ [Hex8 (mbi_flags (mem s) mbi), newline]) s;
          s = (if CHECK_FLAG (mbi_flags (mem s) mbi) 0
               then say (lit ''mem_lower = '' @ [Unsigned (mem_lower (mem s) mbi)] @ lit ''KB, mem_upper = '' @
                      [Unsigned (mem_upper (mem s) mbi)] @ lit ''KB'' @ [newline]) s else s);
          s = (if CHECK_FLAG (mbi_flags (mem s) mbi) 1
               then say (lit ''boot_device = 0x'' @ [Hex8 (boot_device (mem s) mbi), newline]) s else s)
      in if CHECK_FLAG (mbi_flags (mem s) mbi) 2 then report_cmdline (cmdline (mem s) mbi) s else Some s)"

definition report_module :: "u32 \<Rightarrow> u32 \<Rightarrow> 'a console_scheme \<Rightarrow> 'a console_scheme" where
  "report_module a mod_count s =
     (let s = say (lit ''Module '' @ [Signed mod_count] @ lit '' loaded at address: 0x'' @ [Hex8 (mod_start (mem s) a), newline]) s;
          s = say (lit ''Module '' @ [Signed mod_count] @ lit '' ends at address: 0x'' @ [Hex8 (mod_end (mem s) a), newline]) s;
          s = say (lit ''First few bytes of module:'' @ [newline]) s;
          s = fold (\<lambda>i s. say (lit ''0x'' @ [Hex (scast (mem s (mod_start (mem s) a + word_of_nat i))), Literal 32]) s) [0..<16] s
      in say [newline] s)"

function load_modules :: "u32 \<Rightarrow> u32 \<Rightarrow> u32 \<Rightarrow> 'a fs_scheme \<Rightarrow> 'a fs_scheme" where
  "load_modules mbi a mod_count s =
     (if mod_count < mods_count (mem s) mbi
      then load_modules mbi (a + 16) (mod_count + 1) (report_module a mod_count (filesystem_init (mod_start (mem s) a) s))
      else s)"
  by pat_completeness auto
termination
proof (relation "measure (\<lambda>(_, _, c, _). 4294967295 - unat c)", goal_cases)
  case (2 mbi a c s)
  then have "unat (c + 1) = Suc (unat c)" by (rule unat_suc32)
  moreover have "unat (c + 1) < 4294967296" by (rule unat_lt32)
  ultimately show ?case by simp
qed simp

declare load_modules.simps [simp del]

partial_function (option) report_mmap :: "u32 \<Rightarrow> u32 \<Rightarrow> 'a console_scheme \<Rightarrow> 'a console_scheme option" where
  "report_mmap mbi p s =
     (if p < mmap_addr (mem s) mbi + mmap_length (mem s) mbi
      then (let s = say (lit ''    size = 0x'' @ [Hex (load32 (mem s) p)] @ lit '', base_addr = 0x'' @
                  [Hex8 (load32 (mem s) (p + 8)), Hex8 (load32 (mem s) (p + 4)), newline] @ lit ''    type = 0x'' @
                  [Hex (load32 (mem s) (p + 20))] @ lit '',  length    = 0x'' @
                  [Hex8 (load32 (mem s) (p + 16)), Hex8 (load32 (mem s) (p + 12)), newline]) s
            in report_mmap mbi (p + load32 (mem s) p + 4) s)
      else Some s)"

definition report_sections :: "u32 \<Rightarrow> 'a console_scheme \<Rightarrow> 'a console_scheme option" where
  "report_sections mbi s =
     (let s = (if CHECK_FLAG (mbi_flags (mem s) mbi) 5
               then say (lit ''elf_sec: num = '' @ [Unsigned (elf_sec (mem s) mbi 0)] @ lit '', size = 0x'' @ [Hex8 (elf_sec (mem s) mbi 4)] @
                      lit '', addr = 0x'' @ [Hex8 (elf_sec (mem s) mbi 8)] @ lit '', shndx = 0x'' @ [Hex8 (elf_sec (mem s) mbi 12), newline]) s else s)
      in if CHECK_FLAG (mbi_flags (mem s) mbi) 6
         then (let s = say (lit ''mmap_addr = 0x'' @ [Hex8 (mmap_addr (mem s) mbi)] @ lit '', mmap_length = 0x'' @
                       [Hex (mmap_length (mem s) mbi), newline]) s
               in report_mmap mbi (mmap_addr (mem s) mbi) s)
         else Some s)"

section \<open>The entry point\<close>

datatype 's booted = Returned 's | Idle 's

definition launch_tests :: "'a console_scheme \<Rightarrow> 'a console_scheme" where
  "launch_tests s = clear s"

definition load_segments :: "link \<Rightarrow> seg_desc_t \<Rightarrow> 'a boot_scheme \<Rightarrow> 'a boot_scheme" where
  "load_segments k d s =
     (let s = s\<lparr>ldt_desc_ptr := make_ldt_desc d (ld_ldt k) ldt_size\<rparr>;
          s = s\<lparr>ldtr := KERNEL_LDT\<rparr>;
          s = s\<lparr>tss_desc_ptr := make_tss_desc d (ld_tss k) tss_size\<rparr>;
          s = s\<lparr>tss_ldt_segment_selector := KERNEL_LDT\<rparr>;
          s = s\<lparr>tss_ss0 := KERNEL_DS\<rparr>;
          s = s\<lparr>tss_esp0 := 0x800000\<rparr>
      in s\<lparr>tr := KERNEL_TSS\<rparr>)"

definition initialize_devices :: "link \<Rightarrow> 'a boot_scheme \<Rightarrow> 'a boot_scheme" where
  "initialize_devices k s =
     (let s = initialize_idt (ld_handler k) (ld_idt k) s;
          s = i8259_init s;
          s = paging_init s;
          s = rtc_init s;
          s = PIT_initialize s;
          s = keyboard_initialize s;
          s = say (lit ''Enabling Interrupts'' @ [newline]) s;
          s = sti s;
          s = launch_tests s;
          s = say (lit ''Tests complete'' @ [newline]) s
      in save_and_switch_term 0 s)"

definition entry :: "link \<Rightarrow> seg_desc_t \<Rightarrow> u32 \<Rightarrow> u32 \<Rightarrow> 'a boot_scheme \<Rightarrow> 'a boot_scheme booted option" where
  "entry k d magic addr s =
     (if magic \<noteq> MULTIBOOT_BOOTLOADER_MAGIC
      then Some (Returned (say (lit ''Invalid magic number: 0x'' @ [Hex8 magic, newline]) s))
      else do {
        s \<leftarrow> report_header addr s;
        let s = (if CHECK_FLAG (mbi_flags (mem s) addr) 3 then load_modules addr (mods_addr (mem s) addr) 0 s else s);
        if CHECK_FLAG (mbi_flags (mem s) addr) 4 \<and> CHECK_FLAG (mbi_flags (mem s) addr) 5
        then Some (Returned (say (lit ''Both bits 4 and 5 are set.'' @ [newline]) s))
        else do {
          s \<leftarrow> report_sections addr s;
          Some (Idle (initialize_devices k (load_segments k d s)))
        }
      })"

section \<open>Descriptors decoded\<close>

definition seg_base :: "seg_desc_t \<Rightarrow> u32" where
  "seg_base d = ucast (base_15_00 d) OR push_bit 16 (ucast (base_23_16 d)) OR push_bit 24 (ucast (base_31_24 d))"

definition seg_limit :: "seg_desc_t \<Rightarrow> u32" where
  "seg_limit d = ucast (seg_lim_15_00 d) OR push_bit 16 (ucast (seg_lim_19_16 d))"

lemma set_params_base: "seg_base (SET_LDT_PARAMS a lim d) = a"
proof (rule bit_word_eqI)
  fix n assume n: "n < LENGTH(32)"
  have m: "(0xFF000000 :: u32) = push_bit 24 (mask 8)" "(0x00FF0000 :: u32) = push_bit 16 (mask 8)" "(0x0000FFFF :: u32) = mask 16"
    by (simp_all add: mask_eq_exp_minus_1)
  consider "n < 16" | "16 \<le> n" "n < 24" | "24 \<le> n" "n < 32" using n by fastforce
  then show "bit (seg_base (SET_LDT_PARAMS a lim d)) n = bit a n"
    unfolding seg_base_def SET_LDT_PARAMS_def m by cases (auto simp: bit_simps)
qed

lemma set_params_same: "SET_TSS_PARAMS = SET_LDT_PARAMS"
  by (simp add: fun_eq_iff SET_TSS_PARAMS_def SET_LDT_PARAMS_def)

section \<open>What the reports leave alone\<close>

definition quiet :: "'a console_scheme \<Rightarrow> 'a console_scheme \<Rightarrow> bool" where
  "quiet s t \<longleftrightarrow> cursor_ok t \<and> console.more t = console.more s \<and> interrupts t = interrupts s
     \<and> (\<forall>x. \<not> in_region x VIDEO 4000 \<longrightarrow> mem t x = mem s x)"

lemma quiet_refl: "cursor_ok s \<Longrightarrow> quiet s s"
  by (simp add: quiet_def)

lemma quiet_trans: "quiet s t \<Longrightarrow> quiet t u \<Longrightarrow> quiet s u"
  by (simp add: quiet_def)

lemma quiet_ok: "quiet s t \<Longrightarrow> cursor_ok t"
  by (simp add: quiet_def)

lemma quiet_put_string: "cursor_ok s \<Longrightarrow> quiet s (put_string cs s)"
  by (simp add: quiet_def put_string_cursor_ok put_string_frame frame_simps)

lemma quiet_say: "cursor_ok s \<Longrightarrow> quiet s (say ps s)"
  by (simp add: say_def quiet_put_string)

lemma quiet_say_trans: "quiet s t \<Longrightarrow> quiet s (say ps t)"
  using quiet_trans quiet_say quiet_ok by blast

lemma quiet_say_if: "quiet s t \<Longrightarrow> quiet s (if b then say ps t else t)"
  by (simp add: quiet_say_trans)

lemma quiet_read:
  assumes "quiet s t" and "disjoint_regions a n VIDEO 4000" "i + k \<le> n" "n \<le> 4294967296"
  shows "read_bytes (mem t) (a + word_of_nat i) k = read_bytes (mem s) (a + word_of_nat i) k"
proof (rule read_bytes_cong)
  fix j assume "j < k"
  then have "in_region (a + word_of_nat (i + j)) a n" using assms(3,4) by (intro in_region_offset) simp_all
  then have "\<not> in_region (a + word_of_nat i + word_of_nat j) VIDEO 4000"
    using disjoint_regionsD [OF assms(2)] by (simp add: add.assoc)
  then show "mem t (a + word_of_nat i + word_of_nat j) = mem s (a + word_of_nat i + word_of_nat j)" using assms(1) by (simp add: quiet_def)
qed

lemma quiet_field:
  assumes "quiet s t" and "disjoint_regions a n VIDEO 4000" "i + 4 \<le> n" "n \<le> 4294967296"
  shows "load32 (mem t) (a + word_of_nat i) = load32 (mem s) (a + word_of_nat i)"
  by (rule load32_cong) (rule quiet_read [OF assms])

lemma quiet_load32: "quiet s t \<Longrightarrow> disjoint_regions a 4 VIDEO 4000 \<Longrightarrow> load32 (mem t) a = load32 (mem s) a"
  using quiet_field [of s t a 4 0] by simp

text \<open>The Multiboot structures: the information record, the tables of modules and of memory ranges.\<close>

fun modules_at :: "mem \<Rightarrow> u32 \<Rightarrow> u32 list \<Rightarrow> bool" where
  "modules_at m a [] = True"
| "modules_at m a (b # bs) \<longleftrightarrow> load32 m a = b \<and> sint b > 0 \<and> disjoint_regions a 4 VIDEO 4000 \<and> modules_at m (a + 16) bs"

fun mmap_at :: "mem \<Rightarrow> u32 \<Rightarrow> u32 \<Rightarrow> u32 list \<Rightarrow> bool" where
  "mmap_at m p e [] \<longleftrightarrow> \<not> p < e"
| "mmap_at m p e (n # ns) \<longleftrightarrow> p < e \<and> load32 m p = n \<and> disjoint_regions p 4 VIDEO 4000 \<and> mmap_at m (p + n + 4) e ns"

definition boot_info_ok :: "mem \<Rightarrow> u32 \<Rightarrow> u8 list \<Rightarrow> u32 list \<Rightarrow> u32 list \<Rightarrow> bool" where
  "boot_info_ok m mbi cs bs ns \<longleftrightarrow> disjoint_regions mbi 52 VIDEO 4000
     \<and> (CHECK_FLAG (mbi_flags m mbi) 2 \<longrightarrow> cstring m (cmdline m mbi) cs \<and> disjoint_regions (cmdline m mbi) (Suc (length cs)) VIDEO 4000)
     \<and> (if CHECK_FLAG (mbi_flags m mbi) 3 then unat (mods_count m mbi) = length bs \<and> modules_at m (mods_addr m mbi) bs else bs = [])
     \<and> \<not> (CHECK_FLAG (mbi_flags m mbi) 4 \<and> CHECK_FLAG (mbi_flags m mbi) 5)
     \<and> (CHECK_FLAG (mbi_flags m mbi) 6 \<longrightarrow> mmap_at m (mmap_addr m mbi) (mmap_addr m mbi + mmap_length m mbi) ns)"

lemma modules_at_cong: "quiet s t \<Longrightarrow> modules_at (mem s) a bs \<Longrightarrow> modules_at (mem t) a bs"
  by (induction bs arbitrary: a) (auto simp: quiet_load32)

lemma mmap_at_cong: "quiet s t \<Longrightarrow> mmap_at (mem s) p e ns \<Longrightarrow> mmap_at (mem t) p e ns"
  by (induction ns arbitrary: p) (auto simp: quiet_load32)

lemma mbi_cong:
  assumes "quiet s t" and "disjoint_regions mbi 52 VIDEO 4000"
  shows "mbi_flags (mem t) mbi = mbi_flags (mem s) mbi" "cmdline (mem t) mbi = cmdline (mem s) mbi"
    "mods_count (mem t) mbi = mods_count (mem s) mbi" "mods_addr (mem t) mbi = mods_addr (mem s) mbi"
    "mmap_length (mem t) mbi = mmap_length (mem s) mbi" "mmap_addr (mem t) mbi = mmap_addr (mem s) mbi"
  using quiet_field [OF assms, of 0] quiet_field [OF assms, of 16] quiet_field [OF assms, of 20] quiet_field [OF assms, of 24]
    quiet_field [OF assms, of 44] quiet_field [OF assms, of 48] by simp_all

lemma cstring_quiet:
  assumes "quiet s t" "cstring (mem s) p cs" "disjoint_regions p (Suc (length cs)) VIDEO 4000"
  shows "cstring (mem t) p cs"
  by (rule cstring_cong [OF assms(2)]) (use assms disjoint_regionsD cstring_length in \<open>auto simp: quiet_def\<close>)

lemma report_header_quiet:
  assumes ok: "cursor_ok s" and info: "boot_info_ok (mem s) mbi cs bs ns"
  obtains t where "report_header mbi s = Some t" "quiet s t"
proof -
  note d = info [unfolded boot_info_ok_def, THEN conjunct1]
  define s1 where "s1 = say (lit ''flags = 0x'' @ [Hex8 (mbi_flags (mem s) mbi), newline]) s"
  define s2 where "s2 = (if CHECK_FLAG (mbi_flags (mem s1) mbi) 0
               then say (lit ''mem_lower = '' @ [Unsigned (mem_lower (mem s1) mbi)] @ lit ''KB, mem_upper = '' @
                      [Unsigned (mem_upper (mem s1) mbi)] @ lit ''KB'' @ [newline]) s1 else s1)"
  define s3 where "s3 = (if CHECK_FLAG (mbi_flags (mem s2) mbi) 1
               then say (lit ''boot_device = 0x'' @ [Hex8 (boot_device (mem s2) mbi), newline]) s2 else s2)"
  have q1: "quiet s s1" unfolding s1_def by (rule quiet_say [OF ok])
  have q2: "quiet s s2" unfolding s2_def by (rule quiet_say_if [OF q1])
  have q: "quiet s s3" unfolding s3_def by (rule quiet_say_if [OF q2])
  have r: "report_header mbi s = (if CHECK_FLAG (mbi_flags (mem s3) mbi) 2 then report_cmdline (cmdline (mem s3) mbi) s3 else Some s3)"
    unfolding report_header_def s3_def s2_def s1_def Let_def by (rule refl)
  show ?thesis
  proof (cases "CHECK_FLAG (mbi_flags (mem s) mbi) 2")
    case True
    then have c: "cstring (mem s) (cmdline (mem s) mbi) cs" "disjoint_regions (cmdline (mem s) mbi) (Suc (length cs)) VIDEO 4000"
      using info by (simp_all add: boot_info_ok_def)
    have q4: "quiet s (say (lit ''cmdline = '') s3)" using q quiet_say_trans by blast
    have "puts (cmdline (mem s) mbi) (say (lit ''cmdline = '') s3)
        = Some (word_of_nat (length cs), put_string cs (say (lit ''cmdline = '') s3))"
      by (rule puts_cstring [OF quiet_ok [OF q4] cstring_quiet [OF q4 c] c(2)])
    then have "report_header mbi s = Some (say [newline] (put_string cs (say (lit ''cmdline = '') s3)))"
      unfolding r mbi_cong [OF q d] using True by (simp add: report_cmdline_def)
    moreover have "quiet s (say [newline] (put_string cs (say (lit ''cmdline = '') s3)))"
      using quiet_trans [OF q4 quiet_put_string [OF quiet_ok [OF q4]]] quiet_say_trans by blast
    ultimately show ?thesis by (rule that)
  next
    case False
    then show ?thesis using that [of s3] r q mbi_cong [OF q d] by simp
  qed
qed

lemma report_mmap_quiet:
  assumes "cursor_ok s" "disjoint_regions mbi 52 VIDEO 4000" "mmap_at (mem s) p (mmap_addr (mem s) mbi + mmap_length (mem s) mbi) ns"
  shows "\<exists>t. report_mmap mbi p s = Some t \<and> quiet s t"
  using assms
proof (induction ns arbitrary: p s)
  case Nil
  then show ?case using quiet_refl by (subst report_mmap.simps) simp
next
  case (Cons n ns)
  have lt: "p < mmap_addr (mem s) mbi + mmap_length (mem s) mbi" using Cons.prems(3) by simp
  have "\<exists>ps. report_mmap mbi p s = report_mmap mbi (p + load32 (mem (say ps s)) p + 4) (say ps s)"
    by (subst report_mmap.simps, simp only: lt if_True Let_def) blast
  then obtain ps where r: "report_mmap mbi p s = report_mmap mbi (p + load32 (mem (say ps s)) p + 4) (say ps s)" ..
  have q: "quiet s (say ps s)" by (rule quiet_say [OF Cons.prems(1)])
  have "mmap_at (mem (say ps s)) (p + n + 4) (mmap_addr (mem s) mbi + mmap_length (mem s) mbi) ns"
    using Cons.prems(3) mmap_at_cong [OF q] by simp
  then have "\<exists>t. report_mmap mbi (p + n + 4) (say ps s) = Some t \<and> quiet (say ps s) t"
    using Cons.IH [OF quiet_ok [OF q] Cons.prems(2)] mbi_cong [OF q Cons.prems(2)] by simp
  moreover have "load32 (mem (say ps s)) p = n" using quiet_load32 [OF q] Cons.prems(3) by simp
  ultimately show ?case using r quiet_trans [OF q] by auto
qed

lemma report_sections_quiet:
  assumes "cursor_ok s" "boot_info_ok (mem s) mbi cs bs ns"
  shows "\<exists>t. report_sections mbi s = Some t \<and> quiet s t"
proof -
  have d: "disjoint_regions mbi 52 VIDEO 4000" using assms(2) by (simp add: boot_info_ok_def)
  define s1 where "s1 = (if CHECK_FLAG (mbi_flags (mem s) mbi) 5
               then say (lit ''elf_sec: num = '' @ [Unsigned (elf_sec (mem s) mbi 0)] @ lit '', size = 0x'' @ [Hex8 (elf_sec (mem s) mbi 4)] @
                      lit '', addr = 0x'' @ [Hex8 (elf_sec (mem s) mbi 8)] @ lit '', shndx = 0x'' @ [Hex8 (elf_sec (mem s) mbi 12), newline]) s else s)"
  define s2 where "s2 = say (lit ''mmap_addr = 0x'' @ [Hex8 (mmap_addr (mem s1) mbi)] @ lit '', mmap_length = 0x'' @
                       [Hex (mmap_length (mem s1) mbi), newline]) s1"
  have q1: "quiet s s1" unfolding s1_def by (rule quiet_say_if [OF quiet_refl [OF assms(1)]])
  have q2: "quiet s s2" unfolding s2_def by (rule quiet_say_trans [OF q1])
  have r: "report_sections mbi s = (if CHECK_FLAG (mbi_flags (mem s1) mbi) 6 then report_mmap mbi (mmap_addr (mem s2) mbi) s2 else Some s1)"
    unfolding report_sections_def s2_def s1_def Let_def by (rule refl)
  show ?thesis
  proof (cases "CHECK_FLAG (mbi_flags (mem s) mbi) 6")
    case True
    then have "mmap_at (mem s2) (mmap_addr (mem s) mbi) (mmap_addr (mem s) mbi + mmap_length (mem s) mbi) ns"
      using assms(2) mmap_at_cong [OF q2] by (simp add: boot_info_ok_def)
    then show ?thesis
      using report_mmap_quiet [OF quiet_ok [OF q2] d, of "mmap_addr (mem s) mbi" ns] True quiet_trans [OF q2] r
      by (auto simp: mbi_cong [OF q1 d] mbi_cong [OF q2 d])
  qed (use r q1 in \<open>simp add: mbi_cong [OF q1 d]\<close>)
qed

lemma boot_info_cong:
  assumes "quiet s t" "boot_info_ok (mem s) mbi cs bs ns"
  shows "boot_info_ok (mem t) mbi cs bs ns"
proof -
  have "disjoint_regions mbi 52 VIDEO 4000" using assms(2) by (simp add: boot_info_ok_def)
  note c = mbi_cong [OF assms(1) this]
  show ?thesis using assms(2) cstring_quiet [OF assms(1)] modules_at_cong [OF assms(1)] mmap_at_cong [OF assms(1)]
    unfolding boot_info_ok_def c by auto
qed

section \<open>Loading the modules\<close>

text \<open>The effect of a module on the pointers of the file system.\<close>

definition point_fs :: "u32 \<Rightarrow> 'a fs_scheme \<Rightarrow> 'a fs_scheme" where
  "point_fs b s = s\<lparr>g_b_block := b, g_index_nodes := b + 0x1000, g_directory_entries := b + 64\<rparr>"

lemma report_module_quiet:
  assumes "cursor_ok s"
  shows "quiet s (report_module a c s)"
proof -
  have f: "quiet s t \<Longrightarrow> quiet s (fold (\<lambda>i s. say (ps i s) s) js t)" for ps js t
    by (induction js arbitrary: t) (simp_all add: quiet_say_trans)
  show ?thesis unfolding report_module_def Let_def
    by (intro quiet_say_trans f quiet_refl assms)
qed

lemma quiet_point:
  assumes "quiet s t"
  shows "quiet (point_fs b s) (point_fs b t)"
proof -
  have "console.more (point_fs b s) = console.more (point_fs b t)"
    using assms by (cases s; cases t) (simp add: quiet_def point_fs_def)
  then show ?thesis using assms by (simp add: quiet_def point_fs_def cursor_ok_def)
qed

lemma quiet_points: "quiet s t \<Longrightarrow> quiet (fold point_fs bs s) (fold point_fs bs t)"
  by (induction bs arbitrary: s t) (simp_all add: quiet_point)

lemma load_modules_points:
  assumes "cursor_ok s" "disjoint_regions mbi 52 VIDEO 4000" "modules_at (mem s) a bs"
    and "unat (mods_count (mem s) mbi) = unat c + length bs"
  shows "quiet (fold point_fs bs s) (load_modules mbi a c s)"
  using assms
proof (induction bs arbitrary: a c s)
  case Nil
  then have "\<not> c < mods_count (mem s) mbi" by (simp add: word_less_nat_alt)
  then show ?case using quiet_refl [OF Nil(1)] by (simp add: load_modules.simps [of mbi a c s])
next
  case (Cons b bs)
  let ?s = "point_fs b s"
  have m: "mem ?s = mem s" "cursor_ok ?s" using Cons.prems(1) by (simp_all add: point_fs_def cursor_ok_def)
  define t where "t = report_module a c ?s"
  have q: "quiet ?s t" unfolding t_def by (rule report_module_quiet [OF m(2)])
  have lt: "c < mods_count (mem s) mbi" using Cons.prems(4) by (simp add: word_less_nat_alt)
  have fs: "filesystem_init (mod_start (mem s) a) s = ?s" using Cons.prems(3) by (simp add: filesystem_init_def point_fs_def)
  have r: "load_modules mbi a c s = load_modules mbi (a + 16) (c + 1) t"
    unfolding load_modules.simps [of mbi a c s] fs t_def using lt by simp
  have c: "mods_count (mem t) mbi = mods_count (mem s) mbi" using mbi_cong(3) [OF q Cons.prems(2)] m(1) by simp
  have "quiet (fold point_fs bs t) (load_modules mbi (a + 16) (c + 1) t)"
    using Cons.prems(3,4) modules_at_cong [OF q] unat_suc32 [OF lt]
    by (intro Cons.IH quiet_ok [OF q] Cons.prems(2)) (simp_all add: m(1) c)
  moreover have "quiet (fold point_fs bs ?s) (fold point_fs bs t)" by (rule quiet_points [OF q])
  ultimately show ?case using r quiet_trans by simp
qed

section \<open>Initialising the devices\<close>

text \<open>What only one step of the boot sequence sets.\<close>

definition boot_view :: "'a boot_scheme \<Rightarrow> _" where
  "boot_view s = (screen_x s, screen_y s, idt s, idtr s, g_b_block s, g_index_nodes s, g_directory_entries s, ldt_desc_ptr s,
     tss_desc_ptr s, tss_ldt_segment_selector s, tss_ss0 s, tss_esp0 s, ldtr s, tr s)"

definition device_view :: "'a boot_scheme \<Rightarrow> _" where
  "device_view s = (boot_view s, mem s, terminal s, pDirectory s, cr0 s)"

lemma pic_boot:
  "device_view (i8259_init s) = device_view s" "device_view (enable_irq (if b then 1 else 0) s) = device_view s"
  "device_view (rtc_init s) = device_view s" "device_view (PIT_initialize s) = device_view s" "device_view (sti s) = device_view s"
  by (simp_all add: device_view_def boot_view_def i8259_init_def enable_irq_def rtc_init_def PIT_initialize_def schedule_initialization_def
      Let_def outb_def inb_def cli_def sti_def word_le_nat_alt word_less_nat_alt)

lemma paging_boot:
  assumes "tables_ok s"
  shows "boot_view (paging_init s) = boot_view s" "mem (paging_init s) = mem s" "terminal (paging_init s) = terminal s"
    "bit (cr0 (paging_init s)) 31" "bit (cr0 (paging_init s)) 0"
    "master_bit_mask (paging_init s) = master_bit_mask s" "slave_bit_mask (paging_init s) = slave_bit_mask s"
  using assms unfolding paging_init_def Let_def tables_ok_def
  by (simp_all add: fold_paging_init_entry boot_view_def bit_simps)

lemma terminal_opened:
  assumes "length (terminal s) = 3" "j < 3"
  defines "t \<equiv> terminal_open_one j s"
  shows "length (terminal t) = 3" "boot_view t = boot_view s" "pDirectory t = pDirectory s" "cr0 t = cr0 s"
    "active_schedule t = active_schedule s" "master_bit_mask t = master_bit_mask s" "slave_bit_mask t = slave_bit_mask s"
    "i < 3 \<Longrightarrow> i \<noteq> j \<Longrightarrow> terminal t ! i = terminal s ! i"
    "video_memory_storage_location (terminal t ! j) = VIDEO + FOUR_KB * (word_of_nat j + 1)"
    "length (keyboard_buffer (terminal t ! j)) = BUFF_SIZE" "buffer_index (terminal t ! j) = 0" "read_index (terminal t ! j) = 0"
    "process_num (terminal t ! j) = process_num (terminal s ! j)"
    "\<not> in_region x (VIDEO + FOUR_KB * (word_of_nat j + 1)) 4000 \<Longrightarrow> mem t x = mem s x"
  using assms
  by (simp_all add: terminal_open_one_def Let_def term_upd_def term_at_def boot_view_def clear_cells_apply in_region_def)

lemma saved_screens:
  assumes "in_region x (VIDEO + FOUR_KB * (word_of_nat j + 1)) 4000" "j < 3"
  shows "in_region x VIDEO 16384"
proof -
  have "VIDEO + FOUR_KB * (word_of_nat j + 1) = VIDEO + word_of_nat (4096 * (j + 1))" by (simp add: algebra_simps)
  then have "in_region x (VIDEO + word_of_nat (4096 * (j + 1))) 4000" using assms(1) by (simp only:)
  then have "in_region x VIDEO (4096 * (j + 1) + 4000)" by (rule in_region_shift) (use assms(2) in simp)
  then show ?thesis by (rule in_region_mono) (use assms(2) in simp)
qed

lemma keyboard_boot:
  assumes "length (terminal s) = 3"
  defines "t \<equiv> keyboard_initialize s"
  shows "tty_wf t" "active_terminal t = 0" "boot_view t = boot_view s" "pDirectory t = pDirectory s" "cr0 t = cr0 s"
    "active_schedule t = active_schedule s" "\<not> in_region x VIDEO 16384 \<Longrightarrow> mem t x = mem s x"
    "lines_open s \<Longrightarrow> lines_open t"
proof -
  define u where "u = enable_irq 1 s"
  define a where "a = terminal_open_one 0 u"
  define b where "b = terminal_open_one 1 a"
  define c where "c = terminal_open_one 2 b"
  have t: "t = c\<lparr>active_terminal := 0, is_visible := 0, CAPS_STATUS := 0, SHIFT_STATUS := 0, CTRL_STATUS := 0, ALT_STATUS := 0\<rparr>"
    by (simp add: t_def keyboard_initialize_def terminal_open_def upt_rec c_def b_def a_def u_def Let_def numeral_2_eq_2)
  have u: "device_view u = device_view s" "active_schedule u = active_schedule s"
    using pic_boot(2) [of True s] by (simp_all add: u_def)
      (simp add: enable_irq_def Let_def outb_def word_le_nat_alt word_less_nat_alt)
  have l: "length (terminal u) = 3" using u(1) assms(1) by (simp add: device_view_def)
  note A = terminal_opened [OF l, of 0, folded a_def, simplified]
  note B = terminal_opened [OF A(1), of 1, folded b_def, simplified]
  note C = terminal_opened [OF B(1), of 2, folded c_def, simplified]
  show "active_terminal t = 0" by (simp add: t)
  show "boot_view t = boot_view s" "pDirectory t = pDirectory s" "cr0 t = cr0 s" "active_schedule t = active_schedule s"
    using A(2-5) B(2-5) C(2-5) u by (simp_all add: t device_view_def boot_view_def)
  show "tty_wf t"
    using A B C by (simp add: t tty_wf_def upt_rec numeral_2_eq_2 [symmetric])
  show "mem t x = mem s x" if "\<not> in_region x VIDEO 16384"
  proof -
    have "\<not> in_region x (VIDEO + FOUR_KB * (word_of_nat j + 1)) 4000" if "j < 3" for j
      using saved_screens [OF _ that] \<open>\<not> in_region x VIDEO 16384\<close> by blast
    from this [of 0] this [of 1] this [of 2] show ?thesis
      using A(14) [of x] B(14) [of x] C(14) [of x] u(1) by (simp add: t device_view_def)
  qed
  show "lines_open t" if "lines_open s"
    using lines_open_enable [OF _ that, of 1] A(6,7) B(6,7) C(6,7) by (simp add: t u_def lines_open_def)
qed

lemma rest_fields:
  fixes s t :: "'a boot_scheme"
  assumes "console.more t = console.more s"
  shows "idt t = idt s" "idtr t = idtr s" "g_b_block t = g_b_block s" "g_index_nodes t = g_index_nodes s"
    "g_directory_entries t = g_directory_entries s" "ldt_desc_ptr t = ldt_desc_ptr s" "tss_desc_ptr t = tss_desc_ptr s"
    "tss_esp0 t = tss_esp0 s" "tss_ss0 t = tss_ss0 s" "ldtr t = ldtr s" "tr t = tr s" "terminal t = terminal s"
    "active_terminal t = active_terminal s" "active_schedule t = active_schedule s" "pDirectory t = pDirectory s" "cr0 t = cr0 s"
    "master_bit_mask t = master_bit_mask s" "slave_bit_mask t = slave_bit_mask s" "pcb_occupants t = pcb_occupants s"
    "tables_ok t = tables_ok s" "addr_pTable t = addr_pTable s" "addr_pTable2 t = addr_pTable2 s" "addr_videopTable t = addr_videopTable s"
  using assms by (cases s; cases t; simp add: tables_ok_def)+

lemma clear_quiet: "quiet s (clear s)"
  by (simp add: quiet_def clear_def update_cursor_def outb_def cursor_ok_def clear_cells_apply in_region_def)

lemma masks_boot:
  "lines_open (i8259_init s)" "tables_ok (i8259_init s) = tables_ok s"
  "lines_open s \<Longrightarrow> lines_open (rtc_init s)" "lines_open s \<Longrightarrow> lines_open (PIT_initialize s)"
proof -
  show "lines_open (i8259_init s)" by (simp add: lines_open_def i8259_init_masks)
  show "tables_ok (i8259_init s) = tables_ok s" by (simp add: i8259_init_def enable_irq_def Let_def outb_def tables_ok_def)
  show "lines_open (rtc_init s)" if "lines_open s"
    using lines_open_enable [of 8 "outb (inb RTC_RW_PORT (outb 0x8B RTC_INPUT_PORT (cli s)) OR 0x40) RTC_RW_PORT
        (outb 0x8B RTC_INPUT_PORT (outb 0x8B RTC_INPUT_PORT (cli s)))"] that
    by (simp add: rtc_init_def Let_def lines_open_def cli_def sti_def outb_def)
  show "lines_open (PIT_initialize s)" if "lines_open s"
    using lines_open_enable [of 0 "schedule_initialization s"] that
    by (simp add: PIT_initialize_def Let_def lines_open_def schedule_initialization_def outb_def)
qed

lemma devices_ready:
  fixes k
  assumes "length (idt s) = 256" "tables_ok s" "length (terminal s) = 3" "cursor_ok s"
  defines "t \<equiv> initialize_devices k s"
  shows "tty_wf t" "active_terminal t = 0" "lines_open t" "interrupts t" "cursor_ok t" "bit (cr0 t) 31"
    "pDirectory t = pDirectory (paging_init s)" "\<not> in_region x VIDEO 16384 \<Longrightarrow> mem t x = mem s x"
    "idt t = idt (initialize_idt (ld_handler k) (ld_idt k) s)" "idtr t = (2047, ld_idt k)"
    "active_schedule t = \<lparr>current_running_process_count = 0, next_terminal_in_schedule = 2, schedule_activated = 1\<rparr>"
    "g_b_block t = g_b_block s" "g_index_nodes t = g_index_nodes s" "g_directory_entries t = g_directory_entries s"
    "ldt_desc_ptr t = ldt_desc_ptr s" "tss_desc_ptr t = tss_desc_ptr s" "tss_esp0 t = tss_esp0 s" "tss_ss0 t = tss_ss0 s"
    "ldtr t = ldtr s" "tr t = tr s"
proof -
  define a where "a = initialize_idt (ld_handler k) (ld_idt k) s"
  define b where "b = paging_init (i8259_init a)"
  define c where "c = PIT_initialize (rtc_init b)"
  define e where "e = keyboard_initialize c"
  define f where "f = sti (say (lit ''Enabling Interrupts'' @ [newline]) e)"
  define h where "h = say (lit ''Tests complete'' @ [newline]) (clear f)"
  have t: "t = save_and_switch_term 0 h"
    by (simp add: t_def initialize_devices_def Let_def launch_tests_def h_def f_def e_def c_def b_def a_def)
  obtain g where a: "a = s\<lparr>idtr := (2047, ld_idt k), idt := g\<rparr>" unfolding a_def by (rule initialize_idt_frame)
  have "tables_ok a" using assms(2) by (simp add: a tables_ok_def)
  then have ta: "tables_ok (i8259_init a)" by (simp only: masks_boot(2))
  note pb = paging_boot [OF ta, folded b_def]
  have ia: "device_view (i8259_init a) = device_view a" by (rule pic_boot(1))
  have "device_view c = device_view b" by (simp add: c_def pic_boot)
  then have cv: "boot_view c = boot_view a" "mem c = mem s" "terminal c = terminal s" "pDirectory c = pDirectory b" "cr0 c = cr0 b"
    using pb(1-3) ia by (simp_all add: device_view_def a)
  have pd: "pDirectory b = pDirectory (paging_init s)"
    using paging_init_tables(1) [OF ta] paging_init_tables(1) [OF assms(2)]
    by (simp add: b_def a i8259_init_def enable_irq_def Let_def outb_def)
  have "lines_open b" using masks_boot(1) [of a] lines_open_cong [OF pb(6,7)] by simp
  then have lc: "lines_open c" by (simp add: c_def masks_boot(3,4))
  have sc: "active_schedule c = \<lparr>current_running_process_count = 0, next_terminal_in_schedule = 2, schedule_activated = 1\<rparr>"
    by (simp add: c_def PIT_initialize_def schedule_initialization_def Let_def outb_def enable_irq_def)
  note ke = keyboard_boot [of c, folded e_def]
  have lt: "length (terminal c) = 3" using assms(3) cv(3) by simp
  have ev: "boot_view e = boot_view a" using ke(3) [OF lt] cv(1) by simp
  then have "cursor_ok e" using assms(4) by (simp add: boot_view_def cursor_ok_def a)
  then have qf: "quiet e (say (lit ''Enabling Interrupts'' @ [newline]) e)" by (rule quiet_say)
  have "quiet f (clear f)" by (rule clear_quiet)
  then have qh: "quiet f h" unfolding h_def by (rule quiet_say_trans)
  have fe: "console.more f = console.more e" "interrupts f" "mem f = mem (say (lit ''Enabling Interrupts'' @ [newline]) e)"
    using qf by (simp_all add: f_def quiet_def sti_def)
  have he: "console.more h = console.more e" "interrupts h" "cursor_ok h" using qh fe by (simp_all add: quiet_def)
  note r = rest_fields [OF he(1)]
  have th: "t = h" using r(13) ke(2) [OF lt] by (simp add: t save_and_switch_term_def)
  show "interrupts t" "cursor_ok t" using he by (simp_all add: th)
  show "tty_wf t" using ke(1) [OF lt] r(12,13) by (simp add: th tty_wf_def)
  show "active_terminal t = 0" "lines_open t" "bit (cr0 t) 31" "pDirectory t = pDirectory (paging_init s)"
    "active_schedule t = \<lparr>current_running_process_count = 0, next_terminal_in_schedule = 2, schedule_activated = 1\<rparr>"
    using ke(2,4-6,8) [OF lt] lc sc pb(4) cv pd lines_open_cong [OF r(17,18)] by (simp_all add: th r)
  show "mem t x = mem s x" if "\<not> in_region x VIDEO 16384"
  proof -
    have "\<not> in_region x VIDEO 4000" using that in_region_mono [of x VIDEO 4000 16384] by auto
    then show ?thesis using ke(7) [OF lt that] qf qh fe(3) cv(2) by (simp add: th quiet_def)
  qed
  show "idt t = idt (initialize_idt (ld_handler k) (ld_idt k) s)" "idtr t = (2047, ld_idt k)"
    "g_b_block t = g_b_block s" "g_index_nodes t = g_index_nodes s" "g_directory_entries t = g_directory_entries s"
    "ldt_desc_ptr t = ldt_desc_ptr s" "tss_desc_ptr t = tss_desc_ptr s" "tss_esp0 t = tss_esp0 s" "tss_ss0 t = tss_ss0 s"
    "ldtr t = ldtr s" "tr t = tr s"
    using ev unfolding a_def [symmetric] th by (simp_all add: r boot_view_def a)
qed

lemma point_fs_sel:
  "mem (point_fs b s) = mem s" "interrupts (point_fs b s) = interrupts s" "cursor_ok (point_fs b s) = cursor_ok s"
  by (simp_all add: point_fs_def cursor_ok_def)

lemma fold_point_fs:
  "mem (fold point_fs bs s) = mem s" "cursor_ok (fold point_fs bs s) = cursor_ok s"
  "bs \<noteq> [] \<Longrightarrow> fold point_fs bs s = point_fs (last bs) s"
proof -
  show "mem (fold point_fs bs s) = mem s" by (induction bs arbitrary: s) (simp_all add: point_fs_sel)
  show "cursor_ok (fold point_fs bs s) = cursor_ok s" by (induction bs arbitrary: s) (simp_all add: point_fs_sel)
  have "point_fs c (point_fs b t) = point_fs c t" for b c and t :: "'a fs_scheme" by (simp add: point_fs_def)
  note over = this
  show "bs \<noteq> [] \<Longrightarrow> fold point_fs bs s = point_fs (last bs) s"
  proof (induction bs rule: rev_induct)
    case (snoc b bs)
    then show ?case by (cases "bs = []") (simp_all add: over)
  qed simp
qed

lemma fold_point_fs_keeps:
  fixes s :: "'a boot_scheme"
  shows "idt (fold point_fs bs s) = idt s" "tables_ok (fold point_fs bs s) = tables_ok s" "terminal (fold point_fs bs s) = terminal s"
    "addr_pTable (fold point_fs bs s) = addr_pTable s" "addr_pTable2 (fold point_fs bs s) = addr_pTable2 s"
    "addr_videopTable (fold point_fs bs s) = addr_videopTable s" "ldtr (fold point_fs bs s) = ldtr s" "tr (fold point_fs bs s) = tr s"
proof -
  have "tables_ok (point_fs b u) = tables_ok u" for b and u :: "'a boot_scheme" by (simp add: point_fs_def tables_ok_def)
  then show "tables_ok (fold point_fs bs s) = tables_ok s" by (induction bs arbitrary: s) simp_all
qed (induction bs arbitrary: s, simp_all add: point_fs_def)+

lemma initialize_idt_cong:
  fixes s t :: "'a kernel_scheme"
  assumes "idt s = idt t"
  shows "idt (initialize_idt addr base s) = idt (initialize_idt addr base t)"
proof -
  have g: "idt u = idt v \<Longrightarrow> idt (set_gate i a u) = idt (set_gate i a v)" for u v :: "'a kernel_scheme" and i a
    by (simp add: set_gate_def)
  have i: "idt u = idt v \<Longrightarrow> idt (init_gate addr i u) = idt (init_gate addr i v)" for u v :: "'a kernel_scheme" and i
    by (cases "i = 0x80"; cases "31 < i") (simp_all add: init_gate_def Let_def set_gate_def)
  have f: "idt u = idt v \<Longrightarrow> idt (fold (init_gate addr) xs u) = idt (fold (init_gate addr) xs v)" for u v :: "'a kernel_scheme" and xs
  proof (induction xs arbitrary: u v)
    case (Cons x xs)
    from Cons.IH [OF i [OF Cons.prems]] show ?case by simp
  qed simp
  show ?thesis unfolding initialize_idt_def Let_def by (intro g f) (simp add: assms)
qed

text \<open>The state in which the devices are initialised.\<close>

lemma reports_done:
  fixes s :: "'a boot_scheme"
  assumes "cursor_ok s" "boot_info_ok (mem s) mbi cs bs ns"
  obtains t where "entry k d MULTIBOOT_BOOTLOADER_MAGIC mbi s = Some (Idle (initialize_devices k (load_segments k d t)))"
    and "quiet (fold point_fs bs s) t"
proof -
  have dis: "disjoint_regions mbi 52 VIDEO 4000" using assms(2) by (simp add: boot_info_ok_def)
  obtain s1 where h: "report_header mbi s = Some s1" and q1: "quiet s s1" by (rule report_header_quiet [OF assms])
  note i1 = boot_info_cong [OF q1 assms(2)]
  define s2 where "s2 = (if CHECK_FLAG (mbi_flags (mem s1) mbi) 3 then load_modules mbi (mods_addr (mem s1) mbi) 0 s1 else s1)"
  have q2: "quiet (fold point_fs bs s1) s2"
  proof (cases "CHECK_FLAG (mbi_flags (mem s1) mbi) 3")
    case True
    then show ?thesis
      using i1 load_modules_points [OF quiet_ok [OF q1] dis] by (simp add: s2_def boot_info_ok_def)
  qed (use i1 quiet_refl [OF quiet_ok [OF q1]] in \<open>simp add: s2_def boot_info_ok_def\<close>)
  have i2: "boot_info_ok (mem s2) mbi cs bs ns" using boot_info_cong [OF q2] i1 by (simp add: fold_point_fs)
  obtain s3 where r: "report_sections mbi s2 = Some s3" and q3: "quiet s2 s3"
    using report_sections_quiet [OF quiet_ok [OF q2] i2] by blast
  have n: "\<not> (CHECK_FLAG (mbi_flags (mem s2) mbi) 4 \<and> CHECK_FLAG (mbi_flags (mem s2) mbi) 5)"
    using i2 by (simp add: boot_info_ok_def)
  have "entry k d MULTIBOOT_BOOTLOADER_MAGIC mbi s = Some (Idle (initialize_devices k (load_segments k d s3)))"
    using h r n unfolding entry_def Let_def s2_def by simp
  moreover have "quiet (fold point_fs bs s) s3" using quiet_trans [OF quiet_trans [OF quiet_points [OF q1] q2] q3] .
  ultimately show ?thesis by (rule that)
qed

text \<open>What a refused boot must not touch.\<close>

definition hardware :: "'a boot_scheme \<Rightarrow> _" where
  "hardware s = (interrupts s, idt s, idtr s, ldtr s, tr s, tss_esp0 s, pDirectory s, cr0 s, master_bit_mask s, slave_bit_mask s,
     terminal s, active_schedule s)"

lemma hardware_more:
  fixes s t :: "'a boot_scheme"
  assumes "console.more t = console.more s" "interrupts t = interrupts s"
  shows "hardware t = hardware s"
  using rest_fields [OF assms(1)] assms(2) by (simp add: hardware_def)

lemma hardware_say: "hardware (say ps s) = hardware s"
  by (rule hardware_more) (simp_all add: say_def frame_simps)

lemma puts_loop_more:
  assumes "puts_loop p i s = Some r"
  shows "console.more (snd r) = console.more s \<and> interrupts (snd r) = interrupts s"
proof (rule puts_loop.raw_induct [where P = "\<lambda>p i s r. console.more (snd r) = console.more s \<and> interrupts (snd r) = interrupts s"])
  fix f p i s r
  assume ih: "\<And>p i s r. f p i s = Some r \<Longrightarrow> console.more (snd r) = console.more s \<and> interrupts (snd r) = interrupts s"
    and f: "(if mem s (p + i) \<noteq> 0 then f p (i + 1) (putc (mem s (p + i)) s) else Some (i, s)) = Some r"
  show "console.more (snd r) = console.more s \<and> interrupts (snd r) = interrupts s"
    using f ih [of p "i + 1" "putc (mem s (p + i)) s" r] by (auto simp: frame_simps split: if_splits)
qed (rule assms)

lemma report_header_hardware: "report_header mbi s = Some t \<Longrightarrow> hardware t = hardware s"
proof -
  have c: "hardware t = hardware u" if r: "report_cmdline p u = Some t" for p u
  proof -
    obtain n v where p: "puts_loop p 0 (say (lit ''cmdline = '') u) = Some (n, v)" and t: "t = say [newline] v"
      using r by (auto simp: report_cmdline_def puts_def split: bind_splits)
    have "hardware v = hardware (say (lit ''cmdline = '') u)" using puts_loop_more [OF p] by (intro hardware_more) simp_all
    then show ?thesis by (simp only: t hardware_say)
  qed
  show "report_header mbi s = Some t \<Longrightarrow> hardware t = hardware s"
    by (auto simp: report_header_def Let_def hardware_say dest!: c split: if_splits)
qed

lemma load_modules_hardware:
  fixes s :: "'a boot_scheme"
  shows "hardware (load_modules mbi a c s) = hardware s"
proof (induction mbi a c s rule: load_modules.induct)
  case (1 mbi a c s)
  have m: "hardware (report_module a c u) = hardware u" for u :: "'a boot_scheme"
  proof -
    have "hardware (fold (\<lambda>i s. say (ps i s) s) js v) = hardware v" for ps and js :: "nat list" and v :: "'a boot_scheme"
      by (induction js arbitrary: v) (simp_all add: hardware_say)
    then show ?thesis by (simp add: report_module_def Let_def hardware_say)
  qed
  have "hardware (filesystem_init b s) = hardware s" for b
  proof (cases "sint b \<le> 0")
    case True
    then show ?thesis by (intro hardware_more) (simp_all add: filesystem_init_def frame_simps)
  qed (simp add: filesystem_init_def hardware_def)
  then show ?case using 1 m by (subst load_modules.simps) simp
qed

section \<open>Properties\<close>

text \<open>
  C5. Booting. Let the boot loader pass its magic number and an information record that is sound: the record, the tables it points to and the strings lie outside the
  video memory, the lists end, and not both symbol table bits are set. Then \<open>entry\<close> returns from all its reports and reaches the idle loop. Then
  interrupts are enabled and paging is on with the page directory of \<open>paging_init\<close>; the interrupt table is the one \<open>initialize_idt\<close> builds and its register points to it; the local table and
  the task segment are loaded; the timer, cascade and clock lines are open; the file system is the last module; the three terminals
  are empty and terminal 0 is shown; the scheduler is on and has started no shell; and no memory outside the 16 KB of screens has changed.
\<close>

theorem entry_boots:
  fixes s :: "'a boot_scheme"
  assumes "boot_info_ok (mem s) mbi cs bs ns" and "cursor_ok s" "length (idt s) = 256" "tables_ok s" "length (terminal s) = 3"
  shows "\<exists>t. entry k d MULTIBOOT_BOOTLOADER_MAGIC mbi s = Some (Idle t)
     \<and> interrupts t \<and> bit (cr0 t) 31 \<and> pDirectory t = pDirectory (paging_init s)
     \<and> idt t = idt (initialize_idt (ld_handler k) (ld_idt k) s) \<and> idtr t = (2047, ld_idt k)
     \<and> ldtr t = KERNEL_LDT \<and> tr t = KERNEL_TSS \<and> tss_esp0 t = 0x800000 \<and> tss_ss0 t = KERNEL_DS
     \<and> lines_open t \<and> g_b_block t = (if bs = [] then g_b_block s else last bs)
     \<and> tty_wf t \<and> active_terminal t = 0 \<and> cursor_ok t
     \<and> active_schedule t = \<lparr>current_running_process_count = 0, next_terminal_in_schedule = 2, schedule_activated = 1\<rparr>
     \<and> (\<forall>x. \<not> in_region x VIDEO 16384 \<longrightarrow> mem t x = mem s x)"
proof -
  obtain u where e: "entry k d MULTIBOOT_BOOTLOADER_MAGIC mbi s = Some (Idle (initialize_devices k (load_segments k d u)))"
    and q: "quiet (fold point_fs bs s) u" by (rule reports_done [OF assms(2,1)])
  let ?v = "load_segments k d u"
  let ?t = "initialize_devices k ?v"
  have m: "console.more u = console.more (fold point_fs bs s)" using q by (simp add: quiet_def)
  note r = rest_fields [OF m]
  note p = fold_point_fs_keeps [of bs s]
  have gb: "g_b_block (fold point_fs bs s) = (if bs = [] then g_b_block s else last bs)"
  proof (cases "bs = []")
    case False
    then show ?thesis by (simp add: fold_point_fs(3)) (simp add: point_fs_def)
  qed simp
  have v: "idt ?v = idt s" "tables_ok ?v" "length (terminal ?v) = 3" "cursor_ok ?v" "g_b_block ?v = g_b_block u" "mem ?v = mem u"
    "tss_esp0 ?v = 0x800000" "tss_ss0 ?v = KERNEL_DS" "ldtr ?v = KERNEL_LDT" "tr ?v = KERNEL_TSS"
    using assms(3-5) r(1,12,20) p(1-3) quiet_ok [OF q] by (simp_all add: load_segments_def Let_def tables_ok_def cursor_ok_def)
  have ad: "addr_pTable ?v = addr_pTable s" "addr_pTable2 ?v = addr_pTable2 s" "addr_videopTable ?v = addr_videopTable s"
    by (simp_all add: load_segments_def Let_def r(21-23) p(4-6))
  have pd: "pDirectory (paging_init ?v) = pDirectory (paging_init s)"
    using paging_init_tables(1) [OF v(2)] paging_init_tables(1) [OF assms(4)] by (simp add: ad)
  have "length (idt ?v) = 256" using v(1) assms(3) by simp
  note t = devices_ready [OF this v(2-4), where k = k]
  have "mem ?t x = mem s x" if "\<not> in_region x VIDEO 16384" for x
  proof -
    have "\<not> in_region x VIDEO 4000" using that in_region_mono [of x VIDEO 4000 16384] by auto
    then show ?thesis using t(8) [OF that] v(6) q by (simp add: quiet_def fold_point_fs)
  qed
  then show ?thesis
    using e t(1-7,9-12,17-20) v(5,7-10) pd initialize_idt_cong [OF v(1)] r(3) gb by (intro exI [of _ ?t]) simp
qed

text \<open>A loader that passes one module, the file system at \<open>0x100000\<close>, and a record with its flag only.\<close>

definition boot_mem :: mem where
  "boot_mem = fold (\<lambda>(a, bs) m. write_bytes m a bs)
     [(0x2000, bytes32 8), (0x2014, bytes32 1 @ bytes32 0x2100), (0x2100, bytes32 0x100000)] (\<lambda>_. 0)"

definition seg_zero :: seg_desc_t where
  "seg_zero = \<lparr>seg_lim_15_00 = 0, base_15_00 = 0, base_23_16 = 0, seg_type = 0, seg_sys = 0, seg_dpl = 0, seg_present = 0,
     seg_lim_19_16 = 0, avail = 0, seg_reserved = 0, opsize = 0, granularity = 0, base_31_24 = 0\<rparr>"

definition boot_state :: boot where
  "boot_state = kernel.extend (kernel_example\<lparr>mem := boot_mem\<rparr>) \<lparr>ldt_desc_ptr = seg_zero, tss_desc_ptr = seg_zero,
     tss_ldt_segment_selector = 0, tss_ss0 = 0, ldtr = 0, tr = 0\<rparr>"

definition boot_link :: link where
  "boot_link = \<lparr>ld_handler = link_example, ld_idt = 0x500000, ld_ldt = 0x510000, ld_tss = 0x520000\<rparr>"

theorem entry_boots_witness:
  "\<exists>t. entry boot_link seg_zero 0x2BADB002 0x2000 boot_state = Some (Idle t) \<and> g_b_block t = 0x100000 \<and> tty_wf t"
proof -
  have l: "load32 boot_mem 0x2000 = 8" "load32 boot_mem 0x2014 = 1" "load32 boot_mem 0x2018 = 0x2100" "load32 boot_mem 0x2100 = 0x100000"
    by code_simp+
  have f: "CHECK_FLAG 8 3" "\<not> CHECK_FLAG 8 2" "\<not> CHECK_FLAG 8 4" "\<not> CHECK_FLAG 8 5" "\<not> CHECK_FLAG 8 6" by (simp_all add: CHECK_FLAG_def)
  have m: "mem boot_state = boot_mem" by (simp add: boot_state_def kernel.defs)
  have "boot_info_ok (mem boot_state) 0x2000 [] [0x100000] []"
    unfolding boot_info_ok_def m by (simp add: l f disjoint_regions_def)
  moreover have "cursor_ok boot_state" "length (idt boot_state) = 256" "tables_ok boot_state" "length (terminal boot_state) = 3"
    by (simp_all add: boot_state_def kernel.defs kernel_example_def process.defs cursor_ok_def tables_ok_def exec_example_def process_example_def
        kbd.defs kbd_example_def tty.defs tty_example_def fs.defs fs_example_def paging.defs paging_example_def rtc.defs rtc_example_def
        pic.defs pic_example_def)
  ultimately show ?thesis using entry_boots [where s = boot_state and mbi = "0x2000" and cs = "[]" and bs = "[0x100000]" and ns = "[]" and k = boot_link and d = seg_zero]
    by auto
qed

text \<open>
  Refusals. Whenever \<open>entry\<close> returns, because of another magic number or because both symbol table bits are set, the processor and the devices have not been touched: interrupts,
  paging, descriptor tables, segment registers, interrupt masks and terminals are as they were.
\<close>

lemma entry_refuses:
  assumes "entry k d magic mbi s = Some (Returned t)"
  shows "hardware t = hardware s"
proof -
  have "\<exists>ps. t = say ps s"
    if "magic \<noteq> MULTIBOOT_BOOTLOADER_MAGIC" using assms that by (auto simp: entry_def)
  moreover have "\<exists>u v ps. report_header mbi s = Some u \<and> (v = u \<or> v = load_modules mbi (mods_addr (mem u) mbi) 0 u) \<and> t = say ps v"
    if "magic = MULTIBOOT_BOOTLOADER_MAGIC" using assms that by (auto simp: entry_def Let_def split: bind_splits if_splits)
  ultimately show ?thesis using hardware_say report_header_hardware load_modules_hardware by metis
qed

text \<open>
  The segment descriptors. Whatever the stack held, the descriptor of the local table has its address as its base and 31 as its limit, and the one of the task
  segment has the segment's address and 103; both are present, at privilege 0, of the system types 2 and 9.
\<close>

lemma segment_descriptors:
  "seg_base (make_ldt_desc d a ldt_size) = a \<and> seg_limit (make_ldt_desc d a ldt_size) = 31
   \<and> seg_base (make_tss_desc d b tss_size) = b \<and> seg_limit (make_tss_desc d b tss_size) = 103
   \<and> (seg_present (make_ldt_desc d a n), seg_dpl (make_ldt_desc d a n), seg_sys (make_ldt_desc d a n), seg_type (make_ldt_desc d a n)) = (1, 0, 0, 2)
   \<and> (seg_present (make_tss_desc d b n), seg_dpl (make_tss_desc d b n), seg_sys (make_tss_desc d b n), seg_type (make_tss_desc d b n)) = (1, 0, 0, 9)"
proof -
  have l: "seg_limit (SET_LDT_PARAMS x 31 e) = 31" "seg_limit (SET_LDT_PARAMS x 103 e) = 103" for x e
    by (simp_all add: seg_limit_def SET_LDT_PARAMS_def)
  show ?thesis
    by (simp add: make_ldt_desc_def make_tss_desc_def Let_def set_params_same set_params_base l)
       (simp add: SET_LDT_PARAMS_def)
qed
end
