(* ===== verification/Start.thy ===== *)
theory Start
  imports Boot
begin

text \<open>
  The start of the kernel: the Multiboot header and the code of \<^verbatim>\<open>src/student-distrib/boot.S\<close> up to the call of \<open>entry\<close>, and the global descriptor table of
  \<^verbatim>\<open>x86_desc.S\<close>. The results: the boot loader finds a sound header, the selectors of \<^verbatim>\<open>x86_desc.h\<close> select the
  segments they are named after, flat 4 GB segments of ring 0 and ring 3, and the last two entries of the table are the ones \<open>entry\<close> fills.
\<close>

section \<open>Descriptors as words\<close>

text \<open>The union of a descriptor with its two words.\<close>

definition desc_quad :: "seg_desc_t \<Rightarrow> 64 word" where
  "desc_quad d = ucast (seg_lim_15_00 d) OR push_bit 16 (ucast (base_15_00 d)) OR push_bit 32 (ucast (base_23_16 d))
     OR push_bit 40 (ucast (seg_type d)) OR push_bit 44 (ucast (seg_sys d)) OR push_bit 45 (ucast (seg_dpl d)) OR push_bit 47 (ucast (seg_present d))
     OR push_bit 48 (ucast (seg_lim_19_16 d)) OR push_bit 52 (ucast (avail d)) OR push_bit 53 (ucast (seg_reserved d))
     OR push_bit 54 (ucast (opsize d)) OR push_bit 55 (ucast (granularity d)) OR push_bit 56 (ucast (base_31_24 d))"

definition quad_desc :: "64 word \<Rightarrow> seg_desc_t" where
  "quad_desc q = \<lparr>seg_lim_15_00 = ucast q, base_15_00 = ucast (drop_bit 16 q), base_23_16 = ucast (drop_bit 32 q), seg_type = ucast (drop_bit 40 q),
     seg_sys = ucast (drop_bit 44 q), seg_dpl = ucast (drop_bit 45 q), seg_present = ucast (drop_bit 47 q), seg_lim_19_16 = ucast (drop_bit 48 q),
     avail = ucast (drop_bit 52 q), seg_reserved = ucast (drop_bit 53 q), opsize = ucast (drop_bit 54 q), granularity = ucast (drop_bit 55 q),
     base_31_24 = ucast (drop_bit 56 q)\<rparr>"

lemma bit_beyond: "LENGTH('w) \<le> n \<Longrightarrow> \<not> bit (w :: 'w :: len word) n"
  using bit_imp_le_length by fastforce

lemma bit_desc_quad:
  "bit (desc_quad d) n \<longleftrightarrow> n < 64 \<and> (bit (seg_lim_15_00 d) n \<or> 16 \<le> n \<and> bit (base_15_00 d) (n - 16) \<or> 32 \<le> n \<and> bit (base_23_16 d) (n - 32)
     \<or> 40 \<le> n \<and> bit (seg_type d) (n - 40) \<or> 44 \<le> n \<and> bit (seg_sys d) (n - 44) \<or> 45 \<le> n \<and> bit (seg_dpl d) (n - 45)
     \<or> 47 \<le> n \<and> bit (seg_present d) (n - 47) \<or> 48 \<le> n \<and> bit (seg_lim_19_16 d) (n - 48) \<or> 52 \<le> n \<and> bit (avail d) (n - 52)
     \<or> 53 \<le> n \<and> bit (seg_reserved d) (n - 53) \<or> 54 \<le> n \<and> bit (opsize d) (n - 54) \<or> 55 \<le> n \<and> bit (granularity d) (n - 55)
     \<or> 56 \<le> n \<and> bit (base_31_24 d) (n - 56))"
  unfolding desc_quad_def by (cases "n < 64") (simp_all add: bit_simps less_imp_diff_less)

lemma quad_desc_quad: "quad_desc (desc_quad d) = d"
proof -
  note b = bit_desc_quad bit_beyond
  have "ucast (desc_quad d) = seg_lim_15_00 d" "ucast (drop_bit 16 (desc_quad d)) = base_15_00 d" "ucast (drop_bit 32 (desc_quad d)) = base_23_16 d"
    by (rule bit_word_eqI; simp add: bit_simps b)+
  moreover have "ucast (drop_bit 40 (desc_quad d)) = seg_type d" "ucast (drop_bit 44 (desc_quad d)) = seg_sys d" "ucast (drop_bit 45 (desc_quad d)) = seg_dpl d"
    "ucast (drop_bit 47 (desc_quad d)) = seg_present d" "ucast (drop_bit 48 (desc_quad d)) = seg_lim_19_16 d"
    by (rule bit_word_eqI; simp add: bit_simps b)+
  moreover have "ucast (drop_bit 52 (desc_quad d)) = avail d" "ucast (drop_bit 53 (desc_quad d)) = seg_reserved d" "ucast (drop_bit 54 (desc_quad d)) = opsize d"
    "ucast (drop_bit 55 (desc_quad d)) = granularity d" "ucast (drop_bit 56 (desc_quad d)) = base_31_24 d"
    by (rule bit_word_eqI; simp add: bit_simps b)+
  ultimately show ?thesis by (simp add: quad_desc_def)
qed

section \<open>The global descriptor table\<close>

text \<open>The table of a state: the last two entries are variables.\<close>

definition gdt :: "'a boot_scheme \<Rightarrow> 64 word list" where
  "gdt s = [0, 0, 0x00CF9A000000FFFF, 0x00CF92000000FFFF, 0x00CFFA000000FFFF, 0x00CFF2000000FFFF, desc_quad (tss_desc_ptr s), desc_quad (ldt_desc_ptr s)]"

text \<open>What a selector selects: bits 3 to 15 are the index, bits 0 and 1 the privilege that is asked for.\<close>

definition segment :: "'a boot_scheme \<Rightarrow> u16 \<Rightarrow> seg_desc_t" where
  "segment s sel = quad_desc (gdt s ! unat (drop_bit 3 sel))"

definition flat_segment :: "2 word \<Rightarrow> 4 word \<Rightarrow> seg_desc_t \<Rightarrow> bool" where
  "flat_segment ring kind d \<longleftrightarrow> seg_base d = 0 \<and> seg_limit d = 0xFFFFF \<and> granularity d = 1 \<and> opsize d = 1 \<and> seg_present d = 1
     \<and> seg_sys d = 1 \<and> seg_dpl d = ring \<and> seg_type d = kind"

lemma flat_segments:
  "flat_segment 0 0xA (segment s KERNEL_CS)" "flat_segment 0 2 (segment s KERNEL_DS)"
  "flat_segment 3 0xA (segment s 0x23)" "flat_segment 3 2 (segment s 0x2B)"
  by (simp_all add: segment_def gdt_def flat_segment_def quad_desc_def seg_base_def seg_limit_def) 

lemma loaded_segments: "segment s KERNEL_TSS = tss_desc_ptr s" "segment s KERNEL_LDT = ldt_desc_ptr s"
  by (simp_all add: segment_def gdt_def quad_desc_quad)

section \<open>The start\<close>

abbreviation MULTIBOOT_HEADER_MAGIC :: u32 where "MULTIBOOT_HEADER_MAGIC \<equiv> 0x1BADB002"
abbreviation MULTIBOOT_HEADER_FLAGS :: u32 where "MULTIBOOT_HEADER_FLAGS \<equiv> 3"

definition multiboot_header :: "u32 list" where
  "multiboot_header = [MULTIBOOT_HEADER_MAGIC, MULTIBOOT_HEADER_FLAGS, - (MULTIBOOT_HEADER_MAGIC + MULTIBOOT_HEADER_FLAGS)]"

lemma multiboot_checksum: "sum_list multiboot_header = 0"
  by (simp add: multiboot_header_def)

record cpu = boot +
  gdtr :: "u16 \<times> u32"
  cs :: u16
  ss :: u16
  ds :: u16
  es :: u16
  fs_reg :: u16
  gs :: u16

definition pushl :: "u32 \<Rightarrow> 'a process_scheme \<Rightarrow> 'a process_scheme" where
  "pushl v s = s\<lparr>esp := esp s - 4, mem := store32 (mem s) (esp s - 4) v\<rparr>"

text \<open>
  \<open>gdt_addr\<close> is the place of the table and \<open>ret\<close> the address behind the call, both from the linker. If \<open>entry\<close> returns, the processor halts for good; \<open>Returned\<close> is that
  state.
\<close>

definition start :: "link \<Rightarrow> u32 \<Rightarrow> u32 \<Rightarrow> seg_desc_t \<Rightarrow> u32 \<Rightarrow> u32 \<Rightarrow> 'a cpu_scheme \<Rightarrow> 'a cpu_scheme booted option" where
  "start k gdt_addr ret d eax ebx s =
     (let s = cli s;
          s = s\<lparr>gdtr := (8 * 8 - 1, gdt_addr)\<rparr>;
          s = s\<lparr>cs := KERNEL_CS\<rparr>;
          s = s\<lparr>esp := 0x800000\<rparr>;
          s = s\<lparr>ss := KERNEL_DS\<rparr>;
          s = s\<lparr>ds := KERNEL_DS\<rparr>;
          s = s\<lparr>es := KERNEL_DS\<rparr>;
          s = s\<lparr>fs_reg := KERNEL_DS\<rparr>;
          s = s\<lparr>gs := KERNEL_DS\<rparr>;
          s = pushl ebx s;
          s = pushl eax s;
          s = pushl ret s
      in entry k d (load32 (mem s) (esp s + 4)) (load32 (mem s) (esp s + 8)) s)"

text \<open>\<open>entry\<close> gets the registers of the boot loader as its arguments, runs in the segments of the kernel with interrupts off, and nothing but the top of the stack has changed.\<close>

lemma start_calls_entry:
  "\<exists>t. start k gdt_addr ret d eax ebx s = entry k d eax ebx t \<and> \<not> interrupts t \<and> cs t = KERNEL_CS \<and> ss t = KERNEL_DS \<and> ds t = KERNEL_DS
     \<and> gdtr t = (63, gdt_addr) \<and> esp t = 0x7FFFF4 \<and> (\<forall>x. \<not> in_region x 0x7FFFF4 12 \<longrightarrow> mem t x = mem s x)
     \<and> (\<forall>sel. segment t sel = segment s sel)"
proof -
  let ?a = "store32 (mem s) 0x7FFFFC ebx"
  let ?b = "store32 ?a 0x7FFFF8 eax"
  let ?c = "store32 ?b 0x7FFFF4 ret"
  let ?t = "(cli s)\<lparr>gdtr := (63, gdt_addr), cs := KERNEL_CS, ss := KERNEL_DS, ds := KERNEL_DS, es := KERNEL_DS, fs_reg := KERNEL_DS,
     gs := KERNEL_DS, esp := 0x7FFFF4, mem := ?c\<rparr>"
  have far: "load32 (store32 m a v) b = load32 m b" if "disjoint_regions a 4 b 4" for m a v b
    using that by (simp add: store32_def load32_write_disjoint)
  have l: "load32 ?c 0x7FFFF8 = eax" "load32 ?c 0x7FFFFC = ebx"
    using far [of "0x7FFFF4" "0x7FFFF8" ?b ret] far [of "0x7FFFF4" "0x7FFFFC" ?b ret] far [of "0x7FFFF8" "0x7FFFFC" ?a eax]
    by (simp_all add: disjoint_regions_def load_store32)
  have "start k gdt_addr ret d eax ebx s = entry k d eax ebx ?t"
    using l by (simp add: start_def pushl_def Let_def cli_def)
  moreover have "mem ?t x = mem s x" if x: "\<not> in_region x 0x7FFFF4 12" for x
  proof -
    have "\<not> in_region x (0x7FFFF4 + word_of_nat j) 4" if "j \<le> 8" for j
      using x that in_region_mono [OF in_region_shift [of x "0x7FFFF4" j 4], of 12] by fastforce
    from this [of 0] this [of 4] this [of 8] show ?thesis by (simp add: store32_def write_bytes_outside)
  qed
  moreover have "segment ?t sel = segment s sel" for sel by (simp add: segment_def gdt_def cli_def)
  ultimately show ?thesis by (intro exI [of _ ?t]) (simp add: cli_def)
qed

end
