(* ===== verification/Call_Returns.thy ===== *)
theory Call_Returns
  imports Execute
begin

text \<open>
  Which system calls come back. Beyond the calls that start or end a program and the two reads that wait for a key or for the clock, no call
  can hang or run into a bad pointer: it returns for every number and every argument. What a process can do to its descriptors keeps the condition for this.
\<close>

section \<open>Descriptors in order\<close>

definition device_tables :: "op_table set" where
  "device_tables = {term_table, rtc_table, directory_table, file_table}"

text \<open>
  The table of descriptors is in place, and those in use have an operation table. Descriptor 0 is left out: entering a program overwrites its operation table, and the calls
  repair it before they use it or refuse it.
\<close>

definition descriptors_ok :: "'a process_scheme \<Rightarrow> bool" where
  "descriptors_ok s \<longleftrightarrow> fds_ok s \<and> (\<forall>j \<in> {1..<8}. flags (fd_at j s) \<noteq> 0 \<longrightarrow> descriptor_op_ptr (fd_at j s) \<in> device_tables)"

definition waits :: "u32 \<Rightarrow> u32 \<Rightarrow> 'a process_scheme \<Rightarrow> bool" where
  "waits eax ebx s \<longleftrightarrow> eax = 3 \<and> (ebx = 0 \<or> descriptor_op_ptr (fd_at (sint ebx) s) \<in> {term_table, rtc_table})"

lemma descriptors_ok_cong: "proc_view t = proc_view s \<Longrightarrow> descriptors_ok s \<Longrightarrow> descriptors_ok t"
  using proc_viewD [of t s] by (simp add: descriptors_ok_def fds_ok_def)

lemma descriptors_ok_message:
  assumes "descriptors_ok s"
  shows "descriptors_ok (put_string cs s)" "descriptors_ok (s\<lparr>mem := m\<rparr>)" "descriptors_ok (cli s)" "descriptors_ok (sti s)"
  using assms descriptors_ok_cong [OF put_string_proc_view] descriptors_ok_cong [OF mem_proc_view]
    descriptors_ok_cong [of "cli s" s] descriptors_ok_cong [of "sti s" s]
  by (auto simp: proc_view_def cli_def sti_def)

lemma fd_at_set_fd:
  assumes "fds_ok s" "0 \<le> i" "i < 8" "0 \<le> j" "j < 8"
  shows "fd_at j (set_fd (get_pcb s) (nat i) f s) = (if j = i then f (fd_at i s) else fd_at j s)"
  using assms by (auto simp: fd_at_def set_fd_def get_pcb_def fds_ok_def nth_list_update)

lemma descriptors_ok_set_fd:
  assumes "descriptors_ok s" "0 \<le> i" "i < 8"
    and "i \<noteq> 0 \<Longrightarrow> flags (f (fd_at i s)) \<noteq> 0 \<Longrightarrow> descriptor_op_ptr (f (fd_at i s)) \<in> device_tables"
  shows "descriptors_ok (set_fd (get_pcb s) (nat i) f s)"
proof -
  have ok: "fds_ok s" using assms(1) by (simp add: descriptors_ok_def)
  have "fd_at j (set_fd (get_pcb s) (nat i) f s) = (if j = i then f (fd_at i s) else fd_at j s)" if "0 \<le> j" "j < 8" for j
    by (rule fd_at_set_fd [OF ok assms(2,3) that])
  moreover have "fds_ok (set_fd (get_pcb s) (nat i) f s)" using ok by (simp add: fds_ok_def set_fd_def get_pcb_def)
  ultimately show ?thesis using assms by (auto simp: descriptors_ok_def)
qed

section \<open>The calls\<close>

lemma terminal_write_proc_view:
  fixes s :: "'a process_scheme"
  shows "proc_view (snd (terminal_write fd buf n s)) = proc_view s"
proof -
  let ?t = "snd (terminal_write fd buf n s)"
  have "tty.more ?t = tty.more s" by (simp add: terminal_write_def write_from_tty_more)
  then show ?thesis by (cases s; cases ?t) (simp add: proc_view_def)
qed

lemma table_write_returns:
  assumes "tbl \<in> device_tables" and "descriptors_ok s"
  shows "\<exists>v t. table_write tbl fd buf n s = Some (v, t) \<and> descriptors_ok t"
proof -
  have "proc_view (snd (rtc_write fd buf n s)) = proc_view s" by (simp add: rtc_write_def Let_def outb_def proc_view_def)
  then have "descriptors_ok (snd (rtc_write fd buf n s))" "descriptors_ok (snd (terminal_write fd buf n s))"
    using assms(2) terminal_write_proc_view [of fd buf n s] descriptors_ok_cong by blast+
  then show ?thesis using assms by (auto simp: device_tables_def directory_write_def file_write_def) (metis prod.collapse)+
qed

lemma read_data_proc_view: "proc_view (snd (read_data ino off buf n s)) = proc_view s"
  using read_data_kernel_view [of ino off buf n s] kernel_viewD(1) by blast

lemma file_read_returns:
  fixes s :: "'a process_scheme"
  assumes "descriptors_ok s" "0 < fd" "fd < 8"
  shows "\<exists>v t. file_read fd buf n s = Some (v, t) \<and> descriptors_ok t"
proof (cases "buf = 0 \<or> flags (fd_at fd s) \<noteq> 1 \<or> descriptor_op_ptr (fd_at fd s) = NULL")
  case True
  then show ?thesis using assms by (auto simp: file_read_def Let_def descriptors_ok_message)
next
  case False
  let ?d = "fd_at fd s"
  let ?sz = "file_size s (mem s) (inode_num ?d)"
  obtain k t where rd: "(if n > sint ?sz then read_data (inode_num ?d) (file_pos ?d) buf ?sz s
      else read_data (inode_num ?d) (file_pos ?d) buf (word_of_int n) s) = (k, t)" by fastforce
  then have view: "proc_view t = proc_view s" using read_data_proc_view by (metis snd_conv)
  then have t: "descriptors_ok t" "get_pcb t = get_pcb s" "fd_at fd t = ?d" using assms(1) descriptors_ok_cong proc_viewD [OF view] by blast+
  have "descriptor_op_ptr ?d \<in> device_tables" using assms False by (auto simp: descriptors_ok_def)
  then show ?thesis
    using False assms(2,3) file_read_step [OF less_imp_le [OF assms(2)] assms(3) _ _ _ rd] descriptors_ok_set_fd [OF t(1) less_imp_le [OF assms(2)] assms(3)] t(2,3) by (auto simp: Let_def)
qed

lemma directory_read_returns:
  fixes s :: "'a process_scheme"
  assumes "descriptors_ok s" "0 < fd" "fd < 8"
  shows "\<exists>v t. directory_read l fd buf n s = Some (v, t) \<and> descriptors_ok t"
proof -
  obtain r t where rd: "read_dentry_by_index (file_pos (fd_at fd s)) (l_dentry l) s = (r, t)" by fastforce
  then have t: "descriptors_ok t" using assms(1) by (auto simp: read_dentry_by_index_def descriptors_ok_message split: if_splits)
  let ?u = "t\<lparr>mem := strncpy (mem t) buf (l_dentry l) NAME_SIZE\<rparr>"
  have "descriptors_ok ?u" using t by (rule descriptors_ok_message)
  moreover from this have "descriptor_op_ptr (fd_at fd ?u) \<in> device_tables" if "flags (fd_at fd ?u) \<noteq> 0" using that assms(2,3) by (simp add: descriptors_ok_def)
  ultimately have "descriptors_ok (set_fd (get_pcb ?u) (nat fd) (\<lambda>d. d\<lparr>file_pos := file_pos d + 1\<rparr>) ?u)"
    using assms(2,3) by (intro descriptors_ok_set_fd) simp_all
  then show ?thesis using assms(2,3) rd t by (simp add: directory_read_def Let_def)
qed

lemma sys_read_returns:
  fixes s :: "'a process_scheme"
  assumes ok: "descriptors_ok s" and "fd \<noteq> 0" "descriptor_op_ptr (fd_at fd s) \<notin> {term_table, rtc_table}"
  shows "\<exists>v t. sys_read l keys ticks fd buf n s = Some (v, t) \<and> descriptors_ok t"
proof (cases "flags (fd_at fd s) = OUT_OF_USE \<or> buf = 0 \<or> fd < 0 \<or> fd > 7 \<or> fd = 1")
  case True
  then show ?thesis using ok unfolding sys_read_def by (auto simp: descriptors_ok_message)
next
  case False
  then have "descriptor_op_ptr (fd_at fd s) = directory_table \<or> descriptor_op_ptr (fd_at fd s) = file_table"
    using ok assms(2,3) by (auto simp: descriptors_ok_def device_tables_def)
  moreover have "0 < fd" using False assms(2) by linarith
  ultimately show ?thesis
    using False assms(2) file_read_returns [OF ok, of fd buf n] directory_read_returns [OF ok, of fd l buf n] by (auto simp: sys_read_def)
qed

lemma sys_write_returns:
  fixes s :: "'a process_scheme"
  assumes ok: "descriptors_ok s"
  shows "\<exists>v t. sys_write fd buf n s = Some (v, t) \<and> descriptors_ok t"
proof (cases "flags (fd_at fd s) = OUT_OF_USE \<or> fd = 0 \<or> buf = 0 \<or> fd < 0 \<or> fd > 7")
  case True
  then show ?thesis using ok unfolding sys_write_def by (auto simp: descriptors_ok_message)
next
  case False
  then have "descriptor_op_ptr (fd_at fd s) \<in> device_tables" using ok by (simp add: descriptors_ok_def)
  then show ?thesis using False table_write_returns [OF _ ok] by (simp add: sys_write_def)
qed

lemma sys_close_returns:
  fixes s :: "'a process_scheme"
  assumes ok: "descriptors_ok s"
  shows "\<exists>v t. sys_close fd s = Some (v, t) \<and> descriptors_ok t"
proof (cases "fd = 0")
  case True
  have "descriptors_ok (set_fd (get_pcb s) (nat 0) (\<lambda>d. d\<lparr>descriptor_op_ptr := term_table\<rparr>) s)"
    using ok by (intro descriptors_ok_set_fd) (simp_all add: device_tables_def)
  then show ?thesis using True by (simp add: sys_close_def Let_def descriptors_ok_message)
next
  case nz: False
  show ?thesis
  proof (cases "fd < 0 \<or> fd > 7 \<or> flags (fd_at fd s) = OUT_OF_USE \<or> fd = 1")
    case True
    then show ?thesis using nz ok by (auto simp: sys_close_def Let_def descriptors_ok_message)
  next
    case False
    let ?f = "\<lambda>d. d\<lparr>flags := OUT_OF_USE\<rparr>"
    let ?t = "set_fd (get_pcb s) (nat fd) ?f s"
    have t: "descriptors_ok ?t" using False by (intro descriptors_ok_set_fd [OF ok]) simp_all
    have "fd_at fd ?t = ?f (fd_at fd s)"
      using False ok fd_at_set_fd [of s fd fd ?f] by (simp add: descriptors_ok_def)
    moreover have "descriptor_op_ptr (fd_at fd s) \<in> device_tables" using False nz ok by (simp add: descriptors_ok_def)
    ultimately have "descriptor_op_ptr (fd_at fd ?t) \<in> device_tables" by simp
    then have "table_close (descriptor_op_ptr (fd_at fd ?t)) fd ?t = Some (0, ?t)"
      by (auto simp: device_tables_def terminal_close_def rtc_close_def directory_close_def file_close_def)
    then show ?thesis using False nz t by (simp add: sys_close_def Let_def)
  qed
qed

lemma sys_open_returns:
  fixes s :: "'a process_scheme"
  assumes ok: "descriptors_ok s" and name: "filename \<noteq> 0 \<Longrightarrow> \<exists>cs. cstring (mem s) filename cs"
  shows "\<exists>v t. sys_open l filename s = Some (v, t) \<and> descriptors_ok t"
proof (cases "mem s filename = 0 \<or> filename = 0")
  case True
  then show ?thesis using ok by (auto simp: sys_open_def descriptors_ok_message)
next
  case False
  obtain cs where "cstring (mem s) filename cs" using False name by blast
  then have "\<exists>r t. read_dentry_by_name filename (l_dentry l) s = Some (r, t)"
    using strlen_cstring by (auto simp: read_dentry_by_name_def Let_def split: option.split)
  then obtain r t where rd: "read_dentry_by_name filename (l_dentry l) s = Some (r, t)" by blast
  then have t: "descriptors_ok t" using ok descriptors_ok_cong kernel_viewD(1) [OF read_dentry_kernel_view [OF rd]] by blast
  show ?thesis
  proof (cases "r = -1 \<or> table_of_type (dentry_type (mem t) (l_dentry l)) (dentry_inode_num (mem t) (l_dentry l)) = None \<or> free_fd (this_pcb t) = None")
    case True
    then show ?thesis using False rd t by (auto simp: sys_open_def descriptors_ok_message split: option.splits)
  next
    case ready: False
    then obtain tbl ino pos loc where tt: "table_of_type (dentry_type (mem t) (l_dentry l)) (dentry_inode_num (mem t) (l_dentry l)) = Some (tbl, ino, pos)"
      and free: "free_fd (this_pcb t) = Some loc" by auto
    have tbl: "tbl \<in> device_tables" using tt by (auto simp: table_of_type_def device_tables_def split: if_splits)
    have fds: "fds_ok t" "loc < 8" using t free by (auto simp: descriptors_ok_def fds_ok_def free_fd_Some)
    let ?u = "populate_pcb (get_pcb t) loc 1 ino tbl pos t"
    have at: "fd_at (int j) ?u = (if j = loc then \<lparr>descriptor_op_ptr = tbl, inode_num = ino, file_pos = pos, flags = 1\<rparr> else fd_at (int j) t)"
      if "j < 8" for j using fd_at_populate [OF fds that] .
    have "fds_ok ?u" using fds.claim_ok [OF fds] .
    moreover have "flags (fd_at j ?u) \<noteq> 0 \<longrightarrow> descriptor_op_ptr (fd_at j ?u) \<in> device_tables" if "j \<in> {1..<8}" for j
      using at [of "nat j"] that t tbl by (simp add: descriptors_ok_def nat_less_iff)
    ultimately have u: "descriptors_ok ?u" by (simp add: descriptors_ok_def)
    obtain q w where w: "table_open l tbl filename ?u = Some (q, w)" using table_of_type_opens [OF tt] by blast
    have "descriptors_ok w" using u descriptors_ok_cong table_open_proc_view [OF w] by blast
    then show ?thesis using False ready rd tt free w at [OF fds(2)] by (simp add: sys_open_def)
  qed
qed

section \<open>Every call\<close>

lemma call_returns:
  fixes s :: "'a process_scheme"
  assumes "descriptors_ok s" and "eax \<notin> {1, 2}" and "\<not> waits eax ebx s"
    and "eax = 5 \<Longrightarrow> ebx \<noteq> 0 \<Longrightarrow> \<exists>cs. cstring (mem s) ebx cs"
  shows "\<exists>v t. sys_call_interrupt l keys ticks eax ebx ecx edx s = Some (Return v t) \<and> descriptors_ok t"
proof -
  note msg = descriptors_ok_message
  consider "sint eax > 8 \<or> sint eax < 1" | "eax = 3" | "eax = 4" | "eax = 5" | "eax = 6" | "eax = 7" | "eax = 8"
  proof (cases "sint eax > 8 \<or> sint eax < 1")
    case False
    then have "sint eax \<in> {1, 2, 3, 4, 5, 6, 7, 8}" by auto
    then have "(word_of_int (sint eax) :: u32) \<in> word_of_int ` {1, 2, 3, 4, 5, 6, 7, 8 :: int}" by (rule imageI)
    then have "eax \<in> {1, 2, 3, 4, 5, 6, 7, 8}" by simp
    then show ?thesis using assms(2) that(2-) by blast
  qed (rule that(1))
  then show ?thesis
  proof cases
    case 1
    then show ?thesis using assms(1) by (simp add: sys_call_interrupt_def)
  next
    case 2
    then have "sint ebx \<noteq> 0" "descriptor_op_ptr (fd_at (sint ebx) s) \<notin> {term_table, rtc_table}"
      using assms(3) signed_word_eqI [of ebx 0] by (auto simp: waits_def)
    from sys_read_returns [OF assms(1) this, of l keys ticks ecx "sint edx"] 2 show ?thesis
      by (auto simp: sys_call_interrupt_def returning_def msg)
  next
    case 3
    with sys_write_returns [OF assms(1), of "sint ebx" ecx "sint edx"] show ?thesis by (auto simp: sys_call_interrupt_def returning_def msg)
  next
    case 4
    with sys_open_returns [of s ebx l] assms(1,4) show ?thesis by (auto simp: sys_call_interrupt_def returning_def msg)
  next
    case 5
    with sys_close_returns [OF assms(1), of "sint ebx"] show ?thesis by (auto simp: sys_call_interrupt_def returning_def msg)
  next
    case 6
    then show ?thesis using assms(1) by (simp add: sys_call_interrupt_def getargs_def msg)
  next
    case 7
    have "proc_view (snd (vidmap ebx s)) = proc_view s" by (simp add: vidmap_def proc_view_def Let_def)
    then have "descriptors_ok (snd (vidmap ebx s))" using assms(1) by (rule descriptors_ok_cong)
    then show ?thesis using 7 by (cases "vidmap ebx s") (simp add: sys_call_interrupt_def msg)
  qed
qed

section \<open>Properties\<close>


lemma process_example_descriptors: "descriptors_ok process_example"
proof -
  have "list_all (\<lambda>d. flags d \<noteq> 0 \<longrightarrow> descriptor_op_ptr d \<in> device_tables) (file_descriptor_array (this_pcb process_example))"
    by (simp add: process_example_sel pcb_example_def stdio_fd_def closed_fd_def device_tables_def)
  moreover have len: "length (file_descriptor_array (this_pcb process_example)) = 8" by (simp add: process_example_sel pcb_example_def)
  ultimately have all: "flags (file_descriptor_array (this_pcb process_example) ! n) \<noteq> 0
      \<longrightarrow> descriptor_op_ptr (file_descriptor_array (this_pcb process_example) ! n) \<in> device_tables" if "n < 8" for n
    using that unfolding list_all_length by metis
  show ?thesis unfolding descriptors_ok_def fds_ok_def
  proof (intro conjI ballI)
    fix j :: int assume "j \<in> {1..<8}"
    then show "flags (fd_at j process_example) \<noteq> 0 \<longrightarrow> descriptor_op_ptr (fd_at j process_example) \<in> device_tables"
      using all [of "nat j"] by (simp only: fd_at_def) auto
  qed (use len in \<open>simp_all add: process_example_sel\<close>)
qed


end
