(* ===== verification/Kernel_Types.thy ===== *)
theory Kernel_Types
  imports Call_Returns Schedule
begin

text \<open>
  The types of the kernel's data, as an invariant of the whole kernel: every array has the size it is declared with, every index and process number is in range, and the
  open descriptors of every running process have an operation table. Interrupts, system calls and the programs keep it, in any order. The
  consequence is that no system call goes through a bad pointer. Descriptor 0 is left out: starting a program leaves its table
  pointer wild, and no call follows it, because reading puts the terminal's table back first, and the other calls refuse the number.
\<close>

section \<open>The invariant\<close>

definition good_fds :: "file_descriptor_t list \<Rightarrow> bool" where
  "good_fds ds \<longleftrightarrow> (\<forall>j \<in> {1..<8}. flags (ds ! j) \<noteq> 0 \<longrightarrow> descriptor_op_ptr (ds ! j) \<in> device_tables)"

definition term_typed :: "terminal_t \<Rightarrow> bool" where
  "term_typed t \<longleftrightarrow> length (keyboard_buffer t) = 128 \<and> 0 \<le> process_num t \<and> process_num t < 6"

definition kernel_typed :: "'a process_scheme \<Rightarrow> bool" where
  "kernel_typed s \<longleftrightarrow>
     length (terminal s) = 3 \<and> list_all term_typed (terminal s)
     \<and> 0 \<le> active_terminal s \<and> active_terminal s < 3 \<and> 0 \<le> turn s \<and> turn s < 3
     \<and> 0 \<le> current_running_process_count (active_schedule s) \<and> length (pDirectory s) = 1024
     \<and> length (pcb_occupants s) = 6 \<and> set (pcb_occupants s) \<subseteq> {0, -1}
     \<and> length (process_previous s) = 6 \<and> set (process_previous s) \<subseteq> {0..<6}
     \<and> (\<forall>p. length (file_descriptor_array (pcbs s p)) = 8)
     \<and> (\<forall>pid < 6. pcb_occupants s ! pid \<noteq> 0 \<longrightarrow> good_fds (file_descriptor_array (pcbs s (pcb_addr (int pid)))))"

text \<open>What the invariant depends on; most operations leave it alone.\<close>

definition term_shape :: "terminal_t \<Rightarrow> nat \<times> int" where
  "term_shape t = (length (keyboard_buffer t), process_num t)"

definition typed_view :: "'a process_scheme \<Rightarrow> (u32 \<Rightarrow> pcb_t) \<times> int list \<times> int list \<times> (nat \<times> int) list \<times> int \<times> sched_t \<times> nat" where
  "typed_view s = (pcbs s, pcb_occupants s, process_previous s, map term_shape (terminal s), active_terminal s, active_schedule s, length (pDirectory s))"

lemma kernel_typed_view:
  assumes "typed_view t = typed_view s"
  shows "kernel_typed t = kernel_typed s"
proof -
  have m: "map term_shape (terminal t) = map term_shape (terminal s)" using assms by (simp add: typed_view_def)
  have l: "list_all term_typed ts \<longleftrightarrow> list_all (\<lambda>(n, p). n = 128 \<and> 0 \<le> p \<and> p < 6) (map term_shape ts)" for ts
    by (simp add: list.pred_map comp_def term_shape_def term_typed_def [abs_def])
  show ?thesis using assms m map_eq_imp_length_eq [OF m] unfolding kernel_typed_def l by (simp add: typed_view_def)
qed

lemma kernel_view_typed_view: "kernel_view t = kernel_view s \<Longrightarrow> typed_view t = typed_view s"
  using kernel_viewD [of t s] proc_viewD [of t s] by (simp add: typed_view_def)

named_theorems typed_simps

section \<open>What leaves it alone\<close>

lemma typed_fields [typed_simps]:
  "typed_view (s\<lparr>mem := m\<rparr>) = typed_view s" "typed_view (s\<lparr>interrupts := b\<rparr>) = typed_view s" "typed_view (s\<lparr>port_in := q\<rparr>) = typed_view s"
  "typed_view (s\<lparr>esp := e\<rparr>) = typed_view s" "typed_view (s\<lparr>ebp := e\<rparr>) = typed_view s" "typed_view (s\<lparr>tss_esp0 := e\<rparr>) = typed_view s"
  "typed_view (s\<lparr>is_rtc_interrupt_flag := f\<rparr>) = typed_view s" "typed_view (s\<lparr>is_visible := f\<rparr>) = typed_view s"
  "typed_view (s\<lparr>master_bit_mask := k\<rparr>) = typed_view s" "typed_view (s\<lparr>slave_bit_mask := k\<rparr>) = typed_view s"
  "typed_view (s\<lparr>screen_x := x\<rparr>) = typed_view s" "typed_view (s\<lparr>screen_y := x\<rparr>) = typed_view s"
  "typed_view (s\<lparr>left_right_cursor_counter := x\<rparr>) = typed_view s" "typed_view (s\<lparr>left_right_cursor_offsetter := x\<rparr>) = typed_view s"
  "typed_view (s\<lparr>SHIFT_STATUS := x\<rparr>) = typed_view s" "typed_view (s\<lparr>CTRL_STATUS := x\<rparr>) = typed_view s"
  "typed_view (s\<lparr>ALT_STATUS := x\<rparr>) = typed_view s" "typed_view (s\<lparr>CAPS_STATUS := x\<rparr>) = typed_view s"
  by (simp_all add: typed_view_def)

lemma typed_console [typed_simps]:
  "typed_view (cli s) = typed_view s" "typed_view (sti s) = typed_view s" "typed_view (outb d p s) = typed_view s" "typed_view (poke a b s) = typed_view s"
  "typed_view (update_cursor x y s) = typed_view s" "typed_view (putc c s) = typed_view s" "typed_view (put_string cs s) = typed_view s"
  using kernel_view_typed_view [OF putc_kernel_view] kernel_view_typed_view [OF kernel_view_frame(1)]
  by (simp_all add: typed_view_def cli_def sti_def outb_def poke_def update_cursor_def Let_def)

lemma typed_clear [typed_simps]: "typed_view (clear s) = typed_view s"
  by (simp add: clear_def typed_simps)

lemma typed_irq [typed_simps]:
  "typed_view (enable_irq n s) = typed_view s" "typed_view (disable_irq n s) = typed_view s" "typed_view (send_eoi n s) = typed_view s"
  by (simp_all add: enable_irq_def disable_irq_def send_eoi_def Let_def typed_simps)

lemma typed_rtc [typed_simps]:
  "typed_view (rtc_handle_interrupt s) = typed_view s" "typed_view (snd (rtc_write fd buf n s)) = typed_view s" "typed_view (snd (rtc_open a f s)) = typed_view s"
  by (simp_all add: rtc_handle_interrupt_def rtc_write_def rtc_open_def Let_def typed_simps)

lemma typed_term_upd:
  assumes "\<And>t. term_shape (f t) = term_shape t"
  shows "typed_view (term_upd i f s) = typed_view s"
proof -
  have "map term_shape ((terminal s)[k := f (terminal s ! k)]) = map term_shape (terminal s)" for k
    using assms list_update_id [of "map term_shape (terminal s)" k] by (cases "k < length (terminal s)") (simp_all add: map_update list_update_beyond)
  then show ?thesis by (simp add: typed_view_def term_upd_def)
qed

lemma typed_putc_background [typed_simps]: "typed_view (active_terminal_putc i c s) = typed_view s"
  unfolding active_terminal_putc_def active_terminal_handle_enter_def active_terminal_handle_tab_def active_terminal_handle_backspace_def
    active_terminal_handle_normal_char_def active_terminal_scroll_up_def put_saved_def Let_def
  by (simp add: typed_term_upd term_shape_def typed_simps)

lemma typed_write [typed_simps]:
  fixes s :: "'a process_scheme"
  shows "typed_view (terminal_emit c s) = typed_view s" "typed_view (snd (terminal_write_from fetch n s)) = typed_view s" "typed_view (snd (terminal_write fd buf n s)) = typed_view s"
proof -
  show e: "typed_view (terminal_emit c s) = typed_view s" for c and s :: "'a process_scheme" by (simp add: terminal_emit_def typed_simps)
  have "typed_view (fold (\<lambda>i s. terminal_emit (fetch i s) s) is u) = typed_view u" for "is" :: "nat list" and u :: "'a process_scheme" and fetch
    by (induction "is" arbitrary: u) (simp_all add: e)
  then show w: "typed_view (snd (terminal_write_from fetch n s)) = typed_view s" for fetch by (simp add: terminal_write_from_def typed_simps)
  show "typed_view (snd (terminal_write fd buf n s)) = typed_view s" by (simp add: terminal_write_def w)
qed

lemma typed_switch_page [typed_simps]: "typed_view (switch_user_page pid s) = typed_view s"
proof -
  have "length (pDirectory (switch_user_page pid s)) = length (pDirectory s)"
    by (cases "bit (pDirectory s ! 32) 0") (simp_all add: switch_user_page_def map_user_page_def Let_def)
  then show ?thesis using proc_viewD [OF switch_user_page_fs(4) [where s = s and pid = pid]] by (simp add: typed_view_def switch_user_page_fs)
qed

lemma typed_save_stack [typed_simps]: "typed_view (save_stack i s) = typed_view s"
  by (simp add: save_stack_def typed_term_upd term_shape_def)

lemma typed_copy_line [typed_simps]:
  fixes s :: "'a process_scheme"
  shows "typed_view (snd (copy_line buf s)) = typed_view s"
proof -
  have f: "typed_view (fold (\<lambda>i s. poke (a i) (b i s) s) is u) = typed_view u" for a b and "is" :: "nat list" and u :: "'a process_scheme"
    by (induction "is" arbitrary: u) (simp_all add: typed_simps)
  show ?thesis by (simp add: copy_line_def Let_def typed_term_upd term_shape_def typed_simps f)
qed

lemma typed_read_data [typed_simps]: "typed_view (snd (read_data ino off buf n s)) = typed_view s"
  by (rule kernel_view_typed_view [OF read_data_kernel_view])

lemmas kernel_typed_simps = typed_fields [THEN kernel_typed_view] typed_console [THEN kernel_typed_view] typed_clear [THEN kernel_typed_view]
  typed_irq [THEN kernel_typed_view] typed_rtc [THEN kernel_typed_view] typed_write [THEN kernel_typed_view] typed_switch_page [THEN kernel_typed_view]
  typed_save_stack [THEN kernel_typed_view] typed_copy_line [THEN kernel_typed_view] typed_read_data [THEN kernel_typed_view]

section \<open>The keyboard\<close>

lemma typed_upd_active: "(\<And>t. term_shape (f t) = term_shape t) \<Longrightarrow> typed_view (upd_active f s) = typed_view s"
  by (simp add: upd_active_def typed_term_upd)

lemma typed_keys [typed_simps]:
  "typed_view (key_enter s) = typed_view s" "typed_view (key_backspace s) = typed_view s" "typed_view (key_left s) = typed_view s"
  "typed_view (key_right s) = typed_view s" "typed_view (key_char c s) = typed_view s"
  by (simp_all add: key_enter_def key_backspace_def key_left_def key_right_def key_char_def Let_def typed_upd_active term_shape_def typed_simps)

lemma typed_switch_term: "typed_view (save_and_switch_term n s) = typed_view (s\<lparr>active_terminal := n\<rparr>)"
proof -
  have a: "typed_view t = typed_view u \<Longrightarrow> typed_view (t\<lparr>active_terminal := n\<rparr>) = typed_view (u\<lparr>active_terminal := n\<rparr>)" for t u :: "'a process_scheme"
    by (simp add: typed_view_def)
  show ?thesis
    by (cases "n = active_terminal s") (simp_all add: save_and_switch_term_def Let_def, rule a, simp add: typed_term_upd term_shape_def typed_simps)
qed

lemma kernel_typed_active:
  assumes "kernel_typed s" and "typed_view t = typed_view (s\<lparr>active_terminal := n\<rparr>)" and "0 \<le> n" "n < 3"
  shows "kernel_typed t"
  using assms(1,3,4) kernel_typed_view [OF assms(2)] by (simp add: kernel_typed_def)

lemma kernel_typed_key_alt: "kernel_typed s \<Longrightarrow> kernel_typed (key_alt c s)"
proof -
  assume s: "kernel_typed s"
  have "kernel_typed ((save_and_switch_term n (s\<lparr>is_visible := n\<rparr>))\<lparr>active_terminal := n\<rparr>)" if "n \<in> {0, 1, 2}" for n
  proof (rule kernel_typed_active [OF s, of _ n])
    have "typed_view (save_and_switch_term n (s\<lparr>is_visible := n\<rparr>)) = typed_view (s\<lparr>active_terminal := n\<rparr>)"
      unfolding typed_switch_term by (simp add: typed_view_def)
    then show "typed_view ((save_and_switch_term n (s\<lparr>is_visible := n\<rparr>))\<lparr>active_terminal := n\<rparr>) = typed_view (s\<lparr>active_terminal := n\<rparr>)"
      by (simp add: typed_view_def)
  qed (use that in auto)
  then show ?thesis using s by (simp add: key_alt_def)
qed

lemma kernel_typed_keyboard: "kernel_typed s \<Longrightarrow> kernel_typed (keyboard_handler s)"
proof -
  note keys = typed_keys [THEN kernel_typed_view]
  have d: "kernel_typed (key_default c u)" if "kernel_typed u" for c and u :: "'a process_scheme"
    using kernel_typed_key_alt [OF that, of c] by (simp add: key_default_def Let_def keys kernel_typed_simps)
  have "kernel_typed (handle_scancode c u)" if "kernel_typed u" for c and u :: "'a process_scheme"
    using that d [OF that, of c] by (simp add: handle_scancode_def keys kernel_typed_simps)
  moreover assume "kernel_typed s"
  ultimately show ?thesis by (simp add: keyboard_handler_def Let_def kernel_typed_simps)
qed

lemma list_all_update_same: "list_all P xs \<Longrightarrow> (\<And>x. P x \<Longrightarrow> P (f x)) \<Longrightarrow> list_all P (xs[k := f (xs ! k)])"
  by (cases "k < length xs") (auto simp: list_all_length nth_list_update list_update_beyond)

lemma kernel_typed_term_upd:
  assumes "kernel_typed s" and "\<And>t. term_typed t \<Longrightarrow> term_typed (f t)"
  shows "kernel_typed (term_upd i f s)"
  using assms(1) list_all_update_same [of term_typed "terminal s" f, OF _ assms(2)] by (simp add: kernel_typed_def term_upd_def)

lemma kernel_typed_terminal_open: "kernel_typed s \<Longrightarrow> kernel_typed (snd (terminal_open f s))"
proof -
  have "kernel_typed (terminal_open_one j u)" if "kernel_typed u" for j and u :: "'a process_scheme"
    unfolding terminal_open_one_def Let_def
    by (intro kernel_typed_term_upd) (use that in \<open>auto simp: kernel_typed_simps term_typed_def intro!: kernel_typed_term_upd\<close>)
  moreover assume "kernel_typed s"
  ultimately show ?thesis by (simp add: terminal_open_def upt_rec)
qed

section \<open>Descriptors\<close>

lemma kernel_typed_set_fd:
  assumes s: "kernel_typed s"
    and f: "\<And>d. i \<noteq> 0 \<Longrightarrow> flags d \<noteq> 0 \<longrightarrow> descriptor_op_ptr d \<in> device_tables \<Longrightarrow> flags (f d) \<noteq> 0 \<longrightarrow> descriptor_op_ptr (f d) \<in> device_tables"
  shows "kernel_typed (set_fd p i f s)"
proof -
  let ?ds = "\<lambda>q. file_descriptor_array (pcbs s q)"
  have n: "file_descriptor_array (pcbs (set_fd p i f s) q) = (if q = p then (?ds p)[i := f (?ds p ! i)] else ?ds q)" for q by (simp add: set_fd_def)
  have "good_fds ((?ds p)[i := f (?ds p ! i)])" if "good_fds (?ds p)"
    unfolding good_fds_def
  proof
    fix j :: nat assume j: "j \<in> {1..<8}"
    have "length (?ds p) = 8" using s by (simp add: kernel_typed_def)
    then show "flags ((?ds p)[i := f (?ds p ! i)] ! j) \<noteq> 0 \<longrightarrow> descriptor_op_ptr ((?ds p)[i := f (?ds p ! i)] ! j) \<in> device_tables"
      using that j f [of "?ds p ! j"] by (cases "i = j") (auto simp: good_fds_def)
  qed
  then show ?thesis using s unfolding kernel_typed_def n by (auto simp: set_fd_def)
qed

lemma kernel_typed_descriptors:
  assumes "kernel_typed s" and "pid < 6" "pcb_occupants s ! pid \<noteq> 0" "get_pcb s = pcb_addr (int pid)"
  shows "descriptors_ok s"
proof -
  have "good_fds (file_descriptor_array (this_pcb s))" "length (file_descriptor_array (this_pcb s)) = 8" using assms by (auto simp: kernel_typed_def)
  moreover have "get_pcb s \<noteq> 0" using pcb_addr_nonzero [OF assms(2)] assms(4) by simp
  moreover have "nat j \<in> {1..<8}" if "j \<in> {1..<8}" for j :: int using that by auto
  ultimately show ?thesis by (auto simp: descriptors_ok_def fds_ok_def fd_at_def good_fds_def)
qed

section \<open>System calls on descriptors\<close>

lemma kernel_typed_wait:
  assumes "wait_line ks s = Some t" and "kernel_typed s" and "\<forall>k \<in> set ks. \<forall>u. kernel_typed u \<longrightarrow> kernel_typed (k u)"
  shows "kernel_typed t"
  using assms by (induction ks s rule: wait_line.induct) (auto split: if_splits)

lemma kernel_typed_copy: "copy_line buf s = (q, t) \<Longrightarrow> kernel_typed t = kernel_typed s"
  using typed_copy_line [THEN kernel_typed_view, of buf s] by simp

lemma kernel_typed_rtc_read: "rtc_read ticks fd buf n s = Some (r, t) \<Longrightarrow> kernel_typed s \<Longrightarrow> kernel_typed t"
proof -
  have "rtc_read_loop es u = Some (r, v) \<Longrightarrow> kernel_typed u \<Longrightarrow> kernel_typed v" for es and u v :: "'a process_scheme"
    by (induction es u rule: rtc_read_loop.induct) (auto simp: Let_def kernel_typed_simps split: if_splits)
  then show "rtc_read ticks fd buf n s = Some (r, t) \<Longrightarrow> kernel_typed s \<Longrightarrow> kernel_typed t"
    by (simp add: rtc_read_def kernel_typed_simps split: if_splits)
qed

lemma kernel_typed_file_read: "file_read fd buf n s = Some (r, t) \<Longrightarrow> kernel_typed s \<Longrightarrow> kernel_typed t"
  by (auto simp: file_read_def Let_def kernel_typed_simps split: if_splits prod.splits
      intro!: kernel_typed_set_fd dest: read_data_kernel_view_eq kernel_view_typed_view kernel_typed_view)

lemma kernel_typed_directory_read: "directory_read l fd buf n s = Some (r, t) \<Longrightarrow> kernel_typed s \<Longrightarrow> kernel_typed t"
  by (auto simp: directory_read_def read_dentry_by_index_def Let_def kernel_typed_simps split: if_splits intro!: kernel_typed_set_fd)

lemma kernel_typed_sys_read:
  assumes "sys_read l ks ticks fd buf n s = Some (r, t)" and "kernel_typed s" and "\<forall>k \<in> set ks. \<forall>u. kernel_typed u \<longrightarrow> kernel_typed (k u)"
  shows "kernel_typed t"
proof -
  let ?s = "if fd = 0 then set_fd (get_pcb s) 0 (\<lambda>d. d\<lparr>descriptor_op_ptr := term_table\<rparr>) s else s"
  have u: "kernel_typed ?s" using assms(2) by (auto intro!: kernel_typed_set_fd)
  have "kernel_typed v" if "table_read l ks ticks tbl fd buf n ?s = Some (q, v)" for tbl q v
  proof (cases tbl)
    case term_table
    then show ?thesis using that u kernel_typed_wait [OF _ u assms(3)]
      by (auto simp: terminal_read_def kernel_typed_simps split: if_splits bind_splits dest!: kernel_typed_copy)
  qed (use that u in \<open>auto dest: kernel_typed_rtc_read kernel_typed_directory_read kernel_typed_file_read\<close>)
  then show ?thesis using assms(1,2) by (auto simp: sys_read_def Let_def kernel_typed_simps split: if_splits)
qed

lemma kernel_typed_sys_write: "sys_write fd buf n s = Some (r, t) \<Longrightarrow> kernel_typed s \<Longrightarrow> kernel_typed t"
proof -
  have "table_write tbl fd buf n s = Some (q, v) \<Longrightarrow> kernel_typed s \<Longrightarrow> kernel_typed v" for tbl q v
    using typed_write(3) [THEN kernel_typed_view, of fd buf n s] typed_rtc(2) [THEN kernel_typed_view, of fd buf n s]
    by (cases tbl) (auto simp: directory_write_def file_write_def)
  then show "sys_write fd buf n s = Some (r, t) \<Longrightarrow> kernel_typed s \<Longrightarrow> kernel_typed t"
    by (auto simp: sys_write_def kernel_typed_simps split: if_splits)
qed

lemma kernel_typed_sys_close: "sys_close fd s = Some (r, t) \<Longrightarrow> kernel_typed s \<Longrightarrow> kernel_typed t"
  by (auto simp: sys_close_def Let_def kernel_typed_simps split: if_splits dest!: table_close_proc_view intro!: kernel_typed_set_fd)

lemma kernel_typed_sys_open: "sys_open l f s = Some (r, t) \<Longrightarrow> kernel_typed s \<Longrightarrow> kernel_typed t"
proof -
  assume op: "sys_open l f s = Some (r, t)" and s: "kernel_typed s"
  have open_table: "kernel_typed v" if "table_open l tbl f u = Some (q, v)" "kernel_typed u" for tbl q and u v :: "'a process_scheme"
    using that typed_rtc(3) [THEN kernel_typed_view, of "l_init_frequency l" f u] kernel_typed_terminal_open [OF that(2), of f]
    by (cases tbl) (auto simp: directory_open_def file_open_def)
  show ?thesis
  proof (cases "mem s f = 0 \<or> f = 0")
    case True
    then show ?thesis using op s by (auto simp: sys_open_def kernel_typed_simps)
  next
    case False
    then obtain q u where rd: "read_dentry_by_name f (l_dentry l) s = Some (q, u)" using op by (auto simp: sys_open_def split: bind_splits)
    have u: "kernel_typed u" using s kernel_typed_view [OF kernel_view_typed_view [OF read_dentry_kernel_view [OF rd]]] by simp
    have p: "kernel_typed (populate_pcb (get_pcb u) loc 1 ino tbl pos u)" if "tbl \<in> device_tables" for loc ino tbl pos
      using u that by (auto simp: populate_pcb_def intro!: kernel_typed_set_fd)
    have tt: "tbl \<in> device_tables" if "table_of_type ty i = Some (tbl, ino, pos)" for ty i tbl ino pos
      using that by (auto simp: table_of_type_def device_tables_def split: if_splits)
    show ?thesis using op False rd u by (auto simp: sys_open_def Let_def kernel_typed_simps split: if_splits option.splits bind_splits dest!: tt open_table [OF _ p])
  qed
qed

section \<open>Starting and ending programs\<close>

lemma kernel_typed_getargs: "kernel_typed (snd (getargs buf n s)) = kernel_typed s"
  by (simp add: getargs_def kernel_typed_simps)

lemma kernel_typed_vidmap: "kernel_typed (snd (vidmap a s)) = kernel_typed s"
proof -
  have "typed_view (snd (vidmap a s)) = typed_view s" by (simp add: vidmap_def typed_view_def Let_def)
  then show ?thesis by (rule kernel_typed_view)
qed

fun state_of :: "'s outcome \<Rightarrow> 's" where
  "state_of (Return v s) = s"
| "state_of (EnterUser e s) = s"
| "state_of (Resume a b c s) = s"

text \<open>A slot is marked as used before its control block is filled; when the program is entered, the control block is in order.\<close>

lemma start_process_pcbs:
  assumes "pid < 6" and "\<And>q. length (file_descriptor_array (pcbs s q)) = 8"
  obtains e t where "start_process l pid ino s = EnterUser e t" "good_fds (file_descriptor_array (pcbs t (pcb_addr (int pid))))"
    "\<And>q. length (file_descriptor_array (pcbs t q)) = 8" "\<And>q. q \<noteq> pcb_addr (int pid) \<Longrightarrow> pcbs t q = pcbs s q"
    "typed_view (t\<lparr>pcbs := pcbs s\<rparr>) = typed_view s"
proof -
  let ?p = "pcb_addr (int pid)" and ?u = "switch_user_page (int pid) s"
  let ?v = "snd (read_data ino 0 PROGRAM_IMAGE_OFFSET (file_size ?u (mem ?u) ino) ?u)"
  have v: "typed_view ?v = typed_view s" by (simp add: typed_simps)
  then have pv: "pcbs ?v = pcbs s" by (simp add: typed_view_def)
  let ?b = "(pcbs s ?p)\<lparr>file_descriptor_array := fresh_fds, pcb_process_num := word_of_nat pid\<rparr>"
  have i: "init_pcb ?p (word_of_nat pid) ?v = (0, ?v\<lparr>pcbs := (pcbs s)(?p := ?b)\<rparr>)"
    using init_pcb_fresh [OF pcb_addr_nonzero [OF assms(1)], of ?v] assms(2) unfolding pv by simp
  define w where "w = snd (read_data ino 24 (l_enter l) 4 (?v\<lparr>pcbs := (pcbs s)(?p := ?b\<lparr>arguments := read_bytes (mem ?v) (l_args l) 32\<rparr>), mem := store32 (mem ?v) (l_enter l) 0\<rparr>))"
  let ?w = "?v\<lparr>pcbs := (pcbs s)(?p := ?b\<lparr>arguments := read_bytes (mem ?v) (l_args l) 32\<rparr>)\<rparr>"
  have w: "typed_view w = typed_view ?w" unfolding w_def by (simp add: typed_simps)
  let ?t = "set_fd ?p 0 (\<lambda>d. d\<lparr>descriptor_op_ptr := Wild (l_ring3_esp l), inode_num := l_ring3_esp l\<rparr>)
      (sti (w\<lparr>tss_esp0 := kernel_stack_top (int pid), pcbs := (pcbs w)(?p := (pcbs w ?p)\<lparr>pcb_esp := esp w, pcb_ebp := ebp w\<rparr>)\<rparr>))"
  have pw: "pcbs w = (pcbs s)(?p := ?b\<lparr>arguments := read_bytes (mem ?v) (l_args l) 32\<rparr>)" using w by (simp add: typed_view_def)
  have "\<exists>e. start_process l pid ino s = EnterUser e ?t" unfolding start_process_def Let_def i prod.case by (simp add: w_def go_to_ring_three_def)
  then obtain e where "start_process l pid ino s = EnterUser e ?t" by blast
  moreover have "good_fds (file_descriptor_array (pcbs ?t ?p))" "length (file_descriptor_array (pcbs ?t q)) = 8" "q \<noteq> ?p \<Longrightarrow> pcbs ?t q = pcbs s q" for q
    using assms(2) pw by (auto simp: set_fd_def sti_def good_fds_def fresh_fds_def stdio_fd_def closed_fd_def device_tables_def nth_Cons split: nat.splits)
  moreover have "typed_view (?t\<lparr>pcbs := pcbs s\<rparr>) = typed_view s" using w v by (simp add: typed_view_def set_fd_def sti_def)
  ultimately show ?thesis by (rule that)
qed

lemma pcb_addr_inj: "p < 6 \<Longrightarrow> q < 6 \<Longrightarrow> pcb_addr (int p) = pcb_addr (int q) \<Longrightarrow> p = q"
proof -
  assume "p < 6" "q < 6" and e: "pcb_addr (int p) = pcb_addr (int q)"
  then have "p \<in> {0, 1, 2, 3, 4, 5}" "q \<in> {0, 1, 2, 3, 4, 5}" by auto
  with e show "p = q" by (auto simp: pcb_addr_def)
qed

lemma kernel_typed_start:
  assumes s: "kernel_typed s" and f: "free_pid s = Some pid"
  shows "kernel_typed (state_of (start_process l pid ino (claim_pid pid s)))"
proof -
  let ?s = "claim_pid pid s"
  have pid: "pid < 6" using scan_Some [OF f [unfolded free_pid_def]] by simp
  have len: "length (file_descriptor_array (pcbs ?s q)) = 8" for q using s by (simp add: claim_pid_def Let_def term_upd_def kernel_typed_def)
  obtain e t where t: "start_process l pid ino ?s = EnterUser e t" "good_fds (file_descriptor_array (pcbs t (pcb_addr (int pid))))"
    "\<And>q. length (file_descriptor_array (pcbs t q)) = 8" "\<And>q. q \<noteq> pcb_addr (int pid) \<Longrightarrow> pcbs t q = pcbs ?s q"
    "typed_view (t\<lparr>pcbs := pcbs ?s\<rparr>) = typed_view ?s"
    by (rule start_process_pcbs [OF pid len]) blast
  have "term_typed (active s)" using s by (auto simp: kernel_typed_def term_at_def list_all_length)
  then have pn: "process_num (active s) \<in> {0..<6}" by (simp add: term_typed_def)
  have sub: "set ((process_previous s)[pid := process_num (active s)]) \<subseteq> {0..<6}" "set ((pcb_occupants s)[pid := -1]) \<subseteq> {0, -1}"
    using s pn by (intro set_update_subsetI; simp add: kernel_typed_def)+
  have tm: "kernel_typed (term_upd (active_terminal s) (\<lambda>t. t\<lparr>process_num := int pid\<rparr>) s)"
    using s pid by (intro kernel_typed_term_upd) (simp_all add: term_typed_def)
  have c: "pcbs ?s = pcbs s" "pcb_occupants ?s = (pcb_occupants s)[pid := -1]" "process_previous ?s = (process_previous s)[pid := process_num (active s)]"
    "terminal ?s = terminal (term_upd (active_terminal s) (\<lambda>t. t\<lparr>process_num := int pid\<rparr>) s)" "active_terminal ?s = active_terminal s"
    "active_schedule ?s = active_schedule s" "pDirectory ?s = pDirectory s"
    by (simp_all add: claim_pid_def Let_def term_upd_def term_at_def)
  have v: "pcb_occupants t = pcb_occupants ?s" "process_previous t = process_previous ?s" "map term_shape (terminal t) = map term_shape (terminal ?s)"
    "active_terminal t = active_terminal ?s" "active_schedule t = active_schedule ?s" "length (pDirectory t) = length (pDirectory ?s)"
    using t(5) by (simp_all add: typed_view_def)
  have "kernel_typed (?s\<lparr>pcbs := pcbs t\<rparr>)"
  proof -
    have "good_fds (file_descriptor_array (pcbs t (pcb_addr (int q))))" if "q < 6" "(pcb_occupants s)[pid := -1] ! q \<noteq> 0" for q
    proof (cases "q = pid")
      case False
      then have "pcbs t (pcb_addr (int q)) = pcbs s (pcb_addr (int q))" using t(4) c(1) pcb_addr_inj [OF that(1) pid] by metis
      then show ?thesis using False that s by (simp add: kernel_typed_def)
    qed (use t(2) in simp)
    then show ?thesis using s tm sub t(3) by (simp add: kernel_typed_def c term_upd_def)
  qed
  moreover have "typed_view t = typed_view (?s\<lparr>pcbs := pcbs t\<rparr>)" using v by (simp add: typed_view_def)
  ultimately show ?thesis using t(1) kernel_typed_view [of t "?s\<lparr>pcbs := pcbs t\<rparr>"] by simp
qed

lemma kernel_typed_execute: "execute l cmd s = Some r \<Longrightarrow> kernel_typed s \<Longrightarrow> kernel_typed (state_of r)"
proof -
  assume ex: "execute l cmd s = Some r" and s: "kernel_typed s"
  show ?thesis
  proof (cases "cmd = 0")
    case True
    then show ?thesis using ex s by (auto simp: execute_def kernel_typed_simps)
  next
    case False
    then obtain u q v where p: "parse cmd (l_file_name l) (l_args l) (cli s) = Some u" and c: "check_valid l (l_file_name l) u = Some (q, v)"
      using ex by (auto simp: execute_def split: bind_splits)
    have "kernel_view v = kernel_view s" using parse_kernel_view [OF p] check_valid_kernel_view [OF c] by (simp add: frame_simps)
    then have v: "kernel_typed v" using s kernel_typed_view [OF kernel_view_typed_view] by blast
    then show ?thesis using ex False p c kernel_typed_start [OF v] by (auto simp: execute_def kernel_typed_simps split: if_splits option.splits)
  qed
qed

lemma kernel_typed_free: "kernel_typed s \<Longrightarrow> kernel_typed (s\<lparr>pcb_occupants := (pcb_occupants s)[i := 0]\<rparr>)"
proof -
  assume s: "kernel_typed s"
  then have "pcb_occupants s ! pid \<noteq> 0" if "(pcb_occupants s)[i := 0] ! pid \<noteq> 0" "pid < 6" for pid
    using that by (cases "i = pid") (auto simp: kernel_typed_def)
  moreover have "set ((pcb_occupants s)[i := 0]) \<subseteq> {0, -1}" using s by (intro set_update_subsetI) (simp_all add: kernel_typed_def)
  ultimately show ?thesis using s by (simp add: kernel_typed_def)
qed

lemma kernel_typed_resume:
  assumes "kernel_typed s" and "pid < 6"
  shows "kernel_typed (state_of (halt_resume tn pid child st s))"
proof -
  have "pid < length (process_previous s)" "set (process_previous s) \<subseteq> {0..<6}" using assms by (simp_all add: kernel_typed_def)
  then have "process_previous s ! pid \<in> {0..<6}" using nth_mem by blast
  then have "kernel_typed (term_upd (int tn) (\<lambda>t. t\<lparr>process_num := process_previous s ! pid\<rparr>) s)"
    by (intro kernel_typed_term_upd [OF assms(1)]) (simp add: term_typed_def)
  then show ?thesis by (simp add: halt_resume_def Let_def kernel_typed_simps)
qed

lemma kernel_typed_halt_close: "halt_close_all is s = Some t \<Longrightarrow> kernel_typed s \<Longrightarrow> kernel_typed t"
proof (induction "is" arbitrary: s)
  case (Cons i "is")
  then obtain u where u: "halt_close i s = Some u" "halt_close_all is u = Some t" by (auto split: bind_splits)
  have "kernel_typed u" using u(1) Cons.prems(2)
    by (auto simp: halt_close_def split: if_splits bind_splits dest: kernel_typed_sys_close intro!: kernel_typed_set_fd)
  then show ?case using Cons.IH u(2) by blast
qed simp

lemma kernel_typed_halt: "halt l st s = Some r \<Longrightarrow> kernel_typed s \<Longrightarrow> kernel_typed (state_of r)"
proof -
  assume h: "halt l st s = Some r" and s: "kernel_typed s"
  obtain u tn where u: "halt_close_all [2..<8] s = Some u" "process_terminal u = Some tn" using h by (auto simp: halt_def Let_def split: bind_splits)
  let ?pid = "process_num (term_at (int tn) u)" and ?v = "u\<lparr>pcb_occupants := (pcb_occupants u)[nat (process_num (term_at (int tn) u)) := 0]\<rparr>"
  note h' = h [unfolded halt_def Let_def u(1) Option.bind_lunit, unfolded u(2) Option.bind_lunit]
  have pid: "0 \<le> ?pid \<and> ?pid < 6" using h' by (simp split: if_splits)
  then have n: "nat ?pid < 6" by auto
  have v: "kernel_typed ?v" using kernel_typed_free kernel_typed_halt_close [OF u(1) s] by blast
  show ?thesis
  proof (cases "?pid = 0 \<or> ?pid = 1 \<or> ?pid = 2")
    case True
    let ?w = "put_string (bytes ''Restarting Shell'' @ [10]) ?v"
    obtain q where q: "execute l (l_shell l) ?w = Some q" and r: "(case q of Return _ t \<Rightarrow> Some (halt_resume tn (nat ?pid) (get_pcb s) st t) | _ \<Rightarrow> Some q) = Some r"
      using h' pid True by (simp split: bind_splits)
    have "kernel_typed (state_of q)" using kernel_typed_execute [OF q] v by (simp add: kernel_typed_simps)
    then show ?thesis using r kernel_typed_resume [OF _ n] by (cases q) auto
  next
    case False
    then have "r = halt_resume tn (nat ?pid) (get_pcb s) st ?v" using h' pid by simp
    then show ?thesis using kernel_typed_resume [OF v n] by simp
  qed
qed

lemma kernel_typed_call:
  assumes "sys_call_interrupt l ks ticks eax ebx ecx edx s = Some r" and s: "kernel_typed s" and ks: "\<forall>k \<in> set ks. \<forall>u. kernel_typed u \<longrightarrow> kernel_typed (k u)"
  shows "kernel_typed (state_of r)"
proof -
  let ?done = "\<lambda>r. case r of Some (Return v s) \<Rightarrow> Some (Return v (sti (cli s))) | _ \<Rightarrow> r"
  have d: "kernel_typed (state_of r)" if "?done q = Some r" "\<And>w. q = Some w \<Longrightarrow> kernel_typed (state_of w)" for q
    using that by (auto simp: kernel_typed_simps split: option.splits outcome.splits)
  have ret: "kernel_typed (state_of w)" if "returning q = Some w" "\<And>v t. q = Some (v, t) \<Longrightarrow> kernel_typed t" for q :: "(int \<times> 'a process_scheme) option" and w
    using that by (cases q) (auto simp: returning_def)
  have pair: "kernel_typed (state_of (case q of (v, t) \<Rightarrow> Return v t))" if "kernel_typed (snd q)" for q :: "int \<times> 'a process_scheme"
    using that by (cases q) simp
  show ?thesis
  proof (cases "sint eax > 8 \<or> sint eax < 1")
    case True
    then show ?thesis using assms(1) s by (auto simp: sys_call_interrupt_def)
  next
    case False
    show ?thesis
      by (rule d [OF assms(1) [unfolded sys_call_interrupt_def Let_def, simplified False if_False]])
        (auto split: if_splits elim!: ret intro!: pair dest: kernel_typed_halt [OF _ s] kernel_typed_execute [OF _ s] kernel_typed_sys_read [OF _ s ks]
          kernel_typed_sys_write [OF _ s] kernel_typed_sys_open [OF _ s] kernel_typed_sys_close [OF _ s] simp: kernel_typed_getargs kernel_typed_vidmap s)
  qed
qed

section \<open>The scheduler\<close>

lemma kernel_typed_count: "kernel_typed s \<Longrightarrow> kernel_typed (count_process s)"
  by (simp add: kernel_typed_def count_process_def)

lemma kernel_typed_switch_term:
  assumes "kernel_typed s" and "0 \<le> n" "n < 3"
  shows "kernel_typed (save_and_switch_term n s)" "kernel_typed ((save_and_switch_term n s)\<lparr>active_terminal := n\<rparr>)"
proof -
  show "kernel_typed (save_and_switch_term n s)" using assms by (intro kernel_typed_active [OF assms(1) typed_switch_term])
  moreover have "typed_view ((save_and_switch_term n s)\<lparr>active_terminal := n\<rparr>) = typed_view ((save_and_switch_term n s)\<lparr>active_terminal := n\<rparr>)" ..
  ultimately show "kernel_typed ((save_and_switch_term n s)\<lparr>active_terminal := n\<rparr>)" using assms(2,3) by (rule kernel_typed_active)
qed

lemma kernel_typed_next: "kernel_typed s \<Longrightarrow> kernel_typed (schedule_next s)"
proof -
  assume s: "kernel_typed s"
  let ?a = "save_stack (turn s) s"
  let ?b = "?a\<lparr>active_schedule := (active_schedule ?a)\<lparr>next_terminal_in_schedule := (turn ?a + 1) mod 3\<rparr>\<rparr>"
  have "kernel_typed ?a" using s by (simp add: kernel_typed_simps)
  then have b: "kernel_typed ?b" by (simp add: kernel_typed_def)
  let ?n = "(turn ?a + 1) mod 3"
  let ?c = "if ?n \<noteq> active_terminal ?a then disable_irq 1 ?b else enable_irq 1 ?b"
  have "kernel_typed ?c" using b by (simp only: kernel_typed_simps if_split simp_thms)
  moreover have "\<exists>p e f g. schedule_next s = (switch_user_page p ?c)\<lparr>tss_esp0 := e, esp := f, ebp := g\<rparr>"
    by (simp add: schedule_next_def Let_def) blast
  ultimately show ?thesis by (auto simp: kernel_typed_simps)
qed

lemma kernel_typed_shell_start:
  assumes h: "schedule_start l s = Some r" and s: "kernel_typed s" and n: "current_running_process_count (active_schedule s) < 3"
  shows "kernel_typed (state_of r)"
proof -
  let ?n = "current_running_process_count (active_schedule s)"
  let ?a = "if ?n \<noteq> 0 then save_stack (active_terminal s) s else s"
  have a: "kernel_typed ?a" using s by (simp add: kernel_typed_simps)
  have "active_schedule ?a = active_schedule s" by (simp add: save_stack_def term_upd_def)
  note h' = h [unfolded schedule_start_def Let_def this]
  let ?u = "sti (count_process ((save_and_switch_term ?n ?a)\<lparr>active_terminal := ?n\<rparr>))"
  have "0 \<le> ?n" using s by (simp add: kernel_typed_def)
  then have u: "kernel_typed ?u" using kernel_typed_count [OF kernel_typed_switch_term(2) [OF a _ n]] by (simp add: kernel_typed_simps)
  obtain q where q: "execute l (l_shell l) ?u = Some q" and r: "r = (case q of Return _ t \<Rightarrow> Return 0 (sti t) | _ \<Rightarrow> q)"
    using h' by (auto split: bind_splits)
  show ?thesis using kernel_typed_execute [OF q u] by (cases q) (simp_all add: r kernel_typed_simps)
qed

lemma kernel_typed_schedule: "schedule_handling l s = Some r \<Longrightarrow> kernel_typed s \<Longrightarrow> kernel_typed (state_of r)"
proof -
  assume h: "schedule_handling l s = Some r" and s: "kernel_typed s"
  have c: "kernel_typed (cli s)" using s by (simp add: kernel_typed_simps)
  let ?n = "current_running_process_count (active_schedule s)"
  have cnt: "active_schedule (cli s) = active_schedule s" "0 \<le> ?n" using s by (simp_all add: cli_def kernel_typed_def)
  consider "schedule_activated (active_schedule s) = 0" | "schedule_activated (active_schedule s) \<noteq> 0" "?n < 3"
    | "schedule_activated (active_schedule s) \<noteq> 0" "?n \<ge> 3" by linarith
  then show ?thesis
  proof cases
    case 1
    then show ?thesis using h c by (auto simp: schedule_handling_def Let_def cnt kernel_typed_simps)
  next
    case 2
    then have "schedule_start l (cli s) = Some r" using h by (simp add: schedule_handling_def Let_def cnt(1))
    then show ?thesis using 2(2) by (intro kernel_typed_shell_start [OF _ c]) (simp_all add: cnt(1))
  next
    case 3
    have "kernel_typed (schedule_show (cli s))"
      using kernel_typed_switch_term(1) [OF kernel_typed_count, of "save_stack 2 (cli s)" 0] c by (simp add: schedule_show_def Let_def kernel_typed_simps)
    then show ?thesis using h 3 kernel_typed_next [OF c] by (auto simp: schedule_handling_def Let_def cnt kernel_typed_simps split: if_splits)
  qed
qed

lemma kernel_typed_timer: "PIT_handler l s = Some r \<Longrightarrow> kernel_typed s \<Longrightarrow> kernel_typed (state_of r)"
  by (rule kernel_typed_schedule [of l "send_eoi PIT_IRQ (disable_irq 1 s)"]) (simp_all add: PIT_handler_def Let_def kernel_typed_simps)

end
