(* ===== verification/Kernel_Events.thy ===== *)
theory Kernel_Events
  imports Kernel_Types Boot
begin

text \<open>
  The kernel as a system of events. The boot sequence establishes the type invariant of \<open>Kernel_Types\<close>, and everything that can happen afterwards keeps it: programs, devices, every
  vector of the interrupt table with every system call behind it, and exceptions. The events are an inductive step relation, and the result
  is about all states it reaches.
\<close>

section \<open>Booting\<close>

lemma typed_more:
  fixes s t :: "'a process_scheme"
  assumes "console.more t = console.more s"
  shows "typed_view t = typed_view s"
  using assms by (cases s; cases t; simp add: typed_view_def)

lemma typed_say [typed_simps]: "typed_view (say ps s) = typed_view s"
  by (rule typed_more) (simp add: say_def frame_simps)

lemma typed_report_header: "report_header mbi s = Some t \<Longrightarrow> typed_view t = typed_view s"
proof -
  have c: "typed_view t = typed_view u" if r: "report_cmdline p u = Some t" for p u
  proof -
    obtain n v where p: "puts_loop p 0 (say (lit ''cmdline = '') u) = Some (n, v)" and t: "t = say [newline] v"
      using r by (auto simp: report_cmdline_def puts_def split: bind_splits)
    have "typed_view v = typed_view (say (lit ''cmdline = '') u)" using puts_loop_more [OF p] by (intro typed_more) simp
    then show ?thesis by (simp only: t typed_say)
  qed
  show "report_header mbi s = Some t \<Longrightarrow> typed_view t = typed_view s"
    by (auto simp: report_header_def Let_def typed_say dest!: c split: if_splits)
qed

lemma typed_load_modules [typed_simps]:
  fixes s :: "'a process_scheme"
  shows "typed_view (load_modules mbi a c s) = typed_view s"
proof (induction mbi a c s rule: load_modules.induct)
  case (1 mbi a c s)
  have m: "typed_view (report_module a c u) = typed_view u" for u :: "'a process_scheme"
  proof -
    have "typed_view (fold (\<lambda>i s. say (ps i s) s) js v) = typed_view v" for ps and js :: "nat list" and v :: "'a process_scheme"
      by (induction js arbitrary: v) (simp_all add: typed_say)
    then show ?thesis by (simp add: report_module_def Let_def typed_say)
  qed
  have "typed_view (filesystem_init b s) = typed_view s" for b
    by (cases "sint b \<le> 0") (simp_all add: filesystem_init_def typed_simps, simp add: typed_view_def)
  then show ?case using 1 m by (subst load_modules.simps) simp
qed

lemma report_mmap_more:
  fixes s :: "'a console_scheme"
  assumes "report_mmap mbi p s = Some r"
  shows "console.more r = console.more s"
proof (rule report_mmap.raw_induct [where P = "\<lambda>mbi p s r. console.more r = console.more s", OF _ assms])
  fix f :: "u32 \<Rightarrow> u32 \<Rightarrow> 'a console_scheme \<Rightarrow> 'a console_scheme option" and mbi p :: u32 and s r :: "'a console_scheme"
  assume ih: "\<And>mbi p s r. f mbi p s = Some r \<Longrightarrow> console.more r = console.more s"
  have g: "console.more (say ps s) = console.more s" for ps by (simp add: say_def frame_simps)
  assume "(if p < mmap_addr (mem s) mbi + mmap_length (mem s) mbi
      then (let s = say (lit ''    size = 0x'' @ [Hex (load32 (mem s) p)] @ lit '', base_addr = 0x'' @
                  [Hex8 (load32 (mem s) (p + 8)), Hex8 (load32 (mem s) (p + 4)), newline] @ lit ''    type = 0x'' @
                  [Hex (load32 (mem s) (p + 20))] @ lit '',  length    = 0x'' @
                  [Hex8 (load32 (mem s) (p + 16)), Hex8 (load32 (mem s) (p + 12)), newline]) s
            in f mbi (p + load32 (mem s) p + 4) s)
      else Some s) = Some r"
  then show "console.more r = console.more s" using ih g by (force simp only: Let_def option.inject split: if_splits)
qed

lemma typed_report_sections: "report_sections mbi s = Some t \<Longrightarrow> typed_view t = typed_view s"
  using typed_more [OF report_mmap_more] by (fastforce simp: report_sections_def Let_def typed_say split: if_splits)

lemma typed_initialize_idt [typed_simps]: "typed_view (initialize_idt addr b s) = typed_view s"
proof -
  have g: "typed_view (set_gate i a s) = typed_view s" for i a and s :: "'a kernel_scheme" by (simp add: set_gate_def typed_view_def)
  have i: "typed_view (init_gate addr i s) = typed_view s" for i and s :: "'a kernel_scheme"
    by (simp add: init_gate_def Let_def g) (simp add: typed_view_def)
  have "typed_view (fold (init_gate addr) is s) = typed_view s" for "is" and s :: "'a kernel_scheme" by (induction "is" arbitrary: s) (simp_all add: i)
  then show ?thesis by (simp add: initialize_idt_def Let_def g) (simp add: typed_view_def)
qed

lemma typed_paging_init [typed_simps]:
  fixes s :: "'a process_scheme"
  shows "typed_view (paging_init s) = typed_view s"
proof -
  have e: "typed_view (paging_init_entry i s) = typed_view s" for i and s :: "'a process_scheme" by (simp add: paging_init_entry_def Let_def typed_view_def)
  have "typed_view (fold paging_init_entry is s) = typed_view s" for "is" and s :: "'a process_scheme" by (induction "is" arbitrary: s) (simp_all add: e)
  from this [of "[0..<1024]" s] show ?thesis by (simp add: paging_init_def Let_def typed_view_def)
qed

lemma typed_chips [typed_simps]: "typed_view (i8259_init s) = typed_view s" "typed_view (rtc_init s) = typed_view s"
  by (simp_all add: i8259_init_def rtc_init_def Let_def typed_simps)

lemma kernel_typed_timer_init: "kernel_typed s \<Longrightarrow> kernel_typed (PIT_initialize s)"
  by (simp add: PIT_initialize_def schedule_initialization_def Let_def kernel_typed_simps) (simp add: kernel_typed_def)

lemma kernel_typed_keyboard_init:
  assumes "kernel_typed s"
  shows "kernel_typed (keyboard_initialize s)"
proof -
  have o: "kernel_typed (terminal_open_one j u)" if "kernel_typed u" for j and u :: "'a process_scheme"
    using that by (auto simp: terminal_open_one_def Let_def term_upd_def kernel_typed_def list_all_iff term_typed_def set_update_subsetI dest!: set_update_subset_insert [THEN subsetD])
  have "kernel_typed (fold terminal_open_one is u)" if "kernel_typed u" for "is" and u :: "'a process_scheme"
    using that by (induction "is" arbitrary: u) (simp_all add: o)
  from this [of "enable_irq 1 s" "[0..<3]"] assms show ?thesis
    by (simp add: keyboard_initialize_def terminal_open_def Let_def kernel_typed_simps) (simp add: kernel_typed_def)
qed

lemma kernel_typed_boot:
  fixes s :: "'a boot_scheme"
  assumes "entry k d magic mbi s = Some (Idle t)" and s: "kernel_typed s"
  shows "kernel_typed t" and "pcb_occupants t = pcb_occupants s"
proof -
  define modules where "modules u = (if CHECK_FLAG (mbi_flags (mem u) mbi) 3 then load_modules mbi (mods_addr (mem u) mbi) 0 u else u)" for u :: "'a boot_scheme"
  obtain u v where u: "report_header mbi s = Some u" and v: "report_sections mbi (modules u) = Some v"
    and t: "t = initialize_devices k (load_segments k d v)"
    using assms(1) by (auto simp: entry_def Let_def modules_def [symmetric] split: if_splits bind_splits)
  have "typed_view v = typed_view s"
    using typed_report_sections [OF v] typed_report_header [OF u] by (simp add: modules_def typed_simps)
  then have "kernel_typed v" using s kernel_typed_view by blast
  moreover have "typed_view (load_segments k d v) = typed_view v" by (simp add: load_segments_def Let_def typed_view_def)
  ultimately have a: "kernel_typed (load_segments k d v)" using kernel_typed_view by blast
  note simps = kernel_typed_simps typed_say [THEN kernel_typed_view] typed_initialize_idt [THEN kernel_typed_view]
    typed_paging_init [THEN kernel_typed_view] typed_chips [THEN kernel_typed_view]
  have "kernel_typed (keyboard_initialize (PIT_initialize (rtc_init (paging_init (i8259_init (initialize_idt (ld_handler k) (ld_idt k) (load_segments k d v)))))))"
    using a by (intro kernel_typed_keyboard_init kernel_typed_timer_init) (simp add: simps)
  then show "kernel_typed t" by (auto simp: t initialize_devices_def Let_def launch_tests_def simps intro!: kernel_typed_switch_term(1))
  have occ: "pcb_occupants u = pcb_occupants w" if "typed_view u = typed_view w" for u w :: "'a boot_scheme" using that by (simp add: typed_view_def)
  have o: "pcb_occupants (PIT_initialize u) = pcb_occupants u" for u :: "'a boot_scheme"
    by (simp add: PIT_initialize_def schedule_initialization_def Let_def typed_irq [THEN occ] typed_console [THEN occ])
  have "pcb_occupants (fold terminal_open_one is u) = pcb_occupants u" for "is" and u :: "'a boot_scheme"
    by (induction "is" arbitrary: u) (simp_all add: terminal_open_one_def term_upd_def Let_def)
  then have n: "pcb_occupants (keyboard_initialize u) = pcb_occupants u" for u :: "'a boot_scheme"
    by (simp add: keyboard_initialize_def terminal_open_def Let_def typed_irq [THEN occ])
  have w: "pcb_occupants (save_and_switch_term 0 u) = pcb_occupants u" for u :: "'a boot_scheme" using typed_switch_term [of 0 u] by (simp add: typed_view_def)
  note views = typed_console typed_clear typed_say typed_paging_init typed_chips typed_initialize_idt
  show "pcb_occupants t = pcb_occupants s"
    using occ [OF \<open>typed_view v = typed_view s\<close>] occ [OF \<open>typed_view (load_segments k d v) = typed_view v\<close>]
    by (simp add: t initialize_devices_def Let_def launch_tests_def w n o views [THEN occ])
qed

section \<open>Events\<close>

text \<open>
  What can happen to the kernel: code of a program runs, which may leave anything in memory and in the stack registers; a device changes what its ports
  read; a vector is delivered through the interrupt table, where the keys that come in while a call waits are keys; and an exception leaves its handler in its loop.
\<close>

inductive kernel_step :: "(u32 \<Rightarrow> handler option) \<Rightarrow> 'a kernel_scheme \<Rightarrow> 'a kernel_scheme \<Rightarrow> bool" for code where
  program: "kernel_step code s (s\<lparr>mem := m, esp := e, ebp := b\<rparr>)"
| device: "kernel_step code s (s\<lparr>port_in := q\<rparr>)"
| vector: "deliver code x v s = Some (Finished r) \<Longrightarrow> set (x_keys x) \<subseteq> range key_event \<Longrightarrow> kernel_step code s (state_of r)"
| exception: "deliver code x v s = Some (Stuck t) \<Longrightarrow> kernel_step code s t"

inductive_cases kernel_stepE: "kernel_step code s t"

lemma kernel_typed_key_event: "kernel_typed s \<Longrightarrow> kernel_typed (key_event k s)"
  by (simp add: key_event_def kernel_typed_keyboard kernel_typed_simps)

lemma kernel_typed_handle:
  assumes "handle x h s = Some q" and s: "kernel_typed s"
  shows "q = Stuck t \<Longrightarrow> kernel_typed t" and "q = Finished r \<Longrightarrow> set (x_keys x) \<subseteq> range key_event \<Longrightarrow> kernel_typed (state_of r)"
proof -
  show "kernel_typed t" if "q = Stuck t"
    using assms that by (cases h) (auto simp: divide_error_def debug_exception_def nmi_interrupt_def breakpoint_interrupt_def overflow_exception_def
        bound_range_exceeded_def invalid_opcode_def device_not_available_def double_fault_def coprocessor_segment_overrun_def invalid_tss_def
        segment_not_present_def stack_segment_fault_def general_protection_def page_fault_def reserved_def floating_point_error_def
        alignment_check_def machine_check_def simd_floating_point_exception_def undefined_interrupt_def Let_def kernel_typed_simps)
  assume q: "q = Finished r" and k: "set (x_keys x) \<subseteq> range key_event"
  then have ks: "\<forall>g \<in> set (x_keys x). \<forall>u. kernel_typed u \<longrightarrow> kernel_typed (g u)" using kernel_typed_key_event by fast
  show "kernel_typed (state_of r)"
    using assms q kernel_typed_timer [OF _ s] kernel_typed_call [OF _ s ks] kernel_typed_keyboard [OF s]
    by (cases h) (auto simp: same_flags_def undefined_interrupt_def divide_error_def debug_exception_def nmi_interrupt_def breakpoint_interrupt_def overflow_exception_def
        bound_range_exceeded_def invalid_opcode_def device_not_available_def double_fault_def coprocessor_segment_overrun_def invalid_tss_def
        segment_not_present_def stack_segment_fault_def general_protection_def page_fault_def reserved_def floating_point_error_def
        alignment_check_def machine_check_def simd_floating_point_exception_def Let_def kernel_typed_simps)
qed

lemma kernel_typed_deliver:
  assumes "deliver code x v s = Some q" and "kernel_typed s"
  shows "q = Stuck t \<Longrightarrow> kernel_typed t" and "q = Finished r \<Longrightarrow> set (x_keys x) \<subseteq> range key_event \<Longrightarrow> kernel_typed (state_of r)"
  using assms kernel_typed_handle [of x _ s q] by (auto simp: deliver_def split: if_splits option.splits)

text \<open>An invariant that every event keeps holds in every state that events lead to.\<close>

locale event_system =
  fixes step :: "'s \<Rightarrow> 's \<Rightarrow> bool" and inv :: "'s \<Rightarrow> bool"
  assumes step_keeps: "step s t \<Longrightarrow> inv s \<Longrightarrow> inv t"
begin

lemma reachable_inv: "step\<^sup>*\<^sup>* s t \<Longrightarrow> inv s \<Longrightarrow> inv t"
  by (induction rule: rtranclp_induct) (simp_all add: step_keeps)

end

lemma kernel_step_typed: "kernel_step code s t \<Longrightarrow> kernel_typed s \<Longrightarrow> kernel_typed t"
  by (erule kernel_stepE) (auto simp: kernel_typed_simps dest: kernel_typed_deliver)

interpretation typed_kernel: event_system "kernel_step code" kernel_typed for code :: "u32 \<Rightarrow> handler option"
  by unfold_locales (rule kernel_step_typed)

section \<open>Properties\<close>



end
