(* ===== verification/User_Support.thy ===== *)
theory User_Support
  imports Lib_String "HOL-Library.Monad_Syntax"
begin

text \<open>
  The support library that the user programs are linked with, \<^verbatim>\<open>src/syscalls/ece391support.c\<close>: string routines over the memory
  of the program. The results are that they agree with the kernel's own routines where both exist, and what the two comparisons decide.
\<close>

section \<open>The routines\<close>

partial_function (option) ece391_strlen_loop :: "mem \<Rightarrow> u32 \<Rightarrow> u32 \<Rightarrow> u32 option" where
  "ece391_strlen_loop m s len = (if m s \<noteq> 0 then ece391_strlen_loop m (s + 1) (len + 1) else Some len)"

definition ece391_strlen :: "mem \<Rightarrow> u32 \<Rightarrow> u32 option" where
  "ece391_strlen m s = ece391_strlen_loop m s 0"

partial_function (option) ece391_strcpy :: "mem \<Rightarrow> u32 \<Rightarrow> u32 \<Rightarrow> mem option" where
  "ece391_strcpy m dst src =
     (let c = m src; m' = m(dst := c)
      in if c \<noteq> 0 then ece391_strcpy m' (dst + 1) (src + 1) else Some m')"

text \<open>The characters are unsigned, so their difference is the one of two numbers below 256.\<close>

partial_function (option) ece391_strcmp :: "mem \<Rightarrow> u32 \<Rightarrow> u32 \<Rightarrow> int option" where
  "ece391_strcmp m s1 s2 =
     (if m s1 = m s2 then if m s1 = 0 then Some 0 else ece391_strcmp m (s1 + 1) (s2 + 1)
      else Some (uint (m s1) - uint (m s2)))"

partial_function (option) ece391_strncmp_loop :: "mem \<Rightarrow> u32 \<Rightarrow> u32 \<Rightarrow> u32 \<Rightarrow> int option" where
  "ece391_strncmp_loop m s1 s2 n =
     (if m s1 = m s2 then
        if m s1 = 0 \<or> n - 1 = 0 then Some 0 else ece391_strncmp_loop m (s1 + 1) (s2 + 1) (n - 1)
      else Some (uint (m s1) - uint (m s2)))"

definition ece391_strncmp :: "mem \<Rightarrow> u32 \<Rightarrow> u32 \<Rightarrow> u32 \<Rightarrow> int option" where
  "ece391_strncmp m s1 s2 n = (if n = 0 then Some 0 else ece391_strncmp_loop m s1 s2 n)"

text \<open>The swapping loop and the digit loop are, character by character, those of the kernel's library.\<close>

definition ece391_strrev :: "mem \<Rightarrow> u32 \<Rightarrow> mem option" where
  "ece391_strrev m s = do {
     len \<leftarrow> ece391_strlen m s;
     let end = sint (len - 1);
     Some (if end \<le> 0 then m else strrev_loop m s 0 end)
   }"

definition ece391_itoa :: "mem \<Rightarrow> u32 \<Rightarrow> u32 \<Rightarrow> u32 \<Rightarrow> mem option" where
  "ece391_itoa m value buf radix =
     (if value = 0 then Some (m(buf := byte CHR ''0'', buf + 1 := 0))
      else do {
        (m, newbuf) \<leftarrow> itoa_loop m buf value radix;
        ece391_strrev (m(newbuf := 0)) buf
      })"

section \<open>Agreement with the kernel's library\<close>

lemma option_eqI: "(\<And>r. a = Some r \<longleftrightarrow> b = Some r) \<Longrightarrow> a = b"
  by (cases a; cases b) auto

lemma strlen_loop_ece391:
  assumes "ece391_strlen_loop m (s + len) len = Some r"
  shows "strlen_loop m s len = Some r"
proof -
  have "strlen_loop m (s + len - len) len = Some r"
  proof (rule ece391_strlen_loop.raw_induct [where P = "\<lambda>m p len r. strlen_loop m (p - len) len = Some r"])
    fix f m p len r
    assume ih: "\<And>m p len r. f m p len = Some r \<Longrightarrow> strlen_loop m (p - len) len = Some r"
      and f: "(if m p \<noteq> 0 then f m (p + 1) (len + 1) else Some len) = Some r"
    show "strlen_loop m (p - len) len = Some r"
      using f ih [of m "p + 1" "len + 1" r] by (subst strlen_loop.simps) (auto split: if_splits)
  qed (rule assms)
  then show ?thesis by simp
qed

lemma ece391_strlen_loop_strlen:
  assumes "strlen_loop m s len = Some r"
  shows "ece391_strlen_loop m (s + len) len = Some r"
proof (rule strlen_loop.raw_induct [where P = "\<lambda>m s len r. ece391_strlen_loop m (s + len) len = Some r"])
  fix f m s len r
  assume ih: "\<And>m s len r. f m s len = Some r \<Longrightarrow> ece391_strlen_loop m (s + len) len = Some r"
    and f: "(if m (s + len) \<noteq> 0 then f m s (len + 1) else Some len) = Some r"
  show "ece391_strlen_loop m (s + len) len = Some r"
    using f ih [of m s "len + 1" r]
    by (subst ece391_strlen_loop.simps) (auto simp: add.assoc split: if_splits)
qed (rule assms)

lemma ece391_strlen_eq: "ece391_strlen m s = strlen m s"
proof (rule option_eqI)
  fix r
  show "ece391_strlen m s = Some r \<longleftrightarrow> strlen m s = Some r"
    using strlen_loop_ece391 [of m s 0 r] ece391_strlen_loop_strlen [of m s 0 r] by (auto simp: ece391_strlen_def strlen_def)
qed

lemma ece391_strrev_eq: "ece391_strrev m s = strrev m s"
proof -
  have "strrev_loop m s 0 e = m" if "e \<le> 0" for e using that by (simp add: strrev_loop.simps)
  then show ?thesis by (cases "strlen m s") (simp_all add: ece391_strrev_def strrev_def ece391_strlen_eq Let_def)
qed

lemma ece391_itoa_eq: "ece391_itoa m v buf radix = itoa m v buf radix"
  by (cases "itoa_loop m buf v radix") (auto simp: ece391_itoa_def itoa_def ece391_strrev_eq)

section \<open>Comparing strings\<close>

lemma ece391_strcmp_cstring:
  assumes "cstring m s1 cs" "cstring m s2 ds"
  shows "\<exists>d. ece391_strcmp m s1 s2 = Some d \<and> (d = 0 \<longleftrightarrow> cs = ds)"
  using assms
proof (induction cs arbitrary: ds s1 s2)
  case Nil
  then show ?case by (cases ds) (auto simp: ece391_strcmp.simps [of m s1 s2] cstring_Nil cstring_Cons unsigned_eq_0_iff)
next
  case (Cons c cs)
  show ?case
  proof (cases ds)
    case Nil
    then show ?thesis using Cons.prems by (auto simp: ece391_strcmp.simps [of m s1 s2] cstring_Nil cstring_Cons unsigned_eq_0_iff)
  next
    case (Cons d ds')
    then show ?thesis using Cons.prems Cons.IH [of "s1 + 1" "s2 + 1" ds']
      by (auto simp: ece391_strcmp.simps [of m s1 s2] cstring_Cons dest: unsigned_word_eqI)
  qed
qed

lemma pred_word: "0 < k \<Longrightarrow> k < 4294967296 \<Longrightarrow> word_of_nat k - 1 = (word_of_nat (k - 1) :: u32)"
  by (cases k) simp_all

lemma word_zero_iff: "k < 4294967296 \<Longrightarrow> (word_of_nat k :: u32) = 0 \<longleftrightarrow> k = 0"
  using add_of_nat_eq_iff [of k 0 0] by simp

lemma ece391_strncmp_loop_cstring:
  assumes "cstring m s1 cs" "cstring m s2 ds" and "0 < k" "k < 4294967296"
  shows "\<exists>d. ece391_strncmp_loop m s1 s2 (word_of_nat k) = Some d \<and> (d = 0 \<longleftrightarrow> take k cs = take k ds)"
  using assms
proof (induction cs arbitrary: ds s1 s2 k)
  case Nil
  then show ?case
    by (cases ds) (auto simp: ece391_strncmp_loop.simps [of m s1 s2] cstring_Nil cstring_Cons unsigned_eq_0_iff)
next
  case (Cons c cs)
  note step = ece391_strncmp_loop.simps [of m s1 s2 "word_of_nat k"]
  have n: "word_of_nat k - 1 = (word_of_nat (k - 1) :: u32)" "(word_of_nat (k - 1) :: u32) = 0 \<longleftrightarrow> k - 1 = 0"
    using pred_word [OF Cons.prems(3,4)] word_zero_iff [of "k - 1"] Cons.prems(3,4) by simp_all
  show ?case
  proof (cases ds)
    case Nil
    then show ?thesis using Cons.prems by (auto simp: step cstring_Nil cstring_Cons unsigned_eq_0_iff)
  next
    case (Cons d ds')
    have t: "take k (x # xs) = x # take (k - 1) xs" for x and xs :: "u8 list" using Cons.prems(3) by (cases k) simp_all
    show ?thesis
    proof (cases "k = 1 \<or> c \<noteq> d")
      case True
      then show ?thesis using Cons.prems Cons n by (auto simp: step cstring_Cons t dest: unsigned_word_eqI)
    next
      case False
      then have "0 < k - 1" "k - 1 < 4294967296" using Cons.prems(3,4) by auto
      then show ?thesis using False Cons.prems Cons n Cons.IH [of "s1 + 1" "s2 + 1" ds' "k - 1"]
        by (auto simp: step cstring_Cons t)
    qed
  qed
qed

lemma ece391_strncmp_cstring:
  assumes "cstring m s1 cs" "cstring m s2 ds" and "k < 4294967296"
  shows "\<exists>d. ece391_strncmp m s1 s2 (word_of_nat k) = Some d \<and> (d = 0 \<longleftrightarrow> take k cs = take k ds)"
  using ece391_strncmp_loop_cstring [OF assms(1,2) _ assms(3)] word_zero_iff [OF assms(3)]
  by (cases "k = 0") (auto simp: ece391_strncmp_def)
end
