(* ===== verification/User_Programs.thy ===== *)
theory User_Programs
  imports Interrupts Call_Returns User_Support
begin

text \<open>
  User programs of \<^verbatim>\<open>src/syscalls\<close> over the system call interface: \<open>cat\<close>, \<open>ls\<close>, \<open>hello\<close>, \<open>testprint\<close>, \<open>counter\<close> and the shell. A program is a function of the
  calls it may make, a record of functions over any state, and of its layout, the addresses of its buffers and string literals.
  The kernel's calls are one instance of the interface: a trap with the number of the call and three arguments in registers. The main result runs
  \<open>cat\<close> on the kernel.
\<close>

section \<open>The interface\<close>

record 's calls =
  user_mem :: "'s \<Rightarrow> mem"
  set_user_mem :: "mem \<Rightarrow> 's \<Rightarrow> 's"
  ece391_execute :: "u32 \<Rightarrow> 's \<Rightarrow> (int \<times> 's) option"
  ece391_read :: "int \<Rightarrow> u32 \<Rightarrow> int \<Rightarrow> 's \<Rightarrow> (int \<times> 's) option"
  ece391_write :: "int \<Rightarrow> u32 \<Rightarrow> int \<Rightarrow> 's \<Rightarrow> (int \<times> 's) option"
  ece391_open :: "u32 \<Rightarrow> 's \<Rightarrow> (int \<times> 's) option"
  ece391_close :: "int \<Rightarrow> 's \<Rightarrow> (int \<times> 's) option"
  ece391_getargs :: "u32 \<Rightarrow> int \<Rightarrow> 's \<Rightarrow> (int \<times> 's) option"
  ece391_vidmap :: "u32 \<Rightarrow> 's \<Rightarrow> (int \<times> 's) option"
  ece391_set_handler :: "int \<Rightarrow> u32 \<Rightarrow> 's \<Rightarrow> (int \<times> 's) option"
  int_0x80 :: "u32 \<Rightarrow> u32 \<Rightarrow> u32 \<Rightarrow> u32 \<Rightarrow> 's \<Rightarrow> (int \<times> 's) option"

record layout =
  p_buf :: u32
  p_literal :: "string \<Rightarrow> u32"

definition store :: "'s calls \<Rightarrow> u32 \<Rightarrow> u8 \<Rightarrow> 's \<Rightarrow> 's" where
  "store c a b s = set_user_mem c ((user_mem c s)(a := b)) s"

definition ece391_fdputs :: "'s calls \<Rightarrow> int \<Rightarrow> u32 \<Rightarrow> 's \<Rightarrow> 's option" where
  "ece391_fdputs c fd p s = do {
     len \<leftarrow> ece391_strlen (user_mem c s) p;
     (_, s) \<leftarrow> ece391_write c fd p (sint len) s;
     Some s
   }"

text \<open>A message on standard output before a program ends with a status.\<close>

definition give_up :: "'s calls \<Rightarrow> 'l layout_scheme \<Rightarrow> string \<Rightarrow> int \<Rightarrow> 's \<Rightarrow> (int \<times> 's) option" where
  "give_up c p msg status s = do { s \<leftarrow> ece391_fdputs c 1 (p_literal p msg) s; Some (status, s) }"

section \<open>Programs\<close>

abbreviation nl :: string where "nl \<equiv> [CHR 0x0A]"

partial_function (option) cat_loop :: "'s calls \<Rightarrow> layout \<Rightarrow> int \<Rightarrow> 's \<Rightarrow> (int \<times> 's) option" where
  "cat_loop c p fd s = do {
     (cnt, s) \<leftarrow> ece391_read c fd (p_buf p) 1024 s;
     if cnt = 0 then Some (0, s)
     else if cnt = -1 then give_up c p (''file read failed'' @ nl) 3 s
     else do {
       (r, s) \<leftarrow> ece391_write c 1 (p_buf p) cnt s;
       if r = -1 then Some (3, s) else cat_loop c p fd s
     }
   }"

definition cat_main :: "'s calls \<Rightarrow> layout \<Rightarrow> 's \<Rightarrow> (int \<times> 's) option" where
  "cat_main c p s = do {
     (r, s) \<leftarrow> ece391_getargs c (p_buf p) 1024 s;
     if r \<noteq> 0 then give_up c p (''could not read arguments'' @ nl) 3 s
     else do {
       (fd, s) \<leftarrow> ece391_open c (p_buf p) s;
       if fd = -1 then give_up c p (''file not found'' @ nl) 2 s else cat_loop c p fd s
     }
   }"

partial_function (option) ls_loop :: "'s calls \<Rightarrow> layout \<Rightarrow> int \<Rightarrow> 's \<Rightarrow> (int \<times> 's) option" where
  "ls_loop c p fd s = do {
     (cnt, s) \<leftarrow> ece391_read c fd (p_buf p) 32 s;
     if cnt = 0 then Some (0, s)
     else if cnt = -1 then give_up c p (''directory entry read failed'' @ nl) 3 s
     else do {
       let s = store c (p_buf p + word_of_int cnt) 10 s;
       (r, s) \<leftarrow> ece391_write c 1 (p_buf p) (cnt + 1) s;
       if r = -1 then Some (3, s) else ls_loop c p fd s
     }
   }"

definition ls_main :: "'s calls \<Rightarrow> layout \<Rightarrow> 's \<Rightarrow> (int \<times> 's) option" where
  "ls_main c p s = do {
     (fd, s) \<leftarrow> ece391_open c (p_literal p ''.'') s;
     if fd = -1 then give_up c p (''directory open failed'' @ nl) 2 s else ls_loop c p fd s
   }"

definition testprint_main :: "'s calls \<Rightarrow> layout \<Rightarrow> 's \<Rightarrow> (int \<times> 's) option" where
  "testprint_main c p s = give_up c p (''Hello, if this ran, the program was correct. Yay!'' @ nl) 0 s"

definition hello_main :: "'s calls \<Rightarrow> layout \<Rightarrow> 's \<Rightarrow> (int \<times> 's) option" where
  "hello_main c p s = do {
     s \<leftarrow> ece391_fdputs c 1 (p_literal p ''Hi, what's your name? '') s;
     (cnt, s) \<leftarrow> ece391_read c 0 (p_buf p) 1023 s;
     if cnt = -1 then give_up c p (''Can't read name from keyboard.'' @ nl) 3 s
     else do {
       let s = store c (p_buf p + word_of_int cnt) 0 s;
       s \<leftarrow> ece391_fdputs c 1 (p_literal p ''Hello, '') s;
       s \<leftarrow> ece391_fdputs c 1 (p_buf p) s;
       Some (0, s)
     }
   }"

text \<open>The counter: \<open>cnt\<close> and \<open>i\<close> are unsigned, and a choice that is a single newline leaves \<open>max\<close> at 0.\<close>

definition counter_max :: "u8 \<Rightarrow> u32" where
  "counter_max b = (if b = byte CHR ''0'' then 100 else if b = byte CHR ''1'' then 10000 else if b = byte CHR ''2'' then 100000 else 0)"

partial_function (option) counter_loop :: "'s calls \<Rightarrow> layout \<Rightarrow> u32 \<Rightarrow> u32 \<Rightarrow> 's \<Rightarrow> 's option" where
  "counter_loop c p n i s =
     (if i < n then do {
        m \<leftarrow> ece391_itoa (user_mem c s) (i + 1) (p_buf p) 10;
        s \<leftarrow> ece391_fdputs c 1 (p_buf p) (set_user_mem c m s);
        s \<leftarrow> ece391_fdputs c 1 (p_literal p nl) s;
        counter_loop c p n (i + 1) s
      } else Some s)"

definition counter_main :: "'s calls \<Rightarrow> layout \<Rightarrow> 's \<Rightarrow> (int \<times> 's) option" where
  "counter_main c p s = do {
     s \<leftarrow> ece391_fdputs c 1 (p_literal p (''Enter the Test Number: (0): 100, (1): 10000, (2): 100000'' @ nl)) s;
     (cnt, s) \<leftarrow> ece391_read c 0 (p_buf p) 1023 s;
     if cnt = -1 then give_up c p (''Can't read the number from keyboard.'' @ nl) 3 s
     else do {
       let s = store c (p_buf p + word_of_int cnt) 0 s;
       len \<leftarrow> ece391_strlen (user_mem c s) (p_buf p);
       let b = user_mem c s (p_buf p);
       if len > 2 \<or> len = 2 \<and> (b < byte CHR ''0'' \<or> b > byte CHR ''2'')
       then give_up c p (''Wrong Choice!'' @ nl) 0 s
       else do {
         s \<leftarrow> counter_loop c p (counter_max b) 0 s;
         Some (0, s)
       }
     }
   }"

section \<open>The shell\<close>

definition shell_report :: "'s calls \<Rightarrow> layout \<Rightarrow> int \<Rightarrow> 's \<Rightarrow> 's option" where
  "shell_report c p rval s =
     (if rval = -1 then ece391_fdputs c 1 (p_literal p (''no such command'' @ nl)) s
      else if rval = 256 then ece391_fdputs c 1 (p_literal p (''program terminated by exception'' @ nl)) s
      else if rval \<noteq> 0 then ece391_fdputs c 1 (p_literal p (''program terminated abnormally'' @ nl)) s
      else Some s)"

partial_function (option) shell_loop :: "'s calls \<Rightarrow> layout \<Rightarrow> 's \<Rightarrow> (int \<times> 's) option" where
  "shell_loop c p s = do {
     s \<leftarrow> ece391_fdputs c 1 (p_literal p ''391OS> '') s;
     (cnt, s) \<leftarrow> ece391_read c 0 (p_buf p) 1023 s;
     if cnt = -1 then give_up c p (''read from keyboard failed'' @ nl) 3 s
     else do {
       let cnt = (if cnt > 0 \<and> user_mem c s (p_buf p + word_of_int (cnt - 1)) = 10 then cnt - 1 else cnt);
       let s = store c (p_buf p + word_of_int cnt) 0 s;
       d \<leftarrow> ece391_strcmp (user_mem c s) (p_buf p) (p_literal p ''exit'');
       if d = 0 then Some (0, s)
       else if user_mem c s (p_buf p) = 0 then shell_loop c p s
       else do {
         (rval, s) \<leftarrow> ece391_execute c (p_buf p) s;
         s \<leftarrow> shell_report c p rval s;
         shell_loop c p s
       }
     }
   }"

definition shell_main :: "'s calls \<Rightarrow> layout \<Rightarrow> 's \<Rightarrow> (int \<times> 's) option" where
  "shell_main c p s = do {
     s \<leftarrow> ece391_fdputs c 1 (p_literal p (''Starting 391 Shell'' @ nl)) s;
     shell_loop c p s
   }"

section \<open>The calls of the kernel\<close>

text \<open>
  The wrappers of \<^verbatim>\<open>ece391syscall.S\<close>: the number of the call in \<open>eax\<close>, the arguments in \<open>ebx\<close>, \<open>ecx\<close> and \<open>edx\<close>. The key presses and clock
  interrupts that arrive during a call depend on the state in which it is made. A call of \<open>execute\<close> returns when the program it starts has ended; what happens
  meanwhile is a parameter.
\<close>

type_synonym 'a events = "'a process_scheme \<Rightarrow> ('a process_scheme \<Rightarrow> 'a process_scheme) list"

definition DO_CALL :: "locals \<Rightarrow> 'a events \<Rightarrow> ('a process_scheme \<Rightarrow> bool list) \<Rightarrow> u32 \<Rightarrow> u32 \<Rightarrow> u32 \<Rightarrow> u32
    \<Rightarrow> 'a process_scheme \<Rightarrow> (int \<times> 'a process_scheme) option" where
  "DO_CALL l keys ticks number ebx ecx edx s =
     (case sys_call_interrupt l (keys s) (ticks s) number ebx ecx edx s of Some (Return v t) \<Rightarrow> Some (v, t) | _ \<Rightarrow> None)"

definition kernel_calls :: "locals \<Rightarrow> 'a events \<Rightarrow> ('a process_scheme \<Rightarrow> bool list)
    \<Rightarrow> (u32 \<Rightarrow> 'a process_scheme \<Rightarrow> (int \<times> 'a process_scheme) option) \<Rightarrow> 'a process_scheme calls" where
  "kernel_calls l keys ticks exec = \<lparr>user_mem = mem, set_user_mem = (\<lambda>m s. s\<lparr>mem := m\<rparr>), ece391_execute = exec,
     ece391_read = (\<lambda>fd buf n. DO_CALL l keys ticks 3 (word_of_int fd) buf (word_of_int n)),
     ece391_write = (\<lambda>fd buf n. DO_CALL l keys ticks 4 (word_of_int fd) buf (word_of_int n)),
     ece391_open = (\<lambda>name. DO_CALL l keys ticks 5 name 0 0),
     ece391_close = (\<lambda>fd. DO_CALL l keys ticks 6 (word_of_int fd) 0 0),
     ece391_getargs = (\<lambda>buf n. DO_CALL l keys ticks 7 buf (word_of_int n) 0),
     ece391_vidmap = (\<lambda>p. DO_CALL l keys ticks 8 p 0 0),
     ece391_set_handler = (\<lambda>sig h. DO_CALL l keys ticks 9 (word_of_int sig) h 0),
     int_0x80 = DO_CALL l keys ticks\<rparr>"

section \<open>Copying a stream to the screen\<close>

text \<open>
  What the programs rely on: writes show the buffer; and for \<open>cat\<close>, reads deliver the rest of the file piece by piece into the buffer.
\<close>

locale output_service =
  fixes c :: "'s calls" and buf :: u32 and ok :: "'s \<Rightarrow> bool" and rest :: "'s \<Rightarrow> 'r" and out :: "'s \<Rightarrow> ascreen"
  assumes writes: "ok s \<Longrightarrow> n \<le> 1024 \<Longrightarrow> \<exists>t. ece391_write c 1 buf (int n) s = Some (int n, t) \<and> ok t \<and> rest t = rest s
      \<and> out t = fold a_put (filter (\<lambda>b. b \<noteq> 0) (read_bytes (user_mem c s) buf n)) (out s)"

locale stream_service = output_service c buf ok rest out
  for c :: "'s calls" and buf :: u32 and ok :: "'s \<Rightarrow> bool" and rest :: "'s \<Rightarrow> u8 list" and out :: "'s \<Rightarrow> ascreen" +
  fixes fd :: int
  assumes reads: "ok s \<Longrightarrow> \<exists>t. ece391_read c fd buf 1024 s = Some (int (length (take 1024 (rest s))), t) \<and> ok t
      \<and> rest t = drop 1024 (rest s) \<and> out t = out s
      \<and> read_bytes (user_mem c t) buf (length (take 1024 (rest s))) = take 1024 (rest s)"
begin

lemma cat_loop_copies:
  assumes "ok s" "p_buf p = buf"
  shows "\<exists>t. cat_loop c p fd s = Some (0, t) \<and> ok t \<and> out t = fold a_put (filter (\<lambda>b. b \<noteq> 0) (rest s)) (out s)"
  using assms(1)
proof (induction "length (rest s)" arbitrary: s rule: less_induct)
  case less
  let ?d = "take 1024 (rest s)"
  obtain t where t: "ece391_read c fd buf 1024 s = Some (int (length ?d), t)" "ok t" "rest t = drop 1024 (rest s)" "out t = out s"
    "read_bytes (user_mem c t) buf (length ?d) = ?d"
    using reads [OF less.prems] by blast
  show ?case
  proof (cases "rest s = []")
    case True
    then show ?thesis using t assms(2) by (subst cat_loop.simps) simp
  next
    case False
    obtain u where u: "ece391_write c 1 buf (int (length ?d)) t = Some (int (length ?d), u)" "ok u" "rest u = rest t"
      "out u = fold a_put (filter (\<lambda>b. b \<noteq> 0) ?d) (out t)"
      using writes [OF t(2), of "length ?d"] t(5) by auto
    have "length (rest u) < length (rest s)" using False u(3) t(3) by simp
    from less.hyps [OF this u(2)] obtain v where v: "cat_loop c p fd u = Some (0, v)" "ok v"
      "out v = fold a_put (filter (\<lambda>b. b \<noteq> 0) (rest u)) (out u)" by blast
    have ne: "length ?d \<noteq> 0" using False by (cases "rest s") simp_all
    have "cat_loop c p fd s = Some (0, v)" using t(1) u(1) v(1) assms(2) ne by (subst cat_loop.simps) (simp del: length_take)
    moreover have "filter (\<lambda>b. b \<noteq> 0) (rest s) = filter (\<lambda>b. b \<noteq> 0) ?d @ filter (\<lambda>b. b \<noteq> 0) (rest u)"
      unfolding u(3) t(3) filter_append [symmetric] by simp
    ultimately show ?thesis using v u(4) t(4) by (simp only: fold_append o_apply) blast
  qed
qed

end

section \<open>The kernel provides the stream\<close>

definition files_ok :: "u32 \<Rightarrow> u32 \<Rightarrow> 'a fs_scheme \<Rightarrow> bool" where
  "files_ok buf ino s \<longleftrightarrow> fs_wf s (mem s) \<and> inode_wf s (mem s) ino
     \<and> outside_image s (mem s) buf 1024 \<and> outside_image s (mem s) VIDEO 4000"

lemma files_ok_cong:
  fixes s t :: "'a process_scheme"
  assumes "files_ok buf ino s" and "g_b_block t = g_b_block s" "g_index_nodes t = g_index_nodes s" "g_directory_entries t = g_directory_entries s"
    and same: "same_image s (mem s) (mem t)"
  shows "files_ok buf ino t" "file_contents t (mem t) ino = file_contents s (mem s) ino" "file_size t (mem t) ino = file_size s (mem s) ino"
proof -
  note c = fs_fields_cong [OF assms(2-4)]
  have wf: "fs_wf s (mem s)" "inode_wf s (mem s) ino" using assms(1) by (simp_all add: files_ok_def)
  note i = same_image_inode [OF wf same] same_image_header [OF wf(1) same]
  show "file_contents t (mem t) ino = file_contents s (mem s) ino" "file_size t (mem t) ino = file_size s (mem s) ino"
    unfolding c by (fact i)+
  show "files_ok buf ino t"
    using assms(1) i unfolding files_ok_def c by (simp add: outside_image_def)
qed

text \<open>The screen side: standard output is the terminal, it is shown, and its line is not full.\<close>

definition stdout_ok :: "u32 \<Rightarrow> 'a process_scheme \<Rightarrow> bool" where
  "stdout_ok buf s \<longleftrightarrow> fds_ok s \<and> flags (fd_at 1 s) \<noteq> 0 \<and> descriptor_op_ptr (fd_at 1 s) = term_table
     \<and> foreground s \<and> cursor_ok s \<and> buffer_index (active s) \<noteq> 128 \<and> buf \<noteq> 0 \<and> disjoint_regions buf 1024 VIDEO 4000"

definition cat_ok :: "u32 \<Rightarrow> int \<Rightarrow> 'a process_scheme \<Rightarrow> bool" where
  "cat_ok buf fd s \<longleftrightarrow> 2 \<le> fd \<and> fd < 8 \<and> flags (fd_at fd s) = 1 \<and> descriptor_op_ptr (fd_at fd s) = file_table
     \<and> files_ok buf (inode_num (fd_at fd s)) s \<and> unat (file_pos (fd_at fd s)) \<le> unat (file_size s (mem s) (inode_num (fd_at fd s)))
     \<and> stdout_ok buf s"

definition rest_of :: "int \<Rightarrow> 'a process_scheme \<Rightarrow> u8 list" where
  "rest_of fd s = drop (unat (file_pos (fd_at fd s))) (file_contents s (mem s) (inode_num (fd_at fd s)))"

lemma small_arg: "0 \<le> i \<Longrightarrow> i \<le> 1024 \<Longrightarrow> sint (word_of_int i :: u32) = i"
  by (rule sint_of_int32) simp_all

lemma call_read:
  assumes "sys_read l (keys s) (ticks s) fd buf n s = Some (v, t)" and "0 \<le> fd" "fd < 8" "0 \<le> n" "n \<le> 1024"
  shows "DO_CALL l keys ticks 3 (word_of_int fd) buf (word_of_int n) s = Some (v, sti (cli t))"
  using assms small_arg [of fd] small_arg [of n] by (simp add: DO_CALL_def sys_call_interrupt_def returning_def Let_def)

lemma call_write:
  assumes "sys_write fd buf n s = Some (v, t)" and "0 \<le> fd" "fd < 8" "0 \<le> n" "n \<le> 1024"
  shows "DO_CALL l keys ticks 4 (word_of_int fd) buf (word_of_int n) s = Some (v, sti (cli t))"
  using assms small_arg [of fd] small_arg [of n] by (simp add: DO_CALL_def sys_call_interrupt_def returning_def Let_def)

lemma stdout_ok_cong:
  assumes "stdout_ok buf s" and "fds_ok t" "fd_at 1 t = fd_at 1 s" "active_schedule t = active_schedule s" "terminal t = terminal s"
    "active_terminal t = active_terminal s" "cursor_ok t"
  shows "stdout_ok buf t"
  using assms by (simp add: stdout_ok_def foreground_def term_at_def)

text \<open>What of this survives when the kernel or the program fills a buffer beside the image and the screen.\<close>

definition same_devices :: "'a process_scheme \<Rightarrow> 'a process_scheme \<Rightarrow> bool" where
  "same_devices s t \<longleftrightarrow> g_b_block t = g_b_block s \<and> g_index_nodes t = g_index_nodes s \<and> g_directory_entries t = g_directory_entries s
     \<and> active_schedule t = active_schedule s \<and> terminal t = terminal s \<and> active_terminal t = active_terminal s
     \<and> screen_x t = screen_x s \<and> screen_y t = screen_y s"

lemma buffer_filled:
  fixes s t :: "'a process_scheme"
  assumes files: "files_ok buf ino s" and std: "stdout_ok buf s" and out: "outside_image s (mem s) a n" and dis: "disjoint_regions a n VIDEO 4000"
    and keep: "\<And>x. \<not> in_region x a n \<Longrightarrow> mem t x = mem s x"
    and dev: "same_devices s t" and fd: "fds_ok t" "fd_at 1 t = fd_at 1 s"
  shows "files_ok buf ino t" "file_contents t (mem t) ino = file_contents s (mem s) ino" "file_size t (mem t) ino = file_size s (mem s) ino"
    and "stdout_ok buf t" and "abs_screen t = abs_screen s"
proof -
  have same: "same_image s (mem s) (mem t)" using keep same_image_refl by (rule same_image_outside [OF out])
  have t: "g_b_block t = g_b_block s" "g_index_nodes t = g_index_nodes s" "g_directory_entries t = g_directory_entries s"
    "active_schedule t = active_schedule s" "terminal t = terminal s" "active_terminal t = active_terminal s"
    "screen_x t = screen_x s" "screen_y t = screen_y s"
    using dev by (simp_all add: same_devices_def)
  show "files_ok buf ino t" "file_contents t (mem t) ino = file_contents s (mem s) ino" "file_size t (mem t) ino = file_size s (mem s) ino"
    by (fact files_ok_cong [OF files t(1-3) same])+
  have "cursor_ok t" using std t(7,8) by (simp add: stdout_ok_def cursor_ok_def)
  then show "stdout_ok buf t" by (rule stdout_ok_cong [OF std fd t(4-6)])
  have "screen_text (mem t) = screen_text (mem s)"
    by (rule screen_text_cong) (use keep dis disjoint_regionsD in blast)
  then show "abs_screen t = abs_screen s" by (simp add: abs_screen_def t(7,8))
qed

lemma descriptor_call:
  fixes s :: "'a process_scheme" and m :: mem and f :: "file_descriptor_t \<Rightarrow> file_descriptor_t"
  assumes ok: "fds_ok s" and fd: "0 \<le> fd" "fd < 8"
  defines "t \<equiv> sti (cli (set_fd (get_pcb s) (nat fd) f (s\<lparr>mem := m\<rparr>)))"
  shows "0 \<le> j \<Longrightarrow> j < 8 \<Longrightarrow> fd_at j t = (if j = fd then f (fd_at fd s) else fd_at j s)" and "fds_ok t" and "same_devices s t" and "mem t = m"
proof -
  let ?v = "s\<lparr>mem := m\<rparr>"
  have v: "fds_ok ?v" "get_pcb ?v = get_pcb s" "fd_at j ?v = fd_at j s" for j using ok by (simp_all add: fds_ok_def get_pcb_def fd_at_def)
  show "fd_at j t = (if j = fd then f (fd_at fd s) else fd_at j s)" if "0 \<le> j" "j < 8"
  proof -
    have "fd_at j t = fd_at j (set_fd (get_pcb s) (nat fd) f ?v)" by (simp add: t_def fd_at_def get_pcb_def sti_def cli_def)
    then show ?thesis using fd_at_set_fd [OF v(1) fd that, of f] by (simp add: v(2,3))
  qed
  show "fds_ok t" using ok by (simp add: t_def fds_ok_def set_fd_def get_pcb_def sti_def cli_def)
  show "same_devices s t" "mem t = m" by (simp_all add: t_def same_devices_def set_fd_def sti_def cli_def)
qed

lemma kernel_reads:
  fixes s :: "'a process_scheme"
  assumes ok: "cat_ok buf fd s"
  defines "data \<equiv> take 1024 (rest_of fd s)"
  shows "\<exists>t. ece391_read (kernel_calls l keys ticks ex) fd buf 1024 s = Some (int (length data), t) \<and> cat_ok buf fd t
     \<and> rest_of fd t = drop 1024 (rest_of fd s) \<and> abs_screen t = abs_screen s \<and> read_bytes (mem t) buf (length data) = data"
proof -
  let ?d = "fd_at fd s"
  let ?ino = "inode_num ?d" and ?pos = "file_pos ?d"
  let ?v = "s\<lparr>mem := write_bytes (mem s) buf data\<rparr>"
  let ?u = "set_fd (get_pcb s) (nat fd) (\<lambda>d. d\<lparr>file_pos := file_pos d + word_of_nat (length data)\<rparr>) ?v"
  let ?t = "sti (cli ?u)"
  have fd: "2 \<le> fd" "fd < 8" and d: "flags ?d = 1" "descriptor_op_ptr ?d = file_table" and files: "files_ok buf ?ino s"
    and pos: "unat ?pos \<le> unat (file_size s (mem s) ?ino)" and std: "stdout_ok buf s"
    using ok by (simp_all add: cat_ok_def)
  have wf: "fs_wf s (mem s)" "inode_wf s (mem s) ?ino" and out: "outside_image s (mem s) buf 1024" using files by (simp_all add: files_ok_def)
  have fds: "fds_ok s" "buf \<noteq> 0" "disjoint_regions buf 1024 VIDEO 4000" "cursor_ok s" using std by (simp_all add: stdout_ok_def)
  have small: "unat (file_size s (mem s) ?ino) \<le> 4190208" using wf(2) by (simp add: inode_wf_def)
  have len: "length data \<le> 1024" "length data \<le> unat (file_size s (mem s) ?ino) - unat ?pos" by (simp_all add: data_def rest_of_def)
  have "outside_image s (mem s) buf (min (nat 1024) (unat (file_size s (mem s) ?ino) - unat ?pos))"
    using out disjoint_regions_mono by (fastforce simp: outside_image_def)
  moreover have "uint ?pos < 4294966272" using pos small unfolding uint_nat by linarith
  ultimately have "file_read fd buf 1024 s = Some (int (length data), ?u)"
    using file_read_reads [OF _ fd(2) d(1) _ fds(2) wf, of 1024] fd(1) d(2) pos small by (simp add: data_def rest_of_def Let_def)
  then have "sys_read l (keys s) (ticks s) fd buf 1024 s = Some (int (length data), ?u)"
    using fd d fds(2) by (simp add: sys_read_def)
  then have r: "ece391_read (kernel_calls l keys ticks ex) fd buf 1024 s = Some (int (length data), ?t)"
    using call_read [of l keys s ticks fd buf 1024 "int (length data)" ?u] fd by (simp add: kernel_calls_def)
  note dc = descriptor_call [OF fds(1), where fd = fd and f = "\<lambda>d. d\<lparr>file_pos := file_pos d + word_of_nat (length data)\<rparr>" and m = "write_bytes (mem s) buf data"]
  have fdt: "fd_at j ?t = (if j = fd then ?d\<lparr>file_pos := ?pos + word_of_nat (length data)\<rparr> else fd_at j s)" if "0 \<le> j" "j < 8" for j
    using dc(1) that fd by simp
  have t: "mem ?t = write_bytes (mem s) buf data" "same_devices s ?t" and fdok: "fds_ok ?t" using dc(2-4) fd by simp_all
  have keep: "mem ?t x = mem s x" if "\<not> in_region x buf 1024" for x
    unfolding t(1) by (rule write_bytes_outside) (use len(1) that in_region_mono [of x buf "length data" 1024] in auto)
  have fd1: "fd_at 1 ?t = fd_at 1 s" using fdt [of 1] fd by simp
  note fc = buffer_filled [OF files std out fds(3) keep t(2) fdok fd1]
  have pt: "file_pos (fd_at fd ?t) = ?pos + word_of_nat (length data)" "inode_num (fd_at fd ?t) = ?ino"
    "flags (fd_at fd ?t) = 1" "descriptor_op_ptr (fd_at fd ?t) = file_table"
    using fdt [of fd] fd d by simp_all
  have up: "unat (?pos + word_of_nat (length data)) = unat ?pos + length data"
    using len pos small by (subst unat_word_ariths(1)) (simp add: unat_of_nat32)
  have "cat_ok buf fd ?t" using fd pt fc pos len up by (simp add: cat_ok_def)
  moreover have "rest_of fd ?t = drop 1024 (rest_of fd s)"
  proof -
    have "rest_of fd ?t = drop (unat ?pos + length data) (file_contents s (mem s) ?ino)" using pt fc(2) up by (simp add: rest_of_def)
    also have "\<dots> = drop (length data) (rest_of fd s)" by (simp add: rest_of_def add.commute)
    also have "\<dots> = drop 1024 (rest_of fd s)" by (cases "length (rest_of fd s) \<le> 1024") (simp_all add: data_def)
    finally show ?thesis .
  qed
  moreover have "abs_screen ?t = abs_screen s" using fc(5) by simp
  moreover have "read_bytes (mem ?t) buf (length data) = data" using len(1) by (simp add: t(1) read_write_bytes)
  ultimately show ?thesis using r by blast
qed

lemma stdout_write:
  fixes s :: "'a process_scheme"
  assumes std: "stdout_ok buf s" and "n \<le> 1024"
  shows "\<exists>t. ece391_write (kernel_calls l keys ticks ex) 1 buf (int n) s = Some (int n, t) \<and> stdout_ok buf t
     \<and> abs_screen t = fold a_put (filter (\<lambda>b. b \<noteq> 0) (read_bytes (mem s) buf n)) (abs_screen s)
     \<and> g_b_block t = g_b_block s \<and> g_index_nodes t = g_index_nodes s \<and> g_directory_entries t = g_directory_entries s
     \<and> (\<forall>j. fd_at j t = fd_at j s) \<and> (\<forall>x. \<not> in_region x VIDEO 4000 \<longrightarrow> mem t x = mem s x)"
proof -
  let ?cs = "filter (\<lambda>b. b \<noteq> 0) (read_bytes (mem s) buf n)"
  let ?u = "put_string ?cs (cli s)"
  let ?t = "sti (cli (sti ?u))"
  have s: "fds_ok s" "flags (fd_at 1 s) \<noteq> 0" "descriptor_op_ptr (fd_at 1 s) = term_table" "foreground s" "cursor_ok s"
    "buffer_index (active s) \<noteq> 128" "buf \<noteq> 0" "disjoint_regions buf 1024 VIDEO 4000"
    using std by (simp_all add: stdout_ok_def)
  have "disjoint_regions buf (nat (int n)) VIDEO 4000" using s(8) assms(2) disjoint_regions_mono by fastforce
  then have "terminal_write 1 buf (int n) s = (int n, sti ?u)"
    using terminal_write_foreground [OF s(4,5) _ s(7) _ _ s(6), of "int n" 1] assms(2) by simp
  then have "sys_write 1 buf (int n) s = Some (int n, sti ?u)" using s by (simp add: sys_write_def)
  then have w: "ece391_write (kernel_calls l keys ticks ex) 1 buf (int n) s = Some (int n, ?t)"
    using call_write [of 1 buf "int n" s "int n" "sti ?u"] assms(2) by (simp add: kernel_calls_def)
  have cs: "cursor_ok (cli s)" "abs_screen (cli s) = abs_screen s" using s(5) by (simp_all add: cursor_ok_def abs_screen_def cli_def)
  have q: "console.more ?u = console.more s" "mem ?t = mem ?u" "screen_x ?t = screen_x ?u" "screen_y ?t = screen_y ?u"
    by (simp_all add: frame_simps cli_def sti_def)
  have mt: "console.more ?t = console.more s" using q(1) by (simp add: sti_def cli_def)
  have f: "g_b_block ?t = g_b_block s" "g_index_nodes ?t = g_index_nodes s" "g_directory_entries ?t = g_directory_entries s"
    "active_schedule ?t = active_schedule s" "terminal ?t = terminal s" "active_terminal ?t = active_terminal s"
    "pcbs ?t = pcbs s" "esp ?t = esp s" "oob_fd ?t = oob_fd s"
    using mt by (cases s; cases ?t; simp)+
  have fd: "fd_at j ?t = fd_at j s" "fds_ok ?t" for j using s(1) by (simp_all add: fd_at_def fds_ok_def get_pcb_def f)
  have keep: "mem ?t x = mem s x" if "\<not> in_region x VIDEO 4000" for x
    using put_string_frame [OF cs(1) that] unfolding q(2) by (simp add: cli_def)
  have co: "cursor_ok ?t" using put_string_cursor_ok [OF cs(1)] q(3,4) by (simp add: cursor_ok_def)
  have "stdout_ok buf ?t" by (rule stdout_ok_cong [OF std fd(2) fd(1) f(4-6) co])
  moreover have "abs_screen ?t = fold a_put ?cs (abs_screen s)"
    using put_string_abs [OF cs(1), of ?cs] cs(2) q(2-4) by (simp add: abs_screen_def)
  ultimately show ?thesis using w f(1-3) fd(1) keep by blast
qed

lemma kernel_writes:
  fixes s :: "'a process_scheme"
  assumes ok: "cat_ok buf fd s" and "n \<le> 1024"
  shows "\<exists>t. ece391_write (kernel_calls l keys ticks ex) 1 buf (int n) s = Some (int n, t) \<and> cat_ok buf fd t
     \<and> rest_of fd t = rest_of fd s \<and> abs_screen t = fold a_put (filter (\<lambda>b. b \<noteq> 0) (read_bytes (mem s) buf n)) (abs_screen s)"
proof -
  have std: "stdout_ok buf s" and files: "files_ok buf (inode_num (fd_at fd s)) s" using ok by (simp_all add: cat_ok_def)
  obtain t where w: "ece391_write (kernel_calls l keys ticks ex) 1 buf (int n) s = Some (int n, t)" and so: "stdout_ok buf t"
    and a: "abs_screen t = fold a_put (filter (\<lambda>b. b \<noteq> 0) (read_bytes (mem s) buf n)) (abs_screen s)"
    and f: "g_b_block t = g_b_block s" "g_index_nodes t = g_index_nodes s" "g_directory_entries t = g_directory_entries s"
    and fd: "\<And>j. fd_at j t = fd_at j s" and keep: "\<And>x. \<not> in_region x VIDEO 4000 \<Longrightarrow> mem t x = mem s x"
    using stdout_write [OF std assms(2)] by blast
  have "outside_image s (mem s) VIDEO 4000" using files by (simp add: files_ok_def)
  then have "same_image s (mem s) (mem t)" using keep same_image_refl by (rule same_image_outside)
  note fc = files_ok_cong [OF files f this]
  have "cat_ok buf fd t" using ok fc so by (simp add: cat_ok_def fd)
  moreover have "rest_of fd t = rest_of fd s" using fc(2) by (simp add: rest_of_def fd)
  ultimately show ?thesis using w a by blast
qed

interpretation cat_stream: stream_service "kernel_calls l keys ticks ex" buf "cat_ok buf fd" "rest_of fd" abs_screen fd
  for l keys ticks ex buf fd
proof
  fix s :: "'a process_scheme" and n :: nat
  assume "cat_ok buf fd s" "n \<le> 1024"
  from kernel_writes [OF this] show "\<exists>t. ece391_write (kernel_calls l keys ticks ex) 1 buf (int n) s = Some (int n, t) \<and> cat_ok buf fd t
      \<and> rest_of fd t = rest_of fd s
      \<and> abs_screen t = fold a_put (filter (\<lambda>b. b \<noteq> 0) (read_bytes (user_mem (kernel_calls l keys ticks ex) s) buf n)) (abs_screen s)"
    by (simp add: kernel_calls_def)
next
  fix s :: "'a process_scheme"
  assume "cat_ok buf fd s"
  from kernel_reads [OF this] show "\<exists>t. ece391_read (kernel_calls l keys ticks ex) fd buf 1024 s = Some (int (length (take 1024 (rest_of fd s))), t)
      \<and> cat_ok buf fd t \<and> rest_of fd t = drop 1024 (rest_of fd s) \<and> abs_screen t = abs_screen s
      \<and> read_bytes (user_mem (kernel_calls l keys ticks ex) t) buf (length (take 1024 (rest_of fd s))) = take 1024 (rest_of fd s)"
    by (simp add: kernel_calls_def)
qed

lemma kernel_getargs:
  fixes s :: "'a process_scheme" and buf :: u32
  assumes args: "arguments (this_pcb s) = cs @ 0 # pad" "cs \<noteq> []" "0 \<notin> set cs" "length (arguments (this_pcb s)) \<le> 1024"
  defines "t \<equiv> sti (cli (s\<lparr>mem := write_bytes (mem s) buf (arguments (this_pcb s))\<rparr>))"
  shows "ece391_getargs (kernel_calls l keys ticks ex) buf 1024 s = Some (0, t)" and "cstring (mem t) buf cs"
    and "\<not> in_region x buf 1024 \<Longrightarrow> mem t x = mem s x"
proof -
  let ?a = "arguments (this_pcb s)"
  have "?a ! 0 \<noteq> 0" using args(1-3) by (cases cs) auto
  then show "ece391_getargs (kernel_calls l keys ticks ex) buf 1024 s = Some (0, t)"
    by (simp add: kernel_calls_def DO_CALL_def sys_call_interrupt_def getargs_def t_def)
  have m: "mem t = write_bytes (mem s) buf ?a" by (simp add: t_def sti_def cli_def)
  have "read_bytes (mem t) buf (length ?a) = ?a" unfolding m using args(4) by (intro read_write_bytes) simp
  then have "take (Suc (length cs)) (read_bytes (mem t) buf (length ?a)) = cs @ [0]" by (simp add: args(1))
  then have "read_bytes (mem t) buf (Suc (length cs)) = cs @ [0]" using args(1) by (simp add: take_read_bytes)
  then show "cstring (mem t) buf cs" using args(3) by (simp add: cstring_def)
  show "mem t x = mem s x" if "\<not> in_region x buf 1024"
    unfolding m by (rule write_bytes_outside) (use args(4) that in_region_mono [of x buf "length ?a" 1024] in auto)
qed

lemma sys_open_entry:
  fixes s :: "'a process_scheme"
  assumes ok: "fds_ok s" and name: "cstring (mem s) buf cs" "cs \<noteq> []" "length cs \<le> 32" "buf \<noteq> 0"
    and l: "l_dentry l \<noteq> 0" "disjoint_regions (l_dentry l) 64 (g_directory_entries s) 4096"
    and slot: "slot_of s (mem s) cs = Some i"
    and tbl: "table_of_type (dentry_type (mem s) (dentry_addr s (word_of_nat i))) (dentry_inode_num (mem s) (dentry_addr s (word_of_nat i)))
      = Some (tbl, ino, pos)" "tbl = file_table \<or> tbl = directory_table"
  shows "\<exists>m. (\<forall>x. \<not> in_region x (l_dentry l) 64 \<longrightarrow> m x = mem s x)
     \<and> sys_open l buf s = (case free_fd (this_pcb s) of None \<Rightarrow> Some (-1, s\<lparr>mem := m\<rparr>)
          | Some loc \<Rightarrow> Some (int loc, populate_pcb (get_pcb s) loc 1 ino tbl pos (s\<lparr>mem := m\<rparr>)))"
proof -
  have fd: "find_dentry s buf = Some i" using find_dentry_slot [OF name(1,3)] slot by simp
  obtain m where m: "read_dentry_by_name buf (l_dentry l) s = Some (0, s\<lparr>mem := m\<rparr>)"
    and copy: "read_bytes m (l_dentry l) 64 = read_bytes (mem s) (dentry_addr s (word_of_nat i)) 64"
    and keep: "\<And>x. \<not> in_region x (l_dentry l) 64 \<Longrightarrow> m x = mem s x"
    using read_dentry_by_name_first [OF name(1,3,4) l fd] by blast
  let ?v = "s\<lparr>mem := m\<rparr>"
  have v: "fds_ok ?v" "get_pcb ?v = get_pcb s" using ok by (simp_all add: fds_ok_def get_pcb_def)
  have "mem s buf \<noteq> 0" using cstring_nonzero [OF name(1), of 0] name(2) by simp
  then have front: "sys_open l buf s = (case free_fd (this_pcb s) of None \<Rightarrow> Some (-1, ?v)
      | Some loc \<Rightarrow> do { let s = populate_pcb (get_pcb s) loc 1 ino tbl pos ?v;
                  (_, s) \<leftarrow> table_open l (descriptor_op_ptr (fd_at (int loc) s)) buf s;
                  Some (int loc, s) })"
    using m name(4) dentry_copy [OF copy] tbl(1) v(2) by (cases "free_fd (this_pcb s)") (simp_all add: sys_open_def)
  have "descriptor_op_ptr (fd_at (int loc) (populate_pcb (get_pcb s) loc 1 ino tbl pos ?v)) = tbl" if "free_fd (this_pcb s) = Some loc" for loc
    using fd_at_populate [OF v(1), of loc loc ino tbl pos] v(2) that ok by (simp add: fds_ok_def free_fd_Some)
  then have "sys_open l buf s = (case free_fd (this_pcb s) of None \<Rightarrow> Some (-1, ?v)
      | Some loc \<Rightarrow> Some (int loc, populate_pcb (get_pcb s) loc 1 ino tbl pos ?v))"
    unfolding front using tbl(2) by (auto simp: file_open_def directory_open_def split: option.splits)
  then show ?thesis using keep by blast
qed

lemma kernel_opens_table:
  fixes s :: "'a process_scheme"
  assumes ok: "fds_ok s" and name: "cstring (mem s) buf cs" "cs \<noteq> []" "length cs \<le> 32" "buf \<noteq> 0"
    and l: "l_dentry l \<noteq> 0" "disjoint_regions (l_dentry l) 64 (g_directory_entries s) 4096"
    and slot: "slot_of s (mem s) cs = Some i"
    and tbl: "table_of_type (dentry_type (mem s) (dentry_addr s (word_of_nat i))) (dentry_inode_num (mem s) (dentry_addr s (word_of_nat i)))
      = Some (tbl, ino, pos)" "tbl = file_table \<or> tbl = directory_table"
    and free: "free_fd (this_pcb s) = Some loc"
  shows "\<exists>t. ece391_open (kernel_calls l keys ticks ex) buf s = Some (int loc, t) \<and> same_devices s t
     \<and> (\<forall>x. \<not> in_region x (l_dentry l) 64 \<longrightarrow> mem t x = mem s x) \<and> fds_ok t
     \<and> (\<forall>j < 8. fd_at (int j) t = (if j = loc then \<lparr>descriptor_op_ptr = tbl, inode_num = ino, file_pos = pos, flags = 1\<rparr> else fd_at (int j) s))"
proof -
  obtain m where keep: "\<And>x. \<not> in_region x (l_dentry l) 64 \<Longrightarrow> m x = mem s x"
    and op: "sys_open l buf s = Some (int loc, populate_pcb (get_pcb s) loc 1 ino tbl pos (s\<lparr>mem := m\<rparr>))"
    using sys_open_entry [OF ok name l slot tbl] free by auto
  let ?v = "s\<lparr>mem := m\<rparr>"
  let ?u = "populate_pcb (get_pcb s) loc 1 ino tbl pos ?v"
  have loc: "loc < 8" using free ok by (simp add: fds_ok_def free_fd_Some)
  have v: "fds_ok ?v" "get_pcb ?v = get_pcb s" "fd_at j ?v = fd_at j s" for j using ok by (simp_all add: fds_ok_def get_pcb_def fd_at_def)
  have at: "fd_at (int j) ?u = (if j = loc then \<lparr>descriptor_op_ptr = tbl, inode_num = ino, file_pos = pos, flags = 1\<rparr> else fd_at (int j) s)"
    if "j < 8" for j using fd_at_populate [OF v(1) loc that, of ino tbl pos] by (simp add: v)
  have "ece391_open (kernel_calls l keys ticks ex) buf s = Some (int loc, sti (cli ?u))"
    using op by (simp add: kernel_calls_def DO_CALL_def sys_call_interrupt_def returning_def)
  moreover have "same_devices s (sti (cli ?u))" "mem (sti (cli ?u)) = m"
    by (simp_all add: same_devices_def populate_pcb_def set_fd_def sti_def cli_def)
  moreover have "fd_at j (sti (cli ?u)) = fd_at j ?u" "fds_ok (sti (cli ?u)) = fds_ok ?u" for j
    by (simp_all add: fd_at_def get_pcb_def fds_ok_def sti_def cli_def)
  moreover have "fds_ok ?u" using fds.claim_ok [OF v(1) loc, of ino tbl pos] v(2) by simp
  ultimately show ?thesis using keep at by simp
qed

section \<open>Properties\<close>

text \<open>
  C6. The program \<open>cat\<close> on this kernel. When its argument names a regular file, \<open>main\<close> of \<open>cat\<close>, making its system calls through the trap gate, ends with
  status 0, and what it has added to the screen is exactly the contents of the file, byte by byte, without the NUL bytes that
  \<open>terminal_write\<close> leaves out.
\<close>

theorem cat_prints_file:
  fixes s :: "'a process_scheme"
  assumes args: "arguments (this_pcb s) = cs @ 0 # pad" "cs \<noteq> []" "0 \<notin> set cs" "length cs \<le> 32" "length (cs @ 0 # pad) \<le> 1024"
    and slot: "slot_of s (mem s) cs = Some i" and type: "dentry_type (mem s) (dentry_addr s (word_of_nat i)) = 2"
    and files: "files_ok (p_buf p) (dentry_inode_num (mem s) (dentry_addr s (word_of_nat i))) s" and std: "stdout_ok (p_buf p) s"
    and l: "l_dentry l \<noteq> 0" "outside_image s (mem s) (l_dentry l) 64" "disjoint_regions (l_dentry l) 64 VIDEO 4000"
    and used: "fd_used s 0" and free: "free_fd (this_pcb s) = Some loc"
  shows "\<exists>t. cat_main (kernel_calls l keys ticks ex) p s = Some (0, t)
     \<and> abs_screen t = fold a_put (filter (\<lambda>b. b \<noteq> 0)
         (file_contents s (mem s) (dentry_inode_num (mem s) (dentry_addr s (word_of_nat i))))) (abs_screen s)"
proof -
  let ?ino = "dentry_inode_num (mem s) (dentry_addr s (word_of_nat i))" and ?buf = "p_buf p" and ?c = "kernel_calls l keys ticks ex"
  define u where "u = sti (cli (s\<lparr>mem := write_bytes (mem s) ?buf (arguments (this_pcb s))\<rparr>))"
  have len: "length (arguments (this_pcb s)) \<le> 1024" using args(1,5) by simp
  note ga = kernel_getargs [OF args(1-3) len, where buf = ?buf, folded u_def]
  have wf: "fs_wf s (mem s)" "inode_wf s (mem s) ?ino" and out: "outside_image s (mem s) ?buf 1024" using files by (simp_all add: files_ok_def)
  have sd: "fds_ok s" "fd_used s 1" "?buf \<noteq> 0" "disjoint_regions ?buf 1024 VIDEO 4000" using std by (simp_all add: stdout_ok_def fd_used_def fd_at_def)
  have ud: "same_devices s u" "this_pcb u = this_pcb s" "fds_ok u" "fd_at j u = fd_at j s" for j
    using sd(1) by (simp_all add: u_def same_devices_def get_pcb_def fds_ok_def fd_at_def sti_def cli_def)
  have keep: "mem u x = mem s x" if "\<not> in_region x ?buf 1024" for x using ga(3) that by simp
  note fu = buffer_filled [OF files std out sd(4) keep ud(1,3) ud(4)]
  have same: "same_image s (mem s) (mem u)" using keep same_image_refl by (rule same_image_outside [OF out])
  have nz: "0 < num_index_nodes s (mem s)" using wf(2) by (auto simp: inode_wf_def word_less_nat_alt)
  have g: "g_b_block u = g_b_block s" "g_index_nodes u = g_index_nodes s" "g_directory_entries u = g_directory_entries s"
    using ud(1) by (simp_all add: same_devices_def)
  note c = fs_fields_cong [OF g]
  have d: "slot_of u (mem u) cs = Some i" "read_bytes (mem u) (dentry_addr u (word_of_nat i)) 64 = read_bytes (mem s) (dentry_addr s (word_of_nat i)) 64"
    unfolding c using slot_of_same [OF wf(1) same nz] slot same_image_dentry(1) [OF wf(1) same nz slot_of_less [OF slot]]
    by (simp_all add: dentry_addr_def g)
  note dc = dentry_copy [OF d(2)]
  have outu: "outside_image u (mem u) (l_dentry l) 64"
    using l(2) same_image_header(3) [OF wf(1) same] unfolding c by (simp add: outside_image_def)
  have "8192 \<le> image_len s (mem s)" using nz by (simp add: image_len_def word_less_nat_alt)
  then have dir: "disjoint_regions (l_dentry l) 64 (g_directory_entries u) 4096"
    using l(2) wf(1) disjoint_regions_sub [of "g_b_block s" "image_len s (mem s)" "l_dentry l" 64 64 4096]
    by (simp add: outside_image_def fs_wf_def g disjoint_regions_sym)
  have fr: "free_fd (this_pcb u) = Some loc" using free ud(2) by simp
  have tbl: "table_of_type (dentry_type (mem u) (dentry_addr u (word_of_nat i))) (dentry_inode_num (mem u) (dentry_addr u (word_of_nat i)))
      = Some (file_table, ?ino, 0)" using type unfolding dc by (simp add: table_of_type_def)
  obtain v where v: "ece391_open ?c ?buf u = Some (int loc, v)" "same_devices u v"
    "\<And>x. \<not> in_region x (l_dentry l) 64 \<Longrightarrow> mem v x = mem u x" "fds_ok v"
    and at: "\<And>j. j < 8 \<Longrightarrow> fd_at (int j) v = (if j = loc then \<lparr>descriptor_op_ptr = file_table, inode_num = ?ino, file_pos = 0, flags = 1\<rparr>
      else fd_at (int j) s)"
    using kernel_opens_table [OF ud(3) ga(2) args(2,4) sd(3) l(1) dir d(1) tbl _ fr, where keys = keys and ticks = ticks and ex = ex] unfolding ud(4) by blast
  have "loc < 8" "\<not> fd_used s loc" using fds.first_free_Some [OF sd(1)] free by blast+
  then have loc: "loc < 8" "2 \<le> loc" using sd(2) used by (cases "loc = 0 \<or> loc = 1"; auto)+
  have fd1: "fd_at 1 v = fd_at 1 u" using at [of 1] loc ud(4) by simp
  note fv = buffer_filled [OF fu(1,4) outu l(3) v(3,2,4) fd1]
  have "cat_ok ?buf (int loc) v" using loc at [OF loc(1)] fv(1,4) by (simp add: cat_ok_def)
  from cat_stream.cat_loop_copies [OF this refl] obtain t where t: "cat_loop ?c p (int loc) v = Some (0, t)"
    "abs_screen t = fold a_put (filter (\<lambda>b. b \<noteq> 0) (rest_of (int loc) v)) (abs_screen v)" by blast
  have "rest_of (int loc) v = file_contents s (mem s) ?ino" using at [OF loc(1)] fv(2) fu(2) by (simp add: rest_of_def)
  moreover have "cat_main ?c p s = Some (0, t)" using ga(1) v(1) t(1) by (simp add: cat_main_def)
  ultimately show ?thesis using t(2) fv(5) fu(5) by auto
qed

text \<open>The example image with \<open>p\<close> as the argument of the process.\<close>

definition cat_example :: process where
  "cat_example = exec_example\<lparr>pcbs := \<lambda>_. pcb_example\<lparr>arguments := bytes ''p'' @ replicate 31 0\<rparr>\<rparr>"

definition cat_layout :: layout where
  "cat_layout = \<lparr>p_buf = 0x8100000, p_literal = \<lambda>_. 0x8200000\<rparr>"

lemma cat_example_sel:
  "g_b_block cat_example = 0x100000" "g_index_nodes cat_example = 0x101000" "g_directory_entries cat_example = 0x100040"
  "mem cat_example = exec_example_mem" "pcbs cat_example = (\<lambda>_. pcb_example\<lparr>arguments := bytes ''p'' @ replicate 31 0\<rparr>)"
  "terminal cat_example = [terminal_example 0, terminal_example 1, terminal_example 2]" "active_terminal cat_example = 0"
  "active_schedule cat_example = \<lparr>current_running_process_count = 1, next_terminal_in_schedule = 2, schedule_activated = 1\<rparr>"
  "screen_x cat_example = 0" "screen_y cat_example = 0" "get_pcb cat_example = 0x7FE000"
  by (simp_all add: get_pcb_def pic.defs pic_example_def cat_example_def exec_example_sel exec_example_def process_example_def kbd.defs kbd_example_def tty.defs tty_example_def
      fs.defs fs_example_def paging.defs paging_example_def rtc.defs rtc_example_def console_example_def)

lemma cat_example_image:
  "file_size cat_example = file_size exec_example" "file_contents cat_example = file_contents exec_example"
  "fs_wf cat_example = fs_wf exec_example" "inode_wf cat_example = inode_wf exec_example" "image_len cat_example = image_len exec_example"
  "outside_image cat_example = outside_image exec_example" "slot_of cat_example = slot_of exec_example"
  "dentry_addr cat_example = dentry_addr exec_example"
  using fs_fields_cong [of cat_example exec_example] by (simp_all add: cat_example_sel exec_example_sel dentry_addr_def fun_eq_iff)

lemma cat_example_ok:
  "files_ok 0x8100000 0 cat_example" "stdout_ok 0x8100000 cat_example"
  using exec_example_wf
  by (simp_all add: files_ok_def stdout_ok_def cat_example_image cat_example_sel kernel_image_def program_wf_def outside_image_def
      disjoint_regions_def exec_example_image exec_example_sel fds_ok_def fd_at_def pcb_example_def stdio_fd_def foreground_def cursor_ok_def
      term_at_def terminal_example_def)

theorem cat_prints_file_witness:
  "\<exists>t. cat_main (kernel_calls locals_example (\<lambda>_. []) (\<lambda>_. []) (\<lambda>_ _. None)) cat_layout cat_example = Some (0, t)
     \<and> abs_screen t = fold a_put [0x7F, 0x45, 0x4C, 0x46, 0x81, 4, 8] (abs_screen cat_example)"
proof -
  have b: "p_buf cat_layout = 0x8100000" by (simp add: cat_layout_def)
  have ino: "dentry_inode_num (mem cat_example) (dentry_addr cat_example (word_of_nat 0)) = 0"
    using exec_example_image by (simp add: cat_example_image cat_example_sel)
  have "dentry_type exec_example_mem (dentry_addr exec_example 0) = 2"
    unfolding dentry_addr_def exec_example_sel by code_simp
  then have type: "dentry_type (mem cat_example) (dentry_addr cat_example (word_of_nat 0)) = 2"
    by (simp add: cat_example_image cat_example_sel)
  have slot: "slot_of cat_example (mem cat_example) (bytes ''p'') = Some 0"
    using exec_example_slot by (simp add: cat_example_image cat_example_sel)
  have l: "l_dentry locals_example \<noteq> 0" "outside_image cat_example (mem cat_example) (l_dentry locals_example) 64"
    "disjoint_regions (l_dentry locals_example) 64 VIDEO 4000"
    by (simp_all add: locals_example_def outside_image_def disjoint_regions_def cat_example_image cat_example_sel exec_example_image exec_example_sel)
  have free: "free_fd (this_pcb cat_example) = Some 3" "fd_used cat_example 0"
    by (simp_all add: free_fd_def scan_def fd_used_def cat_example_sel pcb_example_def stdio_fd_def closed_fd_def)
  have c: "filter (\<lambda>b. b \<noteq> 0) (file_contents exec_example exec_example_mem 0) = [0x7F, 0x45, 0x4C, 0x46, 0x81, 4, 8]"
    unfolding exec_example_contents by code_simp
  have "byte CHR ''p'' \<noteq> 0" by code_simp
  moreover have "arguments (this_pcb cat_example) = bytes ''p'' @ 0 # replicate 30 0" by (simp add: cat_example_sel numeral_eq_Suc)
  note cat_prints_file [OF this _ _ _ _ slot type _ _ l free(2,1), where p = cat_layout and keys = "\<lambda>_. []" and ticks = "\<lambda>_. []" and ex = "\<lambda>_ _. None"]
  ultimately show ?thesis using cat_example_ok unfolding ino b by (simp add: cat_example_image cat_example_sel c)
qed

end
