(* ===== verification/User_Tests.thy ===== *)
theory User_Tests
  imports User_Programs
begin

text \<open>
  The error tests of \<^verbatim>\<open>src/syscalls/ece391syserr.c\<close>, a user program that makes system calls with bad arguments and expects -1. What the tests rely on is the locale
  \<open>rejecting_calls\<close>; the main result interprets it on the kernel, so that every test of the program passes.
\<close>

section \<open>The program\<close>

abbreviation NEG_FD :: int where "NEG_FD \<equiv> -1073741823"
abbreviation BIG_FD :: int where "BIG_FD \<equiv> 1073741823"

text \<open>The registers besides \<open>eax\<close> hold what the compiler left there.\<close>

definition call_sys :: "'s calls \<Rightarrow> u32 \<times> u32 \<times> u32 \<Rightarrow> int \<Rightarrow> 's \<Rightarrow> (int \<times> 's) option" where
  "call_sys c regs num s = (case regs of (ebx, ecx, edx) \<Rightarrow> int_0x80 c (word_of_int num) ebx ecx edx s)"

text \<open>A call that must return -1: otherwise a message is printed and \<open>fail\<close> becomes 2.\<close>

definition expect_error :: "'s calls \<Rightarrow> layout \<Rightarrow> string \<Rightarrow> ('s \<Rightarrow> (int \<times> 's) option) \<Rightarrow> int \<times> 's \<Rightarrow> (int \<times> 's) option" where
  "expect_error c p msg call st = (case st of (fail, s) \<Rightarrow> do {
     (r, s) \<leftarrow> call s;
     if r \<noteq> -1 then do { s \<leftarrow> ece391_fdputs c 1 (p_literal p msg) s; Some (2, s) } else Some (fail, s)
   })"

definition verdict :: "'s calls \<Rightarrow> layout \<Rightarrow> string \<Rightarrow> int \<times> 's \<Rightarrow> (int \<times> 's) option" where
  "verdict c p name st = (case st of (fail, s) \<Rightarrow> do {
     s \<leftarrow> ece391_fdputs c 1 (p_literal p (name @ (if fail \<noteq> 0 then '': FAIL'' else '': PASS'') @ nl)) s;
     Some (fail, s)
   })"

definition err_fd :: "'s calls \<Rightarrow> layout \<Rightarrow> int \<Rightarrow> string \<Rightarrow> 's \<Rightarrow> (int \<times> 's) option" where
  "err_fd c p fd name s = do {
     st \<leftarrow> expect_error c p (''read fail'' @ nl) (ece391_read c fd (p_buf p) 31) (0, s);
     st \<leftarrow> expect_error c p (''write fail'' @ nl) (ece391_write c fd (p_buf p) 31) st;
     st \<leftarrow> expect_error c p (''close fail'' @ nl) (ece391_close c fd) st;
     verdict c p name st
   }"

definition err_neg_fd :: "'s calls \<Rightarrow> layout \<Rightarrow> 's \<Rightarrow> (int \<times> 's) option" where
  "err_neg_fd c p s = err_fd c p NEG_FD ''err_neg_fd'' s"

definition err_big_fd :: "'s calls \<Rightarrow> layout \<Rightarrow> 's \<Rightarrow> (int \<times> 's) option" where
  "err_big_fd c p s = err_fd c p BIG_FD ''err_big_fd'' s"

fun open_times :: "'s calls \<Rightarrow> layout \<Rightarrow> nat \<Rightarrow> int \<times> 's \<Rightarrow> (int \<times> 's) option" where
  "open_times c p 0 st = Some st"
| "open_times c p (Suc n) (cnt, s) = do {
     (r, s) \<leftarrow> ece391_open c (p_literal p ''.'') s;
     open_times c p n (if r = -1 then cnt + 1 else cnt, s)
   }"

fun close_each :: "'s calls \<Rightarrow> int list \<Rightarrow> 's \<Rightarrow> 's option" where
  "close_each c [] s = Some s"
| "close_each c (i # is) s = do { (_, s) \<leftarrow> ece391_close c i s; close_each c is s }"

definition err_open_lots :: "'s calls \<Rightarrow> layout \<Rightarrow> 's \<Rightarrow> (int \<times> 's) option" where
  "err_open_lots c p s = do {
     (cnt, s) \<leftarrow> open_times c p 7 (0, s);
     s \<leftarrow> close_each c [2..7] s;
     verdict c p ''err_open_lots'' (if cnt = 1 then 0 else 2, s)
   }"

definition err_open :: "'s calls \<Rightarrow> layout \<Rightarrow> 's \<Rightarrow> (int \<times> 's) option" where
  "err_open c p s = do {
     st \<leftarrow> expect_error c p ([CHR 0x27] @ ''helloo'' @ [CHR 0x27] @ '' fail'' @ nl) (ece391_open c (p_literal p ''helloo'')) (0, s);
     st \<leftarrow> expect_error c p ([CHR 0x27] @ ''shel'' @ [CHR 0x27] @ '' fail'' @ nl) (ece391_open c (p_literal p ''shel'')) st;
     st \<leftarrow> expect_error c p (''empty string fail'' @ nl) (ece391_open c (p_literal p '''')) st;
     verdict c p ''err_open'' st
   }"

fun expect_errors :: "'s calls \<Rightarrow> layout \<Rightarrow> string \<Rightarrow> (int \<Rightarrow> 's \<Rightarrow> (int \<times> 's) option) \<Rightarrow> int list \<Rightarrow> int \<times> 's \<Rightarrow> (int \<times> 's) option" where
  "expect_errors c p msg call [] st = Some st"
| "expect_errors c p msg call (i # is) st = do { st \<leftarrow> expect_error c p msg (call i) st; expect_errors c p msg call is st }"

definition err_unopened :: "'s calls \<Rightarrow> layout \<Rightarrow> 's \<Rightarrow> (int \<times> 's) option" where
  "err_unopened c p s = do {
     st \<leftarrow> expect_errors c p (''close unopened or invalid fd fail'' @ nl) (ece391_close c) [0..7] (0, s);
     st \<leftarrow> expect_errors c p (''read from unopened fd fail'' @ nl) (\<lambda>i. ece391_read c i (p_buf p) 31) [2..7] st;
     st \<leftarrow> expect_errors c p (''write to unopened fd fail'' @ nl) (\<lambda>i. ece391_write c i (p_buf p) 31) [2..7] st;
     verdict c p ''err_unopened'' st
   }"

definition err_vidmap :: "'s calls \<Rightarrow> layout \<Rightarrow> 's \<Rightarrow> (int \<times> 's) option" where
  "err_vidmap c p s = do {
     st \<leftarrow> expect_error c p (''Null pointer fail'' @ nl) (ece391_vidmap c 0) (0, s);
     st \<leftarrow> expect_error c p (''Kernel pointer fail fail'' @ nl) (ece391_vidmap c 0x400000) st;
     verdict c p ''err_vidmap'' st
   }"

definition err_stdin_out :: "'s calls \<Rightarrow> layout \<Rightarrow> 's \<Rightarrow> (int \<times> 's) option" where
  "err_stdin_out c p s = do {
     st \<leftarrow> expect_error c p (''write to stdin fail'' @ nl) (ece391_write c 0 (p_buf p) 31) (0, s);
     st \<leftarrow> expect_error c p (''read from stdout fail'' @ nl) (ece391_read c 1 (p_buf p) 31) st;
     verdict c p ''err_stdin_out'' st
   }"

definition err_syscall_num :: "'s calls \<Rightarrow> layout \<Rightarrow> u32 \<times> u32 \<times> u32 \<Rightarrow> 's \<Rightarrow> (int \<times> 's) option" where
  "err_syscall_num c p regs s = do {
     st \<leftarrow> expect_error c p (''syscall 0 fail'' @ nl) (call_sys c regs 1073741823) (0, s);
     st \<leftarrow> expect_error c p (''big num syscall fail'' @ nl) (call_sys c regs (-1073741823)) st;
     st \<leftarrow> expect_error c p (''neg num syscall fail'' @ nl) (call_sys c regs 0) st;
     verdict c p ''err_syscall_num'' st
   }"

text \<open>The body of the \<open>switch\<close>: the tests in their order, run one by one when the choice is 0.\<close>

definition syserr_tests :: "'s calls \<Rightarrow> layout \<Rightarrow> u32 \<times> u32 \<times> u32 \<Rightarrow> ('s \<Rightarrow> (int \<times> 's) option) list" where
  "syserr_tests c p regs = [err_neg_fd c p, err_big_fd c p, err_open_lots c p, err_open c p, err_unopened c p, err_vidmap c p,
     err_stdin_out c p, err_syscall_num c p regs]"

fun sum_fails :: "('s \<Rightarrow> (int \<times> 's) option) list \<Rightarrow> int \<times> 's \<Rightarrow> (int \<times> 's) option" where
  "sum_fails [] st = Some st"
| "sum_fails (f # fs) (fail, s) = do { (r, s) \<leftarrow> f s; sum_fails fs (fail + r, s) }"

definition syserr_select :: "'s calls \<Rightarrow> layout \<Rightarrow> u32 \<times> u32 \<times> u32 \<Rightarrow> int \<Rightarrow> 's \<Rightarrow> (int \<times> 's) option" where
  "syserr_select c p regs sel s =
     (if sel = 0 then do {
        (fail, s) \<leftarrow> sum_fails (syserr_tests c p regs) (0, s);
        s \<leftarrow> ece391_fdputs c 1 (p_literal p (nl @ (if fail \<noteq> 0 then ''Overall Tests: FAIL'' else ''Overall Tests: PASS'') @ nl)) s;
        Some (fail, s)
      }
      else if 1 \<le> sel \<and> sel \<le> 8 then (syserr_tests c p regs ! nat (sel - 1)) s
      else give_up c p ''Invalid test number. Choose from tests 1-8 or 0'' 0 s)"

definition syserr_main :: "'s calls \<Rightarrow> layout \<Rightarrow> u32 \<times> u32 \<times> u32 \<Rightarrow> 's \<Rightarrow> (int \<times> 's) option" where
  "syserr_main c p regs s = do {
     s \<leftarrow> ece391_fdputs c 1 (p_literal p ''Choose from tests 1-8. 0 to run all: '') s;
     (cnt, s) \<leftarrow> ece391_read c 0 (p_buf p) 127 s;
     if cnt = -1 then give_up c p (''Can't read test #'' @ nl) 2 s
     else syserr_select c p regs (uint (user_mem c s (p_buf p)) - 48) s
   }"

section \<open>What the tests rely on\<close>

text \<open>
  The state is good with the descriptors \<open>D\<close> open besides the standard ones. Output keeps it; bad calls return -1 and keep it; opening the directory takes the lowest free
  descriptor; closing an open one frees it.
\<close>

definition passed :: "string \<Rightarrow> string" where
  "passed name = name @ '': PASS'' @ nl"

definition pass_messages :: "string list" where
  "pass_messages = (nl @ ''Overall Tests: PASS'' @ nl)
     # map passed [''err_neg_fd'', ''err_big_fd'', ''err_open_lots'', ''err_open'', ''err_unopened'', ''err_vidmap'', ''err_stdin_out'', ''err_syscall_num'']"

locale rejecting_calls =
  fixes c :: "'s calls" and p :: layout and ok :: "int set \<Rightarrow> 's \<Rightarrow> bool"
  assumes puts: "ok D s \<Longrightarrow> msg \<in> set pass_messages \<Longrightarrow> \<exists>t. ece391_fdputs c 1 (p_literal p msg) s = Some t \<and> ok D t"
    and read_rejected: "ok D s \<Longrightarrow> fd \<notin> D \<Longrightarrow> fd \<noteq> 0 \<Longrightarrow> \<bar>fd\<bar> < 2147483648 \<Longrightarrow> \<exists>t. ece391_read c fd (p_buf p) 31 s = Some (-1, t) \<and> ok D t"
    and write_rejected: "ok D s \<Longrightarrow> fd \<notin> D \<Longrightarrow> fd \<noteq> 1 \<Longrightarrow> \<bar>fd\<bar> < 2147483648 \<Longrightarrow> \<exists>t. ece391_write c fd (p_buf p) 31 s = Some (-1, t) \<and> ok D t"
    and close_rejected: "ok D s \<Longrightarrow> fd \<notin> D \<Longrightarrow> \<bar>fd\<bar> < 2147483648 \<Longrightarrow> \<exists>t. ece391_close c fd s = Some (-1, t) \<and> ok D t"
    and closes: "ok D s \<Longrightarrow> fd \<in> D \<Longrightarrow> \<exists>t. ece391_close c fd s = Some (0, t) \<and> ok (D - {fd}) t"
    and opens: "ok {2..<k} s \<Longrightarrow> 2 \<le> k \<Longrightarrow> k < 8 \<Longrightarrow> \<exists>t. ece391_open c (p_literal p ''.'') s = Some (k, t) \<and> ok {2..<k + 1} t"
    and open_full: "ok {2..<8} s \<Longrightarrow> \<exists>t. ece391_open c (p_literal p ''.'') s = Some (-1, t) \<and> ok {2..<8} t"
    and open_rejected: "ok D s \<Longrightarrow> name \<in> {''helloo'', ''shel'', ''''} \<Longrightarrow> \<exists>t. ece391_open c (p_literal p name) s = Some (-1, t) \<and> ok D t"
    and vidmap_rejected: "ok D s \<Longrightarrow> a < 0x8000000 \<Longrightarrow> \<exists>t. ece391_vidmap c a s = Some (-1, t) \<and> ok D t"
    and number_rejected: "ok D s \<Longrightarrow> num < 1 \<or> 8 < num \<Longrightarrow> \<bar>num\<bar> < 2147483648
      \<Longrightarrow> \<exists>t. int_0x80 c (word_of_int num) ebx ecx edx s = Some (-1, t) \<and> ok D t"
begin

lemma expect_error_ok:
  assumes "ok D s" and "\<exists>t. call s = Some (-1, t) \<and> ok D t"
  shows "\<exists>t. expect_error c p msg call (0, s) = Some (0, t) \<and> ok D t"
  using assms by (auto simp: expect_error_def)

lemma verdict_ok: "ok D s \<Longrightarrow> passed name \<in> set pass_messages \<Longrightarrow> \<exists>t. verdict c p name (0, s) = Some (0, t) \<and> ok D t"
  using puts [of D s "passed name"] by (auto simp: verdict_def passed_def)

lemma expect_errors_ok:
  assumes "ok D s" and "\<And>i s. i \<in> set is \<Longrightarrow> ok D s \<Longrightarrow> \<exists>t. call i s = Some (-1, t) \<and> ok D t"
  shows "\<exists>t. expect_errors c p msg call is (0, s) = Some (0, t) \<and> ok D t"
  using assms
proof (induction "is" arbitrary: s)
  case (Cons i "is")
  obtain t where "expect_error c p msg (call i) (0, s) = Some (0, t)" "ok D t"
    using expect_error_ok [of D s "call i" msg] Cons.prems by auto
  then show ?case using Cons.IH [of t] Cons.prems(2) by auto
qed auto

lemma open_times_ok:
  assumes "ok {2..<k} s" and "2 \<le> k" "k + int n \<le> 8"
  shows "\<exists>t. open_times c p n (cnt, s) = Some (cnt, t) \<and> ok {2..<k + int n} t"
  using assms
proof (induction n arbitrary: k s)
  case (Suc n)
  obtain t where "ece391_open c (p_literal p ''.'') s = Some (k, t)" "ok {2..<k + 1} t" using opens [of k s] Suc.prems by auto
  then show ?case using Suc.IH [of "k + 1" t] Suc.prems by (auto simp: add.assoc)
qed auto

lemma open_times_add: "open_times c p (m + n) st = Option.bind (open_times c p m st) (open_times c p n)"
proof (induction m arbitrary: st)
  case (Suc m)
  obtain cnt s where "st = (cnt, s)" by fastforce
  then show ?case by (cases "ece391_open c (p_literal p ''.'') s") (auto simp: Suc.IH)
qed simp

lemma close_each_ok: "ok D s \<Longrightarrow> set is \<subseteq> D \<Longrightarrow> distinct is \<Longrightarrow> \<exists>t. close_each c is s = Some t \<and> ok (D - set is) t"
proof (induction "is" arbitrary: D s)
  case (Cons i "is")
  obtain t where "ece391_close c i s = Some (0, t)" "ok (D - {i}) t" using closes [of D s i] Cons.prems by auto
  moreover have "D - insert i (set is) = D - {i} - set is" by auto
  ultimately show ?case using Cons.IH [of "D - {i}" t] Cons.prems by auto
qed auto

lemma err_open_lots_ok: 
  assumes "ok {} s" shows "\<exists>t. err_open_lots c p s = Some (0, t) \<and> ok {} t"
proof -
  obtain t where t: "open_times c p 6 (0, s) = Some (0, t)" "ok {2..<8} t" using open_times_ok [of 2 s 6 0] assms by auto
  obtain u where u: "ece391_open c (p_literal p ''.'') t = Some (-1, u)" "ok {2..<8} u" using open_full [OF t(2)] by blast
  have "open_times c p (6 + Suc 0) (0, s) = Some (1, u)" unfolding open_times_add t(1) using u by simp
  then have seven: "open_times c p 7 (0, s) = Some (1, u)" by simp
  obtain v where v: "close_each c [2..7] u = Some v" "ok ({2..<8} - set [2..7]) v" using close_each_ok [OF u(2), of "[2..7]"] by auto
  have "{2..<8 :: int} - set [2..7] = {}" by auto
  then have "ok {} v" using v(2) by (simp only:)
  moreover have "passed ''err_open_lots'' \<in> set pass_messages" by (simp add: pass_messages_def)
  ultimately show ?thesis unfolding err_open_lots_def seven bind.bind_lunit prod.case v(1) if_True refl [THEN eqTrueI] by (rule verdict_ok)
qed

lemma err_fd_ok:
  assumes "ok {} s" and "fd < 0 \<or> 7 < fd" "\<bar>fd\<bar> < 2147483648" and "passed name \<in> set pass_messages"
  shows "\<exists>t. err_fd c p fd name s = Some (0, t) \<and> ok {} t"
proof -
  obtain t where t: "ece391_read c fd (p_buf p) 31 s = Some (-1, t)" "ok {} t" using read_rejected [of "{}" s fd] assms by auto
  obtain u where u: "ece391_write c fd (p_buf p) 31 t = Some (-1, u)" "ok {} u" using write_rejected [of "{}" t fd] assms t(2) by auto
  obtain v where v: "ece391_close c fd u = Some (-1, v)" "ok {} v" using close_rejected [of "{}" u fd] assms u(2) by auto
  show ?thesis using t(1) u(1) v(1) verdict_ok [OF v(2) assms(4)] by (auto simp: err_fd_def expect_error_def)
qed

lemma err_open_ok:
  assumes "ok {} s" shows "\<exists>t. err_open c p s = Some (0, t) \<and> ok {} t"
proof -
  obtain t where t: "ece391_open c (p_literal p ''helloo'') s = Some (-1, t)" "ok {} t" using open_rejected [OF assms, of "''helloo''"] by auto
  obtain u where u: "ece391_open c (p_literal p ''shel'') t = Some (-1, u)" "ok {} u" using open_rejected [OF t(2), of "''shel''"] by auto
  obtain v where v: "ece391_open c (p_literal p []) u = Some (-1, v)" "ok {} v" using open_rejected [OF u(2), of "[]"] by auto
  have "passed ''err_open'' \<in> set pass_messages" by (simp add: pass_messages_def)
  then show ?thesis using t(1) u(1) v(1) verdict_ok [OF v(2)] by (auto simp: err_open_def expect_error_def)
qed

lemma err_unopened_ok:
  assumes "ok {} s" shows "\<exists>t. err_unopened c p s = Some (0, t) \<and> ok {} t"
proof -
  have "\<exists>t. expect_errors c p (''close unopened or invalid fd fail'' @ nl) (ece391_close c) [0..7] (0, s) = Some (0, t) \<and> ok {} t"
    by (rule expect_errors_ok [OF assms]) (rule close_rejected, auto)
  then obtain t where t: "expect_errors c p (''close unopened or invalid fd fail'' @ nl) (ece391_close c) [0..7] (0, s) = Some (0, t)" "ok {} t"
    by (elim exE conjE)
  have "\<exists>u. expect_errors c p (''read from unopened fd fail'' @ nl) (\<lambda>i. ece391_read c i (p_buf p) 31) [2..7] (0, t) = Some (0, u) \<and> ok {} u"
    by (rule expect_errors_ok [OF t(2)]) (rule read_rejected, auto)
  then obtain u where u: "expect_errors c p (''read from unopened fd fail'' @ nl) (\<lambda>i. ece391_read c i (p_buf p) 31) [2..7] (0, t) = Some (0, u)" "ok {} u"
    by (elim exE conjE)
  have "\<exists>v. expect_errors c p (''write to unopened fd fail'' @ nl) (\<lambda>i. ece391_write c i (p_buf p) 31) [2..7] (0, u) = Some (0, v) \<and> ok {} v"
    by (rule expect_errors_ok [OF u(2)]) (rule write_rejected, auto)
  then obtain v where v: "expect_errors c p (''write to unopened fd fail'' @ nl) (\<lambda>i. ece391_write c i (p_buf p) 31) [2..7] (0, u) = Some (0, v)" "ok {} v"
    by (elim exE conjE)
  have "passed ''err_unopened'' \<in> set pass_messages" by (simp add: pass_messages_def)
  then show ?thesis unfolding err_unopened_def t(1) u(1) v(1) bind.bind_lunit by (rule verdict_ok [OF v(2)])
qed

lemma err_vidmap_ok:
  assumes "ok {} s" shows "\<exists>t. err_vidmap c p s = Some (0, t) \<and> ok {} t"
proof -
  obtain t where t: "ece391_vidmap c 0 s = Some (-1, t)" "ok {} t" using vidmap_rejected [OF assms, of 0] by auto
  obtain u where u: "ece391_vidmap c 0x400000 t = Some (-1, u)" "ok {} u" using vidmap_rejected [OF t(2), of "0x400000"] by auto
  have "passed ''err_vidmap'' \<in> set pass_messages" by (simp add: pass_messages_def)
  then show ?thesis using t(1) u(1) verdict_ok [OF u(2)] by (auto simp: err_vidmap_def expect_error_def)
qed

lemma err_stdin_out_ok:
  assumes "ok {} s" shows "\<exists>t. err_stdin_out c p s = Some (0, t) \<and> ok {} t"
proof -
  obtain t where t: "ece391_write c 0 (p_buf p) 31 s = Some (-1, t)" "ok {} t" using write_rejected [OF assms, of 0] by auto
  obtain u where u: "ece391_read c 1 (p_buf p) 31 t = Some (-1, u)" "ok {} u" using read_rejected [OF t(2), of 1] by auto
  have "passed ''err_stdin_out'' \<in> set pass_messages" by (simp add: pass_messages_def)
  then show ?thesis using t(1) u(1) verdict_ok [OF u(2)] by (auto simp: err_stdin_out_def expect_error_def)
qed

lemma err_syscall_num_ok:
  assumes "ok {} s" shows "\<exists>t. err_syscall_num c p regs s = Some (0, t) \<and> ok {} t"
proof -
  have rejected: "\<exists>t. call_sys c regs num s = Some (-1, t) \<and> ok {} t" if "ok {} s" "num < 1 \<or> 8 < num" "\<bar>num\<bar> < 2147483648" for s num
    using number_rejected [OF that] by (cases regs) (simp add: call_sys_def)
  obtain t where t: "call_sys c regs 1073741823 s = Some (-1, t)" "ok {} t" using rejected [OF assms, of 1073741823] by auto
  obtain u where u: "call_sys c regs (-1073741823) t = Some (-1, u)" "ok {} u" using rejected [OF t(2), of "-1073741823"] by auto
  obtain v where v: "call_sys c regs 0 u = Some (-1, v)" "ok {} v" using rejected [OF u(2), of 0] by auto
  have "passed ''err_syscall_num'' \<in> set pass_messages" by (simp add: pass_messages_def)
  then show ?thesis using t(1) u(1) v(1) verdict_ok [OF v(2)] by (auto simp: err_syscall_num_def expect_error_def)
qed

lemma test_passes:
  assumes "ok {} s" and "f \<in> set (syserr_tests c p regs)"
  shows "\<exists>t. f s = Some (0, t) \<and> ok {} t"
proof -
  have n: "passed ''err_neg_fd'' \<in> set pass_messages" "passed ''err_big_fd'' \<in> set pass_messages" by (simp_all add: pass_messages_def)
  have fd: "\<exists>t. err_neg_fd c p s = Some (0, t) \<and> ok {} t" "\<exists>t. err_big_fd c p s = Some (0, t) \<and> ok {} t"
    using err_fd_ok [OF assms(1) _ _ n(1), of NEG_FD] err_fd_ok [OF assms(1) _ _ n(2), of BIG_FD]
    by (simp_all add: err_neg_fd_def err_big_fd_def)
  note tests = fd err_open_lots_ok [OF assms(1)] err_open_ok [OF assms(1)] err_unopened_ok [OF assms(1)] err_vidmap_ok [OF assms(1)]
    err_stdin_out_ok [OF assms(1)] err_syscall_num_ok [OF assms(1), of regs]
  have "list_all (\<lambda>f. \<exists>t. f s = Some (0, t) \<and> ok {} t) (syserr_tests c p regs)"
    unfolding syserr_tests_def by (simp add: tests)
  then show ?thesis using assms(2) by (simp add: list_all_iff)
qed

lemma sum_fails_ok:
  assumes "ok {} s" and "\<And>f s. f \<in> set fs \<Longrightarrow> ok {} s \<Longrightarrow> \<exists>t. f s = Some (0, t) \<and> ok {} t"
  shows "\<exists>t. sum_fails fs (0, s) = Some (0, t) \<and> ok {} t"
  using assms
proof (induction fs arbitrary: s)
  case (Cons f fs)
  obtain t where "f s = Some (0, t)" "ok {} t" using Cons.prems by (metis list.set_intros(1))
  then show ?case using Cons.IH [of t] Cons.prems(2) by auto
qed auto

lemma select_passes:
  assumes "ok {} s" and "0 \<le> sel" "sel \<le> 8"
  shows "\<exists>t. syserr_select c p regs sel s = Some (0, t) \<and> ok {} t"
proof (cases "sel = 0")
  case True
  obtain t where t: "sum_fails (syserr_tests c p regs) (0, s) = Some (0, t)" "ok {} t"
    using sum_fails_ok [OF assms(1), of "syserr_tests c p regs"] test_passes by blast
  have "nl @ ''Overall Tests: PASS'' @ nl \<in> set pass_messages" by (simp add: pass_messages_def)
  from puts [OF t(2) this] show ?thesis using True t(1) by (auto simp: syserr_select_def)
next
  case False
  have "length (syserr_tests c p regs) = 8" by (simp add: syserr_tests_def)
  then have "syserr_tests c p regs ! nat (sel - 1) \<in> set (syserr_tests c p regs)" using assms(2,3) by (intro nth_mem) simp
  from test_passes [OF assms(1) this] show ?thesis using False assms(2,3) by (simp add: syserr_select_def)
qed

end

section \<open>The kernel rejects the calls\<close>

definition literal_ok :: "locals \<Rightarrow> layout \<Rightarrow> mem \<Rightarrow> string \<Rightarrow> bool" where
  "literal_ok l p m msg \<longleftrightarrow> p_literal p msg \<noteq> 0 \<and> cstring m (p_literal p msg) (bytes msg)
     \<and> disjoint_regions (p_literal p msg) (Suc (length msg)) VIDEO 4000 \<and> disjoint_regions (p_literal p msg) (Suc (length msg)) (l_dentry l) 64"

text \<open>The strings of the program are in place, and the directory has an entry for itself and none for the two wrong names.\<close>

definition test_memory :: "locals \<Rightarrow> layout \<Rightarrow> 'a process_scheme \<Rightarrow> bool" where
  "test_memory l p s \<longleftrightarrow> fs_wf s (mem s) \<and> 0 < num_index_nodes s (mem s)
     \<and> outside_image s (mem s) VIDEO 4000 \<and> outside_image s (mem s) (l_dentry l) 64 \<and> l_dentry l \<noteq> 0
     \<and> list_all (literal_ok l p (mem s)) (pass_messages @ [''.'', ''helloo'', ''shel'', []])
     \<and> map_option (\<lambda>i. dentry_type (mem s) (dentry_addr s (word_of_nat i))) (slot_of s (mem s) (bytes ''.'')) = Some 1
     \<and> slot_of s (mem s) (bytes ''helloo'') = None \<and> slot_of s (mem s) (bytes ''shel'') = None"

definition test_descriptors :: "int set \<Rightarrow> 'a process_scheme \<Rightarrow> bool" where
  "test_descriptors D s \<longleftrightarrow> D \<subseteq> {2..<8} \<and> fds_ok s \<and> (\<forall>j \<in> {0..<8}. (flags (fd_at j s) \<noteq> 0) = (j \<in> insert 0 (insert 1 D)))
     \<and> descriptor_op_ptr (fd_at 1 s) = term_table \<and> (\<forall>j \<in> D. descriptor_op_ptr (fd_at j s) = directory_table)"

definition test_ok :: "locals \<Rightarrow> layout \<Rightarrow> int set \<Rightarrow> 'a process_scheme \<Rightarrow> bool" where
  "test_ok l p D s \<longleftrightarrow> test_descriptors D s \<and> test_memory l p s \<and> foreground s \<and> cursor_ok s \<and> buffer_index (active s) \<noteq> 128"

lemma literal_ok_cong:
  assumes "literal_ok l p m msg" and "\<And>x. \<not> in_region x VIDEO 4000 \<Longrightarrow> \<not> in_region x (l_dentry l) 64 \<Longrightarrow> m' x = m x"
  shows "literal_ok l p m' msg"
proof -
  have d: "disjoint_regions (p_literal p msg) (Suc (length msg)) VIDEO 4000" "disjoint_regions (p_literal p msg) (Suc (length msg)) (l_dentry l) 64"
    and c: "cstring m (p_literal p msg) (bytes msg)" using assms(1) by (simp_all add: literal_ok_def)
  have "cstring m' (p_literal p msg) (bytes msg)"
    by (rule cstring_cong [OF c]) (use assms(2) d disjoint_regionsD cstring_length [OF c] in auto)
  then show ?thesis using assms(1) by (simp add: literal_ok_def)
qed

lemma test_memory_cong:
  fixes s t :: "'a process_scheme"
  assumes mem: "test_memory l p s" and g: "g_b_block t = g_b_block s" "g_index_nodes t = g_index_nodes s" "g_directory_entries t = g_directory_entries s"
    and keep: "\<And>x. \<not> in_region x VIDEO 4000 \<Longrightarrow> \<not> in_region x (l_dentry l) 64 \<Longrightarrow> mem t x = mem s x"
  shows "test_memory l p t"
proof -
  have m: "fs_wf s (mem s)" "0 < num_index_nodes s (mem s)" "outside_image s (mem s) VIDEO 4000" "outside_image s (mem s) (l_dentry l) 64"
    using mem by (simp_all add: test_memory_def)
  have same: "same_image s (mem s) (mem t)"
    using keep m(3,4) disjoint_regionsD disjoint_regions_sym unfolding same_image_def outside_image_def by metis
  note c = fs_fields_cong [OF g] and h = same_image_header [OF m(1) same] and slot = slot_of_same [OF m(1) same m(2)]
  have n: "num_index_nodes t (mem t) = num_index_nodes s (mem s)" using h(1) by (simp add: num_index_nodes_def g)
  have "dentry_type (mem t) (dentry_addr t (word_of_nat i)) = dentry_type (mem s) (dentry_addr s (word_of_nat i))" if "i < 64" for i
    using dentry_copy(1) [OF same_image_dentry(1) [OF m(1) same m(2) that]] by (simp add: dentry_addr_def g)
  then have "map_option (\<lambda>i. dentry_type (mem t) (dentry_addr t (word_of_nat i))) (slot_of s (mem s) (bytes ''.''))
      = map_option (\<lambda>i. dentry_type (mem s) (dentry_addr s (word_of_nat i))) (slot_of s (mem s) (bytes ''.''))"
    using slot_of_less [of s "mem s" "bytes ''.''"] by (cases "slot_of s (mem s) (bytes ''.'')") auto
  moreover have lit: "literal_ok l p (mem t) msg" if "literal_ok l p (mem s) msg" for msg using that keep by (rule literal_ok_cong)
  moreover have "list_all (literal_ok l p (mem t)) (pass_messages @ [''.'', ''helloo'', ''shel'', []])"
    using mem lit unfolding test_memory_def list_all_iff by blast
  ultimately show ?thesis using mem h(3,4) unfolding test_memory_def c slot n by (simp add: outside_image_def g)
qed

lemma test_ok_step:
  fixes s t :: "'a process_scheme"
  assumes ok: "test_ok l p D s" and dev: "g_b_block t = g_b_block s" "g_index_nodes t = g_index_nodes s" "g_directory_entries t = g_directory_entries s"
    "active_schedule t = active_schedule s" "terminal t = terminal s" "active_terminal t = active_terminal s"
    and "cursor_ok t" and "test_descriptors D' t"
    and keep: "\<And>x. \<not> in_region x VIDEO 4000 \<Longrightarrow> \<not> in_region x (l_dentry l) 64 \<Longrightarrow> mem t x = mem s x"
  shows "test_ok l p D' t"
  using ok assms(8,9) test_memory_cong [OF _ dev(1-3) keep] by (simp add: test_ok_def foreground_def term_at_def dev)

text \<open>A message of the kernel keeps everything.\<close>

lemma test_ok_message:
  fixes s :: "'a process_scheme"
  assumes "test_ok l p D s"
  shows "test_ok l p D (put_string cs s)" "test_ok l p D (sti s)" "test_ok l p D (cli s)"
proof -
  have c: "cursor_ok s" using assms by (simp add: test_ok_def)
  have view: "proc_view (put_string cs s) = proc_view s" by (rule put_string_proc_view)
  have fd: "test_descriptors D (put_string cs s)"
    using assms proc_viewD [OF view] by (simp add: test_ok_def test_descriptors_def fds_ok_def)
  have more: "console.more (put_string cs s) = console.more s" by (simp add: frame_simps)
  have g: "g_b_block (put_string cs s) = g_b_block s" "g_index_nodes (put_string cs s) = g_index_nodes s"
    "g_directory_entries (put_string cs s) = g_directory_entries s"
    using more by (cases s; cases "put_string cs s"; simp)+
  show "test_ok l p D (put_string cs s)"
    by (rule test_ok_step [OF assms g]) (simp_all add: frame_simps put_string_cursor_ok c fd put_string_frame)
  have "test_descriptors D (sti s) = test_descriptors D s" "test_descriptors D (cli s) = test_descriptors D s"
    by (simp_all add: test_descriptors_def fds_ok_def fd_at_def get_pcb_def sti_def cli_def)
  then show "test_ok l p D (sti s)" "test_ok l p D (cli s)"
    using assms test_ok_step [OF assms, of "sti s" D] test_ok_step [OF assms, of "cli s" D]
    by (simp_all add: test_ok_def cursor_ok_def sti_def cli_def)
qed

lemmas call_defs = kernel_calls_def DO_CALL_def sys_call_interrupt_def returning_def Let_def

lemma sint_fd: "\<bar>fd\<bar> < 2147483648 \<Longrightarrow> sint (word_of_int fd :: u32) = fd"
  by (rule sint_of_int32) auto

lemma test_descriptors_closed:
  assumes "test_descriptors D s" "fd \<notin> D" "fd \<noteq> 0" "fd \<noteq> 1" "0 \<le> fd" "fd < 8"
  shows "flags (fd_at fd s) = 0"
  using assms by (auto simp: test_descriptors_def)

lemma kernel_read_rejected:
  fixes s :: "'a process_scheme"
  assumes "test_ok l p D s" "fd \<notin> D" "fd \<noteq> 0" "\<bar>fd\<bar> < 2147483648"
  shows "\<exists>t. ece391_read (kernel_calls l keys ticks ex) fd buf n s = Some (-1, t) \<and> test_ok l p D t"
proof -
  have "flags (fd_at fd s) = 0 \<or> fd < 0 \<or> fd > 7 \<or> fd = 1" using test_descriptors_closed assms by (force simp: test_ok_def)
  then have "sys_read l (keys s) (ticks s) fd buf (sint (word_of_int n :: u32)) s = Some (-1, put_string (bytes ''system calls read failed'') s)"
    by (auto simp: sys_read_def)
  then show ?thesis using assms(1) sint_fd [OF assms(4)] by (simp add: call_defs test_ok_message)
qed

lemma kernel_write_rejected:
  fixes s :: "'a process_scheme"
  assumes "test_ok l p D s" "fd \<notin> D" "fd \<noteq> 1" "\<bar>fd\<bar> < 2147483648"
  shows "\<exists>t. ece391_write (kernel_calls l keys ticks ex) fd buf n s = Some (-1, t) \<and> test_ok l p D t"
proof -
  have "flags (fd_at fd s) = 0 \<or> fd < 0 \<or> fd > 7 \<or> fd = 0" using test_descriptors_closed assms by (force simp: test_ok_def)
  then have "sys_write fd buf (sint (word_of_int n :: u32)) s = Some (-1, put_string (bytes ''system calls write failed'') s)"
    by (auto simp: sys_write_def)
  then show ?thesis using assms(1) sint_fd [OF assms(4)] by (simp add: call_defs test_ok_message)
qed

lemma test_ok_set_fd:
  fixes s :: "'a process_scheme"
  assumes ok: "test_ok l p D s" and "0 \<le> i" "i < 8" and d: "test_descriptors D' (set_fd (get_pcb s) (nat i) f s)"
  shows "test_ok l p D' (set_fd (get_pcb s) (nat i) f s)"
  using ok d by (intro test_ok_step [OF ok]) (simp_all add: test_ok_def set_fd_def cursor_ok_def)

lemma kernel_close_rejected:
  fixes s :: "'a process_scheme"
  assumes ok: "test_ok l p D s" and "fd \<notin> D" "\<bar>fd\<bar> < 2147483648"
  shows "\<exists>t. ece391_close (kernel_calls l keys ticks ex) fd s = Some (-1, t) \<and> test_ok l p D t"
proof -
  let ?f = "\<lambda>d. d\<lparr>descriptor_op_ptr := term_table\<rparr>"
  let ?t = "if fd = 0 then set_fd (get_pcb s) 0 ?f s else s"
  have d: "test_descriptors D s" "fds_ok s" using ok by (simp_all add: test_ok_def test_descriptors_def)
  have "fd_at j (set_fd (get_pcb s) 0 ?f s) = (if j = 0 then ?f (fd_at 0 s) else fd_at j s)" if "0 \<le> j" "j < 8" for j
    using fd_at_set_fd [OF d(2), of 0 j ?f] that by simp
  moreover have "fds_ok (set_fd (get_pcb s) 0 ?f s)" using d(2) by (simp add: fds_ok_def set_fd_def get_pcb_def)
  ultimately have "test_descriptors D (set_fd (get_pcb s) 0 ?f s)" using d(1) by (auto simp: test_descriptors_def subset_iff)
  then have t: "test_ok l p D ?t" using ok test_ok_set_fd [OF ok, of 0] by simp
  have "flags (fd_at fd ?t) = 0 \<or> fd < 0 \<or> fd > 7 \<or> fd = 0 \<or> fd = 1" 
    using test_descriptors_closed [OF d(1) assms(2)] by (cases "fd \<noteq> 0 \<and> fd \<noteq> 1 \<and> 0 \<le> fd \<and> fd < 8") auto
  then have "sys_close fd s = Some (-1, put_string (bytes ''system calls close failed'') ?t)"
    unfolding sys_close_def Let_def by auto
  then show ?thesis using t sint_fd [OF assms(3)] by (simp add: call_defs test_ok_message)
qed

lemma test_descriptors_upd:
  assumes d: "test_descriptors D s" and "fds_ok t" and D': "D' \<subseteq> {2..<8}" "D' - {i} = D - {i}" and i: "2 \<le> i" "i < 8"
    and at: "\<And>j. 0 \<le> j \<Longrightarrow> j < 8 \<Longrightarrow> fd_at j t = (if j = i then e else fd_at j s)"
    and e: "(flags e \<noteq> 0) = (i \<in> D')" "i \<in> D' \<Longrightarrow> descriptor_op_ptr e = directory_table"
  shows "test_descriptors D' t"
proof -
  have "(flags (fd_at j t) \<noteq> 0) = (j \<in> insert 0 (insert 1 D'))" if "j \<in> {0..<8}" for j
  proof (cases "j = i")
    case True
    then show ?thesis using at [of j] that e(1) i by simp
  next
    case False
    then have "j \<in> D' \<longleftrightarrow> j \<in> D" using D'(2) by blast
    then show ?thesis using at [of j] that d False by (simp add: test_descriptors_def)
  qed
  moreover have "descriptor_op_ptr (fd_at j t) = directory_table" if "j \<in> D'" for j
  proof (cases "j = i")
    case True
    then show ?thesis using at [of j] that e(2) i by simp
  next
    case False
    have "j \<in> D" using D'(2) that False by blast
    moreover have "j \<in> {2..<8}" using D'(1) that by blast
    ultimately have j: "j \<in> D" "0 \<le> j" "j < 8" by simp_all
    have "descriptor_op_ptr (fd_at j s) = directory_table" using d j(1) unfolding test_descriptors_def by blast
    then show ?thesis using at [OF j(2,3)] False by simp
  qed
  moreover have "fd_at 1 t = fd_at 1 s" using at [of 1] i by simp
  ultimately show ?thesis using d assms(2) D'(1) by (simp add: test_descriptors_def)
qed

lemma kernel_closes:
  fixes s :: "'a process_scheme"
  assumes ok: "test_ok l p D s" and fd: "fd \<in> D"
  shows "\<exists>t. ece391_close (kernel_calls l keys ticks ex) fd s = Some (0, t) \<and> test_ok l p (D - {fd}) t"
proof -
  let ?f = "\<lambda>d. d\<lparr>flags := OUT_OF_USE\<rparr>"
  let ?t = "set_fd (get_pcb s) (nat fd) ?f s"
  have td: "test_descriptors D s" using ok by (simp add: test_ok_def)
  have "2 \<le> fd" "fd < 8" using td fd by (auto simp: test_descriptors_def)
  then have d: "test_descriptors D s" "fds_ok s" "2 \<le> fd" "fd < 8" "flags (fd_at fd s) \<noteq> 0" "descriptor_op_ptr (fd_at fd s) = directory_table"
    using td fd by (simp_all add: test_descriptors_def)
  then have "sys_close fd s = Some (0, ?t)" by (intro sys_close_open_fd [where ty = 1]) (simp_all add: table_of_type_def)
  moreover have at: "fd_at j ?t = (if j = fd then ?f (fd_at fd s) else fd_at j s)" if "0 \<le> j" "j < 8" for j
    using fd_at_set_fd [OF d(2) _ d(4) that, of ?f] d(3) by simp
  moreover have "fds_ok ?t" using d(2) by (simp add: fds_ok_def set_fd_def get_pcb_def)
  moreover have "test_descriptors (D - {fd}) ?t"
    using td by (intro test_descriptors_upd [OF td \<open>fds_ok ?t\<close> _ _ d(3,4) at]) (auto simp: test_descriptors_def)
  then have "test_ok l p (D - {fd}) ?t" using test_ok_set_fd [OF ok, of fd] d(3,4) by simp
  ultimately show ?thesis using sint_fd [of fd] d(3,4) by (simp add: call_defs test_ok_message)
qed

lemma test_names:
  fixes s :: "'a process_scheme"
  assumes "test_ok l p D s" and "name \<in> {''.'', ''helloo'', ''shel'', []}"
  shows "cstring (mem s) (p_literal p name) (bytes name)" "p_literal p name \<noteq> 0" "l_dentry l \<noteq> 0"
    "disjoint_regions (l_dentry l) 64 (g_directory_entries s) 4096"
proof -
  have m: "test_memory l p s" using assms(1) by (simp add: test_ok_def)
  then have "literal_ok l p (mem s) name" using assms(2) unfolding test_memory_def list_all_iff by auto
  then show "cstring (mem s) (p_literal p name) (bytes name)" "p_literal p name \<noteq> 0" by (simp_all add: literal_ok_def)
  show "l_dentry l \<noteq> 0" using m by (simp add: test_memory_def)
  have "8192 \<le> image_len s (mem s)" using m by (simp add: image_len_def word_less_nat_alt test_memory_def)
  then show "disjoint_regions (l_dentry l) 64 (g_directory_entries s) 4096"
    using m disjoint_regions_sub [of "g_b_block s" "image_len s (mem s)" "l_dentry l" 64 64 4096]
    by (simp add: test_memory_def outside_image_def fs_wf_def disjoint_regions_sym)
qed

lemma test_free_fd:
  assumes "test_descriptors {2..<k} s" "2 \<le> k" "k \<le> 8"
  shows "free_fd (this_pcb s) = (if k < 8 then Some (nat k) else None)"
proof -
  have ok: "fds_ok s" using assms(1) by (simp add: test_descriptors_def)
  have used: "fd_used s j \<longleftrightarrow> int j < k" if "j < 8" for j
  proof -
    have "(flags (fd_at (int j) s) \<noteq> 0) = (int j \<in> insert 0 (insert 1 {2..<k}))" using assms(1) that by (simp add: test_descriptors_def)
    then show ?thesis using assms(2) that by (auto simp: fd_used_def fd_at_def)
  qed
  show ?thesis
  proof (cases "k < 8")
    case True
    then show ?thesis using fds.first_free_Some [OF ok, of "nat k"] used True assms(2) by (simp add: nat_less_iff zless_nat_eq_int_zless)
  next
    case False
    then show ?thesis using fds.first_free_None [OF ok] used assms(3) by auto
  qed
qed

lemma kernel_open_dot:
  fixes s :: "'a process_scheme"
  assumes ok: "test_ok l p {2..<k} s" and k: "2 \<le> k" "k \<le> 8"
  shows "\<exists>t. ece391_open (kernel_calls l keys ticks ex) (p_literal p ''.'') s = Some (if k < 8 then k else -1, t)
     \<and> test_ok l p {2..<min 8 (k + 1)} t"
proof -
  note n = test_names [OF ok, of "''.''"]
  have d: "test_descriptors {2..<k} s" "test_memory l p s" using ok by (simp_all add: test_ok_def)
  then have fds: "fds_ok s" by (simp add: test_descriptors_def)
  obtain i where i: "slot_of s (mem s) (bytes ''.'') = Some i" "dentry_type (mem s) (dentry_addr s (word_of_nat i)) = 1"
    using d(2) by (auto simp: test_memory_def)
  then have "table_of_type (dentry_type (mem s) (dentry_addr s (word_of_nat i))) (dentry_inode_num (mem s) (dentry_addr s (word_of_nat i)))
      = Some (directory_table, 0, 0)" by (simp add: table_of_type_def)
  then obtain m where keep: "\<And>x. \<not> in_region x (l_dentry l) 64 \<Longrightarrow> m x = mem s x"
    and op: "sys_open l (p_literal p ''.'') s = (case free_fd (this_pcb s) of None \<Rightarrow> Some (-1, s\<lparr>mem := m\<rparr>)
          | Some loc \<Rightarrow> Some (int loc, populate_pcb (get_pcb s) loc 1 0 directory_table 0 (s\<lparr>mem := m\<rparr>)))"
    using sys_open_entry [OF fds n(1) _ _ n(2-4) i(1)] by auto
  have v: "test_descriptors D (s\<lparr>mem := m\<rparr>) = test_descriptors D s" "get_pcb (s\<lparr>mem := m\<rparr>) = get_pcb s" "fds_ok (s\<lparr>mem := m\<rparr>)"
    "fd_at j (s\<lparr>mem := m\<rparr>) = fd_at j s" for D j
    using fds by (simp_all add: test_descriptors_def fds_ok_def get_pcb_def fd_at_def)
  have c: "cursor_ok s" using ok by (simp add: test_ok_def)
  show ?thesis
  proof (cases "k < 8")
    case False
    then have k8: "k = 8" using k by simp
    have "test_ok l p {2..<8} (s\<lparr>mem := m\<rparr>)"
      using test_ok_step [OF ok, of "s\<lparr>mem := m\<rparr>" "{2..<8}"] keep c v(1) d(1) k8 by (simp add: cursor_ok_def)
    then show ?thesis using op test_free_fd [OF d(1) k] k8 by (simp add: call_defs test_ok_message)
  next
    case True
    let ?t = "populate_pcb (get_pcb s) (nat k) 1 0 directory_table 0 (s\<lparr>mem := m\<rparr>)"
    have at: "fd_at j ?t = (if j = k then \<lparr>descriptor_op_ptr = directory_table, inode_num = 0, file_pos = 0, flags = 1\<rparr> else fd_at j s)"
      if "0 \<le> j" "j < 8" for j
      using fd_at_populate [OF v(3), of "nat k" "nat j" 0 directory_table 0] that True k(1) v(2,4) by auto
    have "fds_ok ?t" using fds.claim_ok [OF v(3), of "nat k" 0 directory_table 0] True k(1) v(2) by simp
    then have "test_descriptors {2..<k + 1} ?t"
      using True k(1) by (intro test_descriptors_upd [OF d(1) _ _ _ _ _ at]) auto
    moreover have "mem ?t = m" "cursor_ok ?t" using c by (simp_all add: populate_pcb_def set_fd_def cursor_ok_def)
    ultimately have "test_ok l p {2..<k + 1} ?t"
      using test_ok_step [OF ok, of ?t "{2..<k + 1}"] keep by (simp add: populate_pcb_def set_fd_def)
    then show ?thesis using op test_free_fd [OF d(1) k] True k(1) by (simp add: call_defs test_ok_message)
  qed
qed

lemma kernel_open_rejected:
  fixes s :: "'a process_scheme"
  assumes ok: "test_ok l p D s" and name: "name \<in> {''helloo'', ''shel'', []}"
  shows "\<exists>t. ece391_open (kernel_calls l keys ticks ex) (p_literal p name) s = Some (-1, t) \<and> test_ok l p D t"
proof -
  have "name \<in> {''.'', ''helloo'', ''shel'', []}" using name by blast
  note n = test_names [OF ok this]
  have "\<exists>msg. sys_open l (p_literal p name) s = Some (-1, put_string msg s)"
  proof (cases "name = []")
    case True
    then show ?thesis using n(1) by (auto simp: sys_open_def cstring_Nil)
  next
    case False
    then have none: "slot_of s (mem s) (bytes name) = None" "length (bytes name) \<le> 32" "name \<noteq> []"
      using ok name by (auto simp: test_ok_def test_memory_def)
    then have "read_dentry_by_name (p_literal p name) (l_dentry l) s = Some (-1, s)"
      using read_dentry_by_name_cstring [OF n(1) _ n(2,3)] find_dentry_slot [OF n(1)] by simp
    moreover have "mem s (p_literal p name) \<noteq> 0" using cstring_nonzero [OF n(1), of 0] none(3) by simp
    ultimately show ?thesis using n(2) by (auto simp: sys_open_def)
  qed
  then show ?thesis using ok by (auto simp: call_defs test_ok_message)
qed

lemma kernel_puts:
  fixes s :: "'a process_scheme"
  assumes ok: "test_ok l p D s" and msg: "msg \<in> set pass_messages"
  shows "\<exists>t. ece391_fdputs (kernel_calls l keys ticks ex) 1 (p_literal p msg) s = Some t \<and> test_ok l p D t"
proof -
  have "list_all (\<lambda>m. length m \<le> 32) pass_messages" by (simp add: pass_messages_def passed_def)
  then have len: "length msg \<le> 32" using msg by (simp add: list_all_iff)
  have lit: "literal_ok l p (mem s) msg" using ok msg by (auto simp: test_ok_def test_memory_def list_all_iff)
  then have c: "cstring (mem s) (p_literal p msg) (bytes msg)" "p_literal p msg \<noteq> 0" by (simp_all add: literal_ok_def)
  have n: "ece391_strlen (mem s) (p_literal p msg) = Some (word_of_nat (length msg))"
    using strlen_cstring [OF c(1)] by (simp add: ece391_strlen_eq)
  have i: "sint (word_of_nat (length msg) :: u32) = int (length msg)" using len by (intro sint_of_nat32) simp
  then have i': "sint (word_of_int (int (length msg)) :: u32) = int (length msg)" by simp
  have "disjoint_regions (p_literal p msg) (length msg) VIDEO 4000"
    using lit disjoint_regions_mono by (fastforce simp: literal_ok_def)
  then have "terminal_write 1 (p_literal p msg) (int (length msg)) s = (int (length msg),
      sti (put_string (filter (\<lambda>b. b \<noteq> 0) (read_bytes (mem s) (p_literal p msg) (length msg))) (cli s)))"
    using terminal_write_foreground [of s "p_literal p msg" "int (length msg)" 1] ok c(2) len by (simp add: test_ok_def)
  moreover have "flags (fd_at 1 s) \<noteq> 0" "descriptor_op_ptr (fd_at 1 s) = term_table" using ok by (simp_all add: test_ok_def test_descriptors_def)
  ultimately have "sys_write 1 (p_literal p msg) (int (length msg)) s = Some (int (length msg),
      sti (put_string (filter (\<lambda>b. b \<noteq> 0) (read_bytes (mem s) (p_literal p msg) (length msg))) (cli s)))"
    using c(2) by (simp add: sys_write_def)
  then show ?thesis using ok n i' by (simp add: ece391_fdputs_def call_defs test_ok_message)
qed

interpretation kernel_tests: rejecting_calls "kernel_calls l keys ticks ex" p "test_ok l p" for l keys ticks ex p
proof
  fix D :: "int set" and s :: "'a process_scheme"
  assume ok: "test_ok l p D s"
  { fix msg assume "msg \<in> set pass_messages"
    with ok show "\<exists>t. ece391_fdputs (kernel_calls l keys ticks ex) 1 (p_literal p msg) s = Some t \<and> test_ok l p D t" by (rule kernel_puts) }
  { fix fd :: int assume "fd \<notin> D" "fd \<noteq> 0" "\<bar>fd\<bar> < 2147483648"
    with ok show "\<exists>t. ece391_read (kernel_calls l keys ticks ex) fd (p_buf p) 31 s = Some (-1, t) \<and> test_ok l p D t" by (rule kernel_read_rejected) }
  { fix fd :: int assume "fd \<notin> D" "fd \<noteq> 1" "\<bar>fd\<bar> < 2147483648"
    with ok show "\<exists>t. ece391_write (kernel_calls l keys ticks ex) fd (p_buf p) 31 s = Some (-1, t) \<and> test_ok l p D t" by (rule kernel_write_rejected) }
  { fix fd :: int assume "fd \<notin> D" "\<bar>fd\<bar> < 2147483648"
    with ok show "\<exists>t. ece391_close (kernel_calls l keys ticks ex) fd s = Some (-1, t) \<and> test_ok l p D t" by (rule kernel_close_rejected) }
  { fix fd :: int assume "fd \<in> D"
    with ok show "\<exists>t. ece391_close (kernel_calls l keys ticks ex) fd s = Some (0, t) \<and> test_ok l p (D - {fd}) t" by (rule kernel_closes) }
  { fix name assume "name \<in> {''helloo'', ''shel'', []}"
    with ok show "\<exists>t. ece391_open (kernel_calls l keys ticks ex) (p_literal p name) s = Some (-1, t) \<and> test_ok l p D t" by (rule kernel_open_rejected) }
  { fix a :: u32 assume "a < 0x8000000"
    then have "vidmap a s = (-1, s)" by (simp add: vidmap_def)
    with ok show "\<exists>t. ece391_vidmap (kernel_calls l keys ticks ex) a s = Some (-1, t) \<and> test_ok l p D t" by (simp add: call_defs test_ok_message) }
  { fix num :: int and ebx ecx edx :: u32 assume "num < 1 \<or> 8 < num" "\<bar>num\<bar> < 2147483648"
    with ok show "\<exists>t. int_0x80 (kernel_calls l keys ticks ex) (word_of_int num) ebx ecx edx s = Some (-1, t) \<and> test_ok l p D t"
      using sint_fd [of num] by (auto simp: call_defs) }
next
  fix k :: int and s :: "'a process_scheme"
  assume "test_ok l p {2..<k} s" "2 \<le> k" "k < 8"
  then show "\<exists>t. ece391_open (kernel_calls l keys ticks ex) (p_literal p ''.'') s = Some (k, t) \<and> test_ok l p {2..<k + 1} t"
    using kernel_open_dot [of l p k s keys ticks ex] by auto
next
  fix s :: "'a process_scheme"
  assume "test_ok l p {2..<8} s"
  then show "\<exists>t. ece391_open (kernel_calls l keys ticks ex) (p_literal p ''.'') s = Some (-1, t) \<and> test_ok l p {2..<8} t"
    using kernel_open_dot [of l p 8 s keys ticks ex] by auto
qed

section \<open>Properties\<close>

text \<open>
  C9. The kernel passes the error tests that come with it. From a state with only the standard descriptors open, the strings of the test program in memory, and a directory that has an
  entry \<open>.\<close> and none named \<open>helloo\<close> or \<open>shel\<close>, each of the tests 1 to 8, and test 0, which runs them all, ends and reports no failure; afterwards again
  only the standard descriptors are open.
\<close>

theorem syserr_passes:
  assumes "test_ok l p {} s" and "0 \<le> sel" "sel \<le> 8"
  shows "\<exists>t. syserr_select (kernel_calls l keys ticks ex) p regs sel s = Some (0, t) \<and> test_descriptors {} t"
  using kernel_tests.select_passes [OF assms, where keys = keys and ticks = ticks and ex = ex and regs = regs] by (auto simp: test_ok_def)

text \<open>A file system with the directory entry \<open>.\<close>, and the strings of the program in its page.\<close>

definition test_strings :: "string list" where
  "test_strings = pass_messages @ [''.'', ''helloo'', ''shel'', []]"

definition test_address :: "nat \<Rightarrow> u32" where
  "test_address i = 0x8200000 + 64 * word_of_nat i"

definition test_layout :: layout where
  "test_layout = \<lparr>p_buf = 0x8100000, p_literal = \<lambda>msg. case scan (\<lambda>m. m = msg) test_strings of Some i \<Rightarrow> test_address i | None \<Rightarrow> 0x8300000\<rparr>"

definition test_directory_mem :: mem where
  "test_directory_mem = fold (\<lambda>(a, bs) m. write_bytes m a bs) [(0x100004, bytes32 1 @ bytes32 1), (0x100040, bytes ''.''), (0x100060, bytes32 1)] (\<lambda>_. 0)"

definition test_example_mem :: mem where
  "test_example_mem x = (if x - 0x8200000 < 832
     then let off = unat (x - 0x8200000); bs = bytes (test_strings ! (off div 64)) in if off mod 64 < length bs then bs ! (off mod 64) else 0
     else test_directory_mem x)"

definition test_example :: process where
  "test_example = process_example\<lparr>mem := test_example_mem,
     pcbs := \<lambda>_. pcb_example\<lparr>file_descriptor_array := stdio_fd # stdio_fd # replicate 6 closed_fd\<rparr>\<rparr>"

lemma test_example_sel:
  "g_b_block test_example = 0x100000" "g_index_nodes test_example = 0x101000" "g_directory_entries test_example = 0x100040"
  "mem test_example = test_example_mem" "get_pcb test_example = 0x7FE000"
  "file_descriptor_array (this_pcb test_example) = stdio_fd # stdio_fd # replicate 6 closed_fd"
  "terminal test_example = [terminal_example 0, terminal_example 1, terminal_example 2]" "active_terminal test_example = 0"
  "active_schedule test_example = \<lparr>current_running_process_count = 1, next_terminal_in_schedule = 2, schedule_activated = 1\<rparr>"
  "screen_x test_example = 0" "screen_y test_example = 0"
  by (simp_all add: get_pcb_def pic.defs pic_example_def test_example_def process_example_def kbd.defs kbd_example_def tty.defs
      tty_example_def fs.defs fs_example_def paging.defs paging_example_def rtc.defs rtc_example_def console_example_def)

lemma test_strings_facts: "length test_strings = 13" "list_all (\<lambda>msg. length msg \<le> 32 \<and> 0 \<notin> set (bytes msg)) test_strings"
  by (simp_all add: test_strings_def pass_messages_def passed_def byte_def)

lemma test_addresses:
  "list_all (\<lambda>i. test_address i \<noteq> 0 \<and> disjoint_regions (test_address i) 64 VIDEO 4000 \<and> disjoint_regions (test_address i) 64 0x7FFD80 64) [0..<13]"
  by (simp add: upt_rec disjoint_regions_def test_address_def)

lemma test_example_string:
  assumes "i < 13"
  shows "cstring test_example_mem (test_address i) (bytes (test_strings ! i))"
proof -
  let ?bs = "bytes (test_strings ! i)"
  have "test_strings ! i \<in> set test_strings" using assms test_strings_facts(1) by simp
  then have len: "length ?bs \<le> 32" "0 \<notin> set ?bs" using test_strings_facts(2) by (simp_all add: list_all_iff)
  have "test_example_mem (test_address i + word_of_nat j) = (?bs @ [0]) ! j" if "j < Suc (length ?bs)" for j
  proof -
    have "test_address i + word_of_nat j - 0x8200000 = (word_of_nat (64 * i + j) :: u32)" by (simp add: test_address_def)
    then have off: "unat (test_address i + word_of_nat j - 0x8200000) = 64 * i + j" 
      using that len(1) assms unat_of_nat32 [of "64 * i + j"] by (simp only:)
    have "(64 * i + j) div 64 = i" "(64 * i + j) mod 64 = j" "64 * i + j < 832" using that len(1) assms by simp_all
    moreover have "test_address i + word_of_nat j - 0x8200000 < 832" using off calculation(3) by (simp add: word_less_nat_alt)
    ultimately show ?thesis unfolding test_example_mem_def off using that by (auto simp: nth_append)
  qed
  then have "read_bytes test_example_mem (test_address i) (Suc (length ?bs)) = ?bs @ [0]" by (intro nth_equalityI) (simp_all add: nth_read_bytes)
  then show ?thesis using len(2) by (simp add: cstring_def)
qed

lemma test_example_literals: "list_all (literal_ok locals_example test_layout test_example_mem) test_strings"
proof -
  have "literal_ok locals_example test_layout test_example_mem msg" if msg: "msg \<in> set test_strings" for msg
  proof -
    obtain i where i: "scan (\<lambda>m. m = msg) test_strings = Some i" using msg by (cases "scan (\<lambda>m. m = msg) test_strings") (auto simp: scan_None)
    then have at: "test_strings ! i = msg" "i < 13" using scan_Some [of "\<lambda>m. m = msg" test_strings i] test_strings_facts(1) by auto
    have "length msg \<le> 32" using msg test_strings_facts(2) by (simp add: list_all_iff)
    then have "Suc (length msg) \<le> 64" by simp
    moreover have "test_address i \<noteq> 0" "disjoint_regions (test_address i) 64 VIDEO 4000" "disjoint_regions (test_address i) 64 0x7FFD80 64"
      using test_addresses at(2) by (simp_all add: list_all_iff)
    moreover have "p_literal test_layout msg = test_address i" using i by (simp add: test_layout_def)
    ultimately show ?thesis using test_example_string [OF at(2)] at(1)
      by (auto simp: literal_ok_def locals_example_def intro: disjoint_regions_mono)
  qed
  then show ?thesis by (simp add: list_all_iff)
qed

lemma test_example_loads:
  "load32 test_example_mem 0x100004 = 1" "load32 test_example_mem 0x100008 = 1" "load32 test_example_mem 0x100060 = 1"
  "read_bytes test_example_mem 0x100040 2 = bytes ''.'' @ [0]"
  "list_all (\<lambda>j. test_example_mem (0x100040 + 64 * word_of_nat j) = 0) [1..<64]"
  by code_simp+

lemma prefix_str_empty: "m a = 0 \<Longrightarrow> prefix_str m a n = []"
  by (cases n) (simp_all add: prefix_str_0 prefix_str_Suc)

lemma test_example_names: "j < 64 \<Longrightarrow> dentry_name test_example test_example_mem j = (if j = 0 then bytes ''.'' else [])"
proof -
  assume j: "j < 64"
  have a: "dentry_addr test_example (word_of_nat j) = 0x100040 + 64 * word_of_nat j" by (simp add: dentry_addr_def test_example_sel)
  show ?thesis
  proof (cases "j = 0")
    case True
    have "cstring test_example_mem 0x100040 (bytes ''.'')" by code_simp
    from prefix_str_cstring [OF this] True show ?thesis by (simp add: dentry_name_def dentry_addr_def test_example_sel)
  next
    case False
    then show ?thesis using test_example_loads(5) j by (simp add: dentry_name_def a list_all_iff prefix_str_empty)
  qed
qed

lemma test_example_slots:
  "slot_of test_example test_example_mem (bytes ''.'') = Some 0" "slot_of test_example test_example_mem (bytes ''helloo'') = None"
  "slot_of test_example test_example_mem (bytes ''shel'') = None"
  unfolding slot_of_def by (intro scan_SomeI; simp add: test_example_names) (auto simp: scan_None test_example_names)

lemma test_example_ok: "test_ok locals_example test_layout {} test_example"
proof -
  have img: "num_index_nodes test_example test_example_mem = 1" "num_data_blocks test_example test_example_mem = 1"
    "image_len test_example test_example_mem = 12288" "dentry_type test_example_mem (dentry_addr test_example (word_of_nat 0)) = 1"
    by (simp_all add: num_index_nodes_def num_data_blocks_def image_len_def dentry_type_def dentry_addr_def test_example_sel test_example_loads)
  then have "test_memory locals_example test_layout test_example"
    using test_example_literals test_example_slots
    by (simp add: test_memory_def test_example_sel fs_wf_def outside_image_def disjoint_regions_def locals_example_def test_strings_def)
  moreover have "(flags (fd_at j test_example) \<noteq> 0) = (j \<in> {0, 1})" if "j \<in> {0..<8}" for j
  proof -
    have "j \<in> set [0, 1, 2, 3, 4, 5, 6, 7]" using that by auto
    then show ?thesis unfolding fd_at_def test_example_sel(6) by (auto simp: stdio_fd_def closed_fd_def numeral_eq_Suc)
  qed
  then have "test_descriptors {} test_example"
    using test_example_sel(5,6) by (simp add: test_descriptors_def fds_ok_def fd_at_def stdio_fd_def)
  ultimately show ?thesis
    by (simp add: test_ok_def foreground_def cursor_ok_def term_at_def terminal_example_def test_example_sel)
qed

theorem syserr_passes_witness:
  "\<exists>t. syserr_select (kernel_calls locals_example (\<lambda>_. []) (\<lambda>_. []) (\<lambda>_ _. None)) test_layout (0, 0, 0) 0 test_example = Some (0, t)"
  using syserr_passes [OF test_example_ok, of 0] by (metis order_refl zero_le_numeral)

end
