(* ===== verification/Listing.thy ===== *)
theory Listing
  imports User_Tests
begin

text \<open>
  The program \<open>ls\<close> on the kernel: opening the directory, reading it entry by entry through the system calls and printing the names. The program is proved once over an interface of
  calls, the locale \<open>listing_service\<close>, which extends the one for output that \<open>cat\<close> uses too; the kernel is an interpretation of it.
\<close>

section \<open>Listing to the screen\<close>

text \<open>
  What \<open>ls\<close> relies on: every read delivers the next name, padded to 32 bytes, until there are none; storing behind the name changes neither the names nor the screen.
\<close>

locale listing_service = output_service c buf ok rest out
  for c :: "'s calls" and buf :: u32 and ok :: "'s \<Rightarrow> bool" and rest :: "'s \<Rightarrow> u8 list list" and out :: "'s \<Rightarrow> ascreen" +
  fixes fd :: int
  assumes reads_name: "ok s \<Longrightarrow> rest s = name # names \<Longrightarrow> \<exists>t. ece391_read c fd buf 32 s = Some (32, t) \<and> ok t \<and> rest t = names \<and> out t = out s
      \<and> read_bytes (user_mem c t) buf 32 = padded name 32"
    and reads_end: "ok s \<Longrightarrow> rest s = [] \<Longrightarrow> \<exists>t. ece391_read c fd buf 32 s = Some (0, t) \<and> ok t \<and> out t = out s"
    and stores: "ok s \<Longrightarrow> ok (store c (buf + 32) b s) \<and> rest (store c (buf + 32) b s) = rest s \<and> out (store c (buf + 32) b s) = out s
      \<and> read_bytes (user_mem c (store c (buf + 32) b s)) buf 33 = read_bytes (user_mem c s) buf 32 @ [b]"
begin

lemma ls_loop_lists:
  assumes "ok s" "p_buf p = buf" "\<forall>name \<in> set (rest s). 0 \<notin> set name \<and> length name \<le> 32"
  shows "\<exists>t. ls_loop c p fd s = Some (0, t) \<and> ok t \<and> out t = fold a_put (concat (map (\<lambda>name. name @ [10]) (rest s))) (out s)"
  using assms(1,3)
proof (induction "rest s" arbitrary: s)
  case Nil
  then obtain t where "ece391_read c fd buf 32 s = Some (0, t)" "ok t" "out t = out s" using reads_end by metis
  then show ?case using Nil.hyps assms(2) by (subst ls_loop.simps) (simp add: Nil.hyps [symmetric])
next
  case (Cons name names)
  obtain t where t: "ece391_read c fd buf 32 s = Some (32, t)" "ok t" "rest t = names" "out t = out s" "read_bytes (user_mem c t) buf 32 = padded name 32"
    using reads_name [OF Cons.prems(1) Cons.hyps(2) [symmetric]] by blast
  let ?u = "store c (buf + 32) 10 t"
  have u: "ok ?u" "rest ?u = names" "out ?u = out s" "read_bytes (user_mem c ?u) buf 33 = padded name 32 @ [10]"
    using stores [OF t(2), of 10] t(3-5) by auto
  obtain v where v: "ece391_write c 1 buf 33 ?u = Some (33, v)" "ok v" "rest v = names"
    "out v = fold a_put (filter (\<lambda>b. b \<noteq> 0) (padded name 32 @ [10])) (out s)"
    using writes [OF u(1), of 33] u(2-4) by auto
  have n: "0 \<notin> set name" "\<forall>name \<in> set (rest v). 0 \<notin> set name \<and> length name \<le> 32" using Cons.prems(2) Cons.hyps(2) [symmetric] v(3) by auto
  have f: "filter (\<lambda>b. b \<noteq> 0) (padded name 32 @ [10]) = name @ [10]" using n(1) by (auto simp: padded_def filter_id_conv)
  obtain w where w: "ls_loop c p fd v = Some (0, w)" "ok w" "out w = fold a_put (concat (map (\<lambda>name. name @ [10]) names)) (out v)"
    using Cons.hyps(1) [OF v(3) [symmetric] v(2) n(2)] v(3) by metis
  have "ls_loop c p fd s = Some (0, w)" using t(1) v(1) w(1) assms(2) by (subst ls_loop.simps) simp
  then show ?case using w(2,3) v(4) unfolding f Cons.hyps(2) [symmetric] by (simp add: fold_append)
qed

end

section \<open>The kernel lists its directory\<close>

text \<open>The entries lie apart from the buffer, from the local variable of \<open>directory_read\<close> and from the screen.\<close>

definition dir_ok :: "locals \<Rightarrow> u32 \<Rightarrow> 'a fs_scheme \<Rightarrow> bool" where
  "dir_ok l buf s \<longleftrightarrow> l_dentry l \<noteq> 0 \<and> disjoint_regions buf 1024 (l_dentry l) 64 \<and> disjoint_regions (l_dentry l) 64 VIDEO 4000
     \<and> disjoint_regions (l_dentry l) 64 (g_directory_entries s) 4096 \<and> disjoint_regions buf 1024 (g_directory_entries s) 4096
     \<and> disjoint_regions VIDEO 4000 (g_directory_entries s) 4096"

definition ls_ok :: "locals \<Rightarrow> u32 \<Rightarrow> int \<Rightarrow> 'a process_scheme \<Rightarrow> bool" where
  "ls_ok l buf fd s \<longleftrightarrow> 2 \<le> fd \<and> fd < 8 \<and> flags (fd_at fd s) = 1 \<and> descriptor_op_ptr (fd_at fd s) = directory_table
     \<and> unat (file_pos (fd_at fd s)) \<le> 17 \<and> dir_ok l buf s \<and> stdout_ok buf s"

definition names_from :: "int \<Rightarrow> 'a process_scheme \<Rightarrow> u8 list list" where
  "names_from fd s = map (dentry_name s (mem s)) [unat (file_pos (fd_at fd s))..<17]"

lemma dentry_name_cong:
  fixes s t :: "'a process_scheme"
  assumes "g_directory_entries t = g_directory_entries s" and "i < 17" and "\<And>x. in_region x (g_directory_entries s) 4096 \<Longrightarrow> m' x = m x"
  shows "dentry_name t m' i = dentry_name s m i"
proof -
  have "m' (dentry_addr s (word_of_nat i) + word_of_nat j) = m (dentry_addr s (word_of_nat i) + word_of_nat j)" if "j < 32" for j
  proof (rule assms(3))
    have "dentry_addr s (word_of_nat i) + word_of_nat j = g_directory_entries s + word_of_nat (64 * i + j)"
      by (simp add: dentry_addr_def)
    moreover have "unat (word_of_nat (64 * i + j) :: u32) = 64 * i + j" using assms(2) that by (intro unat_of_nat32) simp
    ultimately show "in_region (dentry_addr s (word_of_nat i) + word_of_nat j) (g_directory_entries s) 4096"
      using assms(2) that by (simp only: in_region_def add_diff_cancel_left')
  qed
  then have "read_bytes m' (dentry_addr s (word_of_nat i)) 32 = read_bytes m (dentry_addr s (word_of_nat i)) 32"
    by (simp add: read_bytes_def)
  moreover have "dentry_addr t (word_of_nat i) = dentry_addr s (word_of_nat i)" by (simp add: dentry_addr_def assms(1))
  ultimately show ?thesis by (simp add: dentry_name_def prefix_str_def)
qed

lemma names_from_cong:
  fixes s t :: "'a process_scheme"
  assumes "g_directory_entries t = g_directory_entries s" and "\<And>x. in_region x (g_directory_entries s) 4096 \<Longrightarrow> mem t x = mem s x"
  shows "names_from fd t = map (dentry_name s (mem s)) [unat (file_pos (fd_at fd t))..<17]"
  using dentry_name_cong [OF assms(1) _ assms(2)] by (auto simp: names_from_def)

lemma stdout_kept:
  assumes "stdout_ok buf s" and "same_devices s t" "fds_ok t" "fd_at 1 t = fd_at 1 s" and "\<And>x. in_region x VIDEO 4000 \<Longrightarrow> mem t x = mem s x"
  shows "stdout_ok buf t" "abs_screen t = abs_screen s"
proof -
  have d: "active_schedule t = active_schedule s" "terminal t = terminal s" "active_terminal t = active_terminal s" "screen_x t = screen_x s" "screen_y t = screen_y s"
    using assms(2) by (simp_all add: same_devices_def)
  have "cursor_ok t" using assms(1) d(4,5) by (simp add: stdout_ok_def cursor_ok_def)
  then show "stdout_ok buf t" by (rule stdout_ok_cong [OF assms(1,3,4) d(1-3)])
  have "screen_text (mem t) = screen_text (mem s)" by (rule screen_text_cong) (rule assms(5))
  then show "abs_screen t = abs_screen s" by (simp add: abs_screen_def d(4,5))
qed

lemma kernel_reads_name:
  fixes s :: "'a process_scheme"
  assumes ok: "ls_ok l buf fd s" and names: "names_from fd s = name # names"
  shows "\<exists>t. ece391_read (kernel_calls l keys ticks ex) fd buf 32 s = Some (32, t) \<and> ls_ok l buf fd t \<and> names_from fd t = names \<and> abs_screen t = abs_screen s
     \<and> read_bytes (mem t) buf 32 = padded name 32"
proof -
  let ?d = "fd_at fd s" and ?f = "\<lambda>d. d\<lparr>file_pos := file_pos d + 1\<rparr>"
  let ?k = "unat (file_pos ?d)"
  have fd: "2 \<le> fd" "fd < 8" and d: "flags ?d = 1" "descriptor_op_ptr ?d = directory_table" and std: "stdout_ok buf s" and dir: "dir_ok l buf s"
    using ok by (simp_all add: ls_ok_def)
  have k: "?k < 17" using names by (cases "?k < 17") (simp_all add: names_from_def)
  then have n: "name = dentry_name s (mem s) ?k" "names = map (dentry_name s (mem s)) [Suc ?k..<17]" using names by (simp_all add: names_from_def upt_conv_Cons)
  have fds: "fds_ok s" "buf \<noteq> 0" "disjoint_regions buf 1024 VIDEO 4000" using std by (simp_all add: stdout_ok_def)
  have l: "l_dentry l \<noteq> 0" "disjoint_regions (l_dentry l) 64 (g_directory_entries s) 1088" "disjoint_regions buf 32 (l_dentry l) 32"
    using dir disjoint_regions_mono by (fastforce simp: dir_ok_def)+
  have "file_pos ?d \<le> 16" using k by (simp add: word_le_nat_alt)
  then obtain m where r: "directory_read l fd buf 32 s = Some (32, set_fd (get_pcb s) (nat fd) ?f (s\<lparr>mem := m\<rparr>))"
    and b: "read_bytes m buf 32 = padded name 32" and keep: "\<And>x. \<not> in_region x buf 32 \<Longrightarrow> \<not> in_region x (l_dentry l) 64 \<Longrightarrow> m x = mem s x"
    using directory_read_lists [OF _ fd(2) _ l, of "32"] fd(1) n(1) by auto
  let ?t = "sti (cli (set_fd (get_pcb s) (nat fd) ?f (s\<lparr>mem := m\<rparr>)))"
  note t = descriptor_call [OF fds(1), where fd = fd and f = ?f and m = m]
  have "sys_read l (keys s) (ticks s) fd buf 32 s = Some (32, set_fd (get_pcb s) (nat fd) ?f (s\<lparr>mem := m\<rparr>))"
    using r fd d fds(2) by (simp add: sys_read_def)
  then have "ece391_read (kernel_calls l keys ticks ex) fd buf 32 s = Some (32, ?t)"
    using call_read [of l keys s ticks fd buf 32 32] fd by (simp add: kernel_calls_def)
  moreover have mt: "mem ?t = m" "fds_ok ?t" "same_devices s ?t" "fd_at 1 ?t = fd_at 1 s" "fd_at fd ?t = ?f ?d"
    using t(1) [of 1] t(1) [of fd] t(2-4) fd by auto
  have same: "m x = mem s x" if "in_region x a n" "disjoint_regions buf 1024 a n" "disjoint_regions (l_dentry l) 64 a n" for x a n
  proof (rule keep)
    show "\<not> in_region x buf 32" using that(1) disjoint_regionsD [OF that(2), of x] in_region_mono [of x buf 32 1024] by auto
    show "\<not> in_region x (l_dentry l) 64" using that(1) disjoint_regionsD [OF that(3), of x] by blast
  qed
  have "stdout_ok buf ?t" "abs_screen ?t = abs_screen s"
    by (rule stdout_kept [OF std mt(3,2,4)]; use same [of _ VIDEO 4000] mt(1) fds(3) dir in \<open>simp add: dir_ok_def\<close>)+
  moreover have g: "g_directory_entries ?t = g_directory_entries s" using mt(3) by (simp add: same_devices_def)
  have p: "unat (file_pos ?d + 1) = Suc ?k" using k by (simp add: unat_word_ariths)
  have "ls_ok l buf fd ?t" using ok \<open>stdout_ok buf ?t\<close> mt(5) g p k by (simp add: ls_ok_def dir_ok_def)
  moreover have "names_from fd ?t = names"
    using names_from_cong [OF g, of fd] same [of _ "g_directory_entries s" 4096] dir mt(1,5) p n(2) by (simp add: dir_ok_def)
  ultimately show ?thesis using b mt(1) by auto
qed

lemma kernel_reads_end:
  fixes s :: "'a process_scheme"
  assumes ok: "ls_ok l buf fd s" and names: "names_from fd s = []"
  shows "ece391_read (kernel_calls l keys ticks ex) fd buf 32 s = Some (0, sti (cli s))" "ls_ok l buf fd (sti (cli s))" "abs_screen (sti (cli s)) = abs_screen s"
proof -
  have fd: "2 \<le> fd" "fd < 8" and d: "flags (fd_at fd s) = 1" "descriptor_op_ptr (fd_at fd s) = directory_table" "buf \<noteq> 0"
    using ok by (simp_all add: ls_ok_def stdout_ok_def)
  have "file_pos (fd_at fd s) > 16" using names by (simp add: names_from_def word_less_nat_alt)
  then have "directory_read l fd buf 32 s = Some (0, s)" using fd by (simp add: directory_read_def read_dentry_by_index_def)
  then have "sys_read l (keys s) (ticks s) fd buf 32 s = Some (0, s)" using fd d by (simp add: sys_read_def)
  then show "ece391_read (kernel_calls l keys ticks ex) fd buf 32 s = Some (0, sti (cli s))"
    using call_read [of l keys s ticks fd buf 32 0 s] fd by (simp add: kernel_calls_def)
  have f: "fd_at j (sti (cli s)) = fd_at j s" "fds_ok (sti (cli s)) = fds_ok s" "same_devices s (sti (cli s))" "mem (sti (cli s)) = mem s"
    "dir_ok l buf (sti (cli s)) = dir_ok l buf s" for j
    by (simp_all add: fd_at_def fds_ok_def get_pcb_def same_devices_def dir_ok_def sti_def cli_def)
  have so: "stdout_ok buf s" "fds_ok s" using ok by (simp_all add: ls_ok_def stdout_ok_def)
  note k = stdout_kept [OF so(1) f(3) _ f(1) f(4) [THEN fun_cong], unfolded f(2), OF so(2)]
  show "abs_screen (sti (cli s)) = abs_screen s" by (rule k(2))
  show "ls_ok l buf fd (sti (cli s))" using ok k(1) by (simp add: ls_ok_def f)
qed

lemma ls_ok_kept:
  fixes s t :: "'a process_scheme"
  assumes ok: "ls_ok l buf fd s" and "stdout_ok buf t" "g_directory_entries t = g_directory_entries s" "\<And>j. fd_at j t = fd_at j s"
    and keep: "\<And>x. in_region x (g_directory_entries s) 4096 \<Longrightarrow> mem t x = mem s x"
  shows "ls_ok l buf fd t" "names_from fd t = names_from fd s"
  using ok assms(2-4) names_from_cong [OF assms(3) keep, of fd] by (simp_all add: ls_ok_def dir_ok_def names_from_def)

lemma kernel_writes_name:
  fixes s :: "'a process_scheme"
  assumes ok: "ls_ok l buf fd s" and "n \<le> 1024"
  shows "\<exists>t. ece391_write (kernel_calls l keys ticks ex) 1 buf (int n) s = Some (int n, t) \<and> ls_ok l buf fd t
     \<and> names_from fd t = names_from fd s \<and> abs_screen t = fold a_put (filter (\<lambda>b. b \<noteq> 0) (read_bytes (mem s) buf n)) (abs_screen s)"
proof -
  have std: "stdout_ok buf s" and v: "disjoint_regions VIDEO 4000 (g_directory_entries s) 4096" using ok by (simp_all add: ls_ok_def dir_ok_def)
  obtain t where t: "ece391_write (kernel_calls l keys ticks ex) 1 buf (int n) s = Some (int n, t)" "stdout_ok buf t"
    "abs_screen t = fold a_put (filter (\<lambda>b. b \<noteq> 0) (read_bytes (mem s) buf n)) (abs_screen s)" "g_directory_entries t = g_directory_entries s"
    and fd: "\<And>j. fd_at j t = fd_at j s" and keep: "\<And>x. \<not> in_region x VIDEO 4000 \<Longrightarrow> mem t x = mem s x"
    using stdout_write [OF std assms(2)] by blast
  have "mem t x = mem s x" if "in_region x (g_directory_entries s) 4096" for x using that keep disjoint_regionsD [OF v] by blast
  from ls_ok_kept [OF ok t(2,4) fd this] show ?thesis using t(1,3) by blast
qed

lemma kernel_stores:
  fixes s :: "'a process_scheme" and b :: u8
  assumes ok: "ls_ok l buf fd s" and st: "t = store (kernel_calls l keys ticks ex) (buf + 32) b s"
  shows "ls_ok l buf fd t" "names_from fd t = names_from fd s" "abs_screen t = abs_screen s" "read_bytes (mem t) buf 33 = read_bytes (mem s) buf 32 @ [b]"
proof -
  have t: "t = s\<lparr>mem := (mem s)(buf + 32 := b)\<rparr>" by (simp add: st store_def kernel_calls_def)
  have std: "stdout_ok buf s" "fds_ok s" and d: "disjoint_regions buf 1024 VIDEO 4000" "disjoint_regions buf 1024 (g_directory_entries s) 4096"
    using ok by (simp_all add: ls_ok_def dir_ok_def stdout_ok_def)
  have "in_region (buf + 32) buf 1024" by (simp add: in_region_def)
  then have keep: "mem t x = mem s x" if "in_region x a n" "disjoint_regions buf 1024 a n" for x a n
    using disjoint_regionsD [OF that(2), of x] that(1) by (auto simp: t)
  have f: "fds_ok t" "same_devices s t" "fd_at j t = fd_at j s" for j
    using std(2) by (simp_all add: t fds_ok_def get_pcb_def fd_at_def same_devices_def)
  have g: "g_directory_entries t = g_directory_entries s" by (simp add: t)
  note so = stdout_kept [OF std(1) f(2,1,3) keep [OF _ d(1)]]
  show "abs_screen t = abs_screen s" by (rule so(2))
  show "ls_ok l buf fd t" "names_from fd t = names_from fd s" using ls_ok_kept [OF ok so(1) g f(3) keep [OF _ d(2)]] by blast+
  have "read_bytes (mem t) buf 33 = read_bytes (mem t) buf 32 @ [mem t (buf + 32)]" by (simp add: read_bytes_def numeral_eq_Suc)
  moreover have "read_bytes (mem t) buf 32 = read_bytes (mem s) buf 32"
  proof -
    have "buf + word_of_nat j \<noteq> buf + 32" if "j < 32" for j
    proof
      assume "buf + word_of_nat j = buf + 32"
      then have "unat (word_of_nat j :: u32) = unat (32 :: u32)" by simp
      then show False using that by (simp add: unat_of_nat32)
    qed
    then show ?thesis by (simp add: t read_bytes_def)
  qed
  ultimately show "read_bytes (mem t) buf 33 = read_bytes (mem s) buf 32 @ [b]" by (simp add: t)
qed

interpretation ls_listing: listing_service "kernel_calls l keys ticks ex" buf "ls_ok l buf fd" "names_from fd" abs_screen fd
  for l keys ticks ex buf fd
proof
  fix s :: "'a process_scheme" and n :: nat
  assume "ls_ok l buf fd s" "n \<le> 1024"
  from kernel_writes_name [OF this] show "\<exists>t. ece391_write (kernel_calls l keys ticks ex) 1 buf (int n) s = Some (int n, t) \<and> ls_ok l buf fd t
      \<and> names_from fd t = names_from fd s
      \<and> abs_screen t = fold a_put (filter (\<lambda>b. b \<noteq> 0) (read_bytes (user_mem (kernel_calls l keys ticks ex) s) buf n)) (abs_screen s)"
    by (simp add: kernel_calls_def)
next
  fix s :: "'a process_scheme" and name names
  assume "ls_ok l buf fd s" "names_from fd s = name # names"
  from kernel_reads_name [OF this] show "\<exists>t. ece391_read (kernel_calls l keys ticks ex) fd buf 32 s = Some (32, t) \<and> ls_ok l buf fd t
      \<and> names_from fd t = names \<and> abs_screen t = abs_screen s \<and> read_bytes (user_mem (kernel_calls l keys ticks ex) t) buf 32 = padded name 32"
    by (simp add: kernel_calls_def)
next
  fix s :: "'a process_scheme"
  assume "ls_ok l buf fd s" "names_from fd s = []"
  from kernel_reads_end [OF this] show "\<exists>t. ece391_read (kernel_calls l keys ticks ex) fd buf 32 s = Some (0, t) \<and> ls_ok l buf fd t \<and> abs_screen t = abs_screen s"
    by blast
next
  fix s :: "'a process_scheme" and b
  assume "ls_ok l buf fd s"
  from kernel_stores [OF this refl, of keys ticks ex b]
  show "ls_ok l buf fd (store (kernel_calls l keys ticks ex) (buf + 32) b s)
      \<and> names_from fd (store (kernel_calls l keys ticks ex) (buf + 32) b s) = names_from fd s
      \<and> abs_screen (store (kernel_calls l keys ticks ex) (buf + 32) b s) = abs_screen s
      \<and> read_bytes (user_mem (kernel_calls l keys ticks ex) (store (kernel_calls l keys ticks ex) (buf + 32) b s)) buf 33
        = read_bytes (user_mem (kernel_calls l keys ticks ex) s) buf 32 @ [b]"
    by (simp add: kernel_calls_def)
qed

section \<open>Properties\<close>

text \<open>
  C7. The program \<open>ls\<close> on this kernel. When the image has the directory \<open>.\<close>, \<open>main\<close> of \<open>ls\<close>, making its system calls through the trap gate, ends with status 0, and what it
  has added to the screen is the names in the slots 0 to 16 of the directory, each on a line of its own, whether the slots are in use or not.
\<close>

theorem ls_lists_directory:
  fixes s :: "'a process_scheme"
  assumes dot: "cstring (mem s) (p_literal p ''.'') (bytes ''.'')" "p_literal p ''.'' \<noteq> 0"
    and slot: "slot_of s (mem s) (bytes ''.'') = Some i" and type: "dentry_type (mem s) (dentry_addr s (word_of_nat i)) = 1"
    and dir: "dir_ok l (p_buf p) s" and std: "stdout_ok (p_buf p) s" and used: "fd_used s 0" and free: "free_fd (this_pcb s) = Some loc"
  shows "\<exists>t. ls_main (kernel_calls l keys ticks ex) p s = Some (0, t)
     \<and> abs_screen t = fold a_put (concat (map (\<lambda>j. dentry_name s (mem s) j @ [10]) [0..<17])) (abs_screen s)"
proof -
  let ?c = "kernel_calls l keys ticks ex" and ?buf = "p_buf p"
  have sd: "fds_ok s" "fd_used s 1" using std by (simp_all add: stdout_ok_def fd_used_def fd_at_def)
  have l: "l_dentry l \<noteq> 0" "disjoint_regions (l_dentry l) 64 (g_directory_entries s) 4096" "disjoint_regions (l_dentry l) 64 VIDEO 4000"
    using dir by (simp_all add: dir_ok_def)
  have tbl: "table_of_type (dentry_type (mem s) (dentry_addr s (word_of_nat i))) (dentry_inode_num (mem s) (dentry_addr s (word_of_nat i)))
      = Some (directory_table, 0, 0)" using type by (simp add: table_of_type_def)
  obtain v where v: "ece391_open ?c (p_literal p ''.'') s = Some (int loc, v)" "same_devices s v" "fds_ok v"
    and keep: "\<And>x. \<not> in_region x (l_dentry l) 64 \<Longrightarrow> mem v x = mem s x"
    and at: "\<And>j. j < 8 \<Longrightarrow> fd_at (int j) v = (if j = loc then \<lparr>descriptor_op_ptr = directory_table, inode_num = 0, file_pos = 0, flags = 1\<rparr> else fd_at (int j) s)"
    using kernel_opens_table [OF sd(1) dot(1) _ _ dot(2) l(1,2) slot tbl _ free, where keys = keys and ticks = ticks and ex = ex] by auto
  have "loc < 8" "\<not> fd_used s loc" using fds.first_free_Some [OF sd(1)] free by blast+
  then have loc: "loc < 8" "2 \<le> loc" using sd(2) used by (cases "loc = 0 \<or> loc = 1"; auto)+
  have same: "mem v x = mem s x" if "in_region x a n" "disjoint_regions (l_dentry l) 64 a n" for x a n
    using keep that(1) disjoint_regionsD [OF that(2), of x] by blast
  have fd1: "fd_at 1 v = fd_at 1 s" using at [of 1] loc by simp
  note so = stdout_kept [OF std v(2,3) fd1 same [OF _ l(3)]]
  have g: "g_directory_entries v = g_directory_entries s" using v(2) by (simp add: same_devices_def)
  have ok: "ls_ok l ?buf (int loc) v" using loc at [OF loc(1)] dir so(1) g by (simp add: ls_ok_def dir_ok_def)
  have names: "names_from (int loc) v = map (dentry_name s (mem s)) [0..<17]"
    using names_from_cong [OF g same [OF _ l(2)], of "int loc"] at [OF loc(1)] by simp
  have "\<forall>name \<in> set (names_from (int loc) v). 0 \<notin> set name \<and> length name \<le> 32"
    using length_takeWhile_le by (auto simp: names dentry_name_def prefix_str_def dest: set_takeWhileD intro: order_trans [OF length_takeWhile_le])
  from ls_listing.ls_loop_lists [OF ok refl this] obtain t where t: "ls_loop ?c p (int loc) v = Some (0, t)"
    "abs_screen t = fold a_put (concat (map (\<lambda>name. name @ [10]) (names_from (int loc) v))) (abs_screen v)" by blast
  have "ls_main ?c p s = Some (0, t)" using v(1) t(1) by (simp add: ls_main_def)
  then show ?thesis using t(2) so(2) by (simp add: names comp_def)
qed

text \<open>The image of the tests has the directory in slot 0 and nothing else; \<open>ls\<close> prints a dot and sixteen empty lines.\<close>

theorem ls_lists_directory_witness:
  "\<exists>t. ls_main (kernel_calls locals_example (\<lambda>_. []) (\<lambda>_. []) (\<lambda>_ _. None)) test_layout test_example = Some (0, t)
     \<and> abs_screen t = fold a_put (bytes ''.'' @ replicate 17 10) (abs_screen test_example)"
proof -
  have lit: "cstring (mem test_example) (p_literal test_layout ''.'') (bytes ''.'')" "p_literal test_layout ''.'' \<noteq> 0"
    using test_example_literals by (simp_all add: list_all_iff test_strings_def literal_ok_def test_example_sel)
  have type: "dentry_type (mem test_example) (dentry_addr test_example (word_of_nat 0)) = 1"
    by (simp add: dentry_type_def dentry_addr_def test_example_sel test_example_loads)
  have slot: "slot_of test_example (mem test_example) (bytes ''.'') = Some 0" using test_example_slots by (simp add: test_example_sel)
  have dir: "dir_ok locals_example (p_buf test_layout) test_example"
    by (simp add: dir_ok_def locals_example_def test_layout_def test_example_sel disjoint_regions_def)
  have std: "stdout_ok (p_buf test_layout) test_example"
    using test_example_sel(6) by (simp add: stdout_ok_def test_layout_def test_example_sel disjoint_regions_def fds_ok_def fd_at_def stdio_fd_def foreground_def cursor_ok_def term_at_def
        terminal_example_def)
  have free: "fd_used test_example 0" "free_fd (this_pcb test_example) = Some 2"
    using test_example_sel(6) by (simp_all add: fd_used_def free_fd_def scan_def test_example_sel stdio_fd_def closed_fd_def numeral_eq_Suc)
  have "concat (map (\<lambda>j. dentry_name test_example (mem test_example) j @ [10]) [0..<17]) = bytes ''.'' @ replicate 17 10"
  proof -
    have "map (\<lambda>j. dentry_name test_example (mem test_example) j @ [10]) [0..<17] = map (\<lambda>j. (if j = 0 then bytes ''.'' else []) @ [10]) [0..<17]"
      using test_example_names by (simp add: test_example_sel)
    moreover have "concat (map (\<lambda>j. (if j = 0 then bytes ''.'' else []) @ [10]) [0..<17 :: nat]) = bytes ''.'' @ replicate 17 10" by code_simp
    ultimately show ?thesis by (simp only:)
  qed
  then show ?thesis
    using ls_lists_directory [OF lit slot type dir std free, where keys = "\<lambda>_. []" and ticks = "\<lambda>_. []" and ex = "\<lambda>_ _. None"] by (simp only:)
qed

end
