(* ===== verification/Self_Tests.thy ===== *)
theory Self_Tests
  imports Interrupts
begin

text \<open>
  The self-tests of \<^verbatim>\<open>src/student-distrib/tests.c\<close>. Nothing calls them in this version of the kernel, but they
  are a specification by example: the result is that they do what their comments say. A test either ends with its result or is trapped in the loop of an
  exception handler; \<open>None\<close> is an exception that leads to no handler, or a string without end. The tests that go through an uninitialised pointer take it as an argument. The
  macros of \<^verbatim>\<open>debug.h\<close> are here too.
\<close>

section \<open>The tests\<close>

text \<open>The header line. \<open>__FILE__\<close> depends on how the compiler is called.\<close>

definition TEST_HEADER :: "string \<Rightarrow> string \<Rightarrow> string \<Rightarrow> 'a console_scheme \<Rightarrow> 'a console_scheme" where
  "TEST_HEADER path name line s = put_string (bytes (''[TEST '' @ name @ ''] Running '' @ name @ '' at '' @ path @ '':'' @ line @ [CHR 0x0A])) s"

definition TEST_OUTPUT :: "string \<Rightarrow> bool \<Rightarrow> 'a console_scheme \<Rightarrow> 'a console_scheme" where
  "TEST_OUTPUT name result s = put_string (bytes (''[TEST '' @ name @ ''] Result = '' @ (if result then ''PASS'' else ''FAIL'') @ [CHR 0x0A])) s"

text \<open>
  \<open>DEBUG\<close> is a compile-time switch. The text of the expression is what the preprocessor makes of the argument, and the message of \<open>debugf\<close> is what its arguments render to.
\<close>

definition ASSERT :: "bool \<Rightarrow> string \<Rightarrow> u32 \<Rightarrow> string \<Rightarrow> bool \<Rightarrow> 'a console_scheme \<Rightarrow> 'a console_scheme" where
  "ASSERT DEBUG path line expression holds s =
     (if DEBUG \<and> \<not> holds
      then put_string (bytes (path @ '':'') @ rendering (Unsigned line) @ bytes ('': Assertion `'' @ expression @ [CHR 0x27] @ '' failed.'' @ [CHR 0x0A])) s else s)"

definition debugf :: "bool \<Rightarrow> string \<Rightarrow> u32 \<Rightarrow> piece list \<Rightarrow> 'a console_scheme \<Rightarrow> 'a console_scheme" where
  "debugf DEBUG path line message s =
     (if DEBUG then put_string (concat (map rendering message)) (put_string (bytes (path @ '':'') @ rendering (Unsigned line) @ bytes '': '') s) else s)"

datatype 's tested = Ended bool 's | Trapped 's

text \<open>The processor delivers a vector; when its handler returns, the rest of the test goes on.\<close>

definition raises :: "(u32 \<Rightarrow> handler option) \<Rightarrow> 'a kernel_scheme int_context \<Rightarrow> nat \<Rightarrow> ('a kernel_scheme \<Rightarrow> 'a kernel_scheme tested option)
    \<Rightarrow> 'a kernel_scheme \<Rightarrow> 'a kernel_scheme tested option" where
  "raises code x v rest s =
     (case deliver code x v s of
        Some (Stuck t) \<Rightarrow> Some (Trapped t)
      | Some (Finished (Return _ t)) \<Rightarrow> rest t
      | _ \<Rightarrow> None)"

definition assertion_failure :: "(u32 \<Rightarrow> handler option) \<Rightarrow> 'a kernel_scheme int_context \<Rightarrow> ('a kernel_scheme \<Rightarrow> 'a kernel_scheme tested option)
    \<Rightarrow> 'a kernel_scheme \<Rightarrow> 'a kernel_scheme tested option" where
  "assertion_failure code x rest s = raises code x 15 rest s"

primrec check_gates :: "(u32 \<Rightarrow> handler option) \<Rightarrow> 'a kernel_scheme int_context \<Rightarrow> (idt_desc_t \<Rightarrow> bool) \<Rightarrow> nat list \<Rightarrow> bool
    \<Rightarrow> 'a kernel_scheme \<Rightarrow> 'a kernel_scheme tested option" where
  "check_gates code x bad [] result s = Some (Ended result s)"
| "check_gates code x bad (i # is) result s =
     (if bad (idt s ! i) then assertion_failure code x (check_gates code x bad is False) s
      else check_gates code x bad is result s)"

definition idt_test :: "(u32 \<Rightarrow> handler option) \<Rightarrow> 'a kernel_scheme int_context \<Rightarrow> string \<Rightarrow> 'a kernel_scheme \<Rightarrow> 'a kernel_scheme tested option" where
  "idt_test code x path s = do {
     r \<leftarrow> check_gates code x (\<lambda>d. offset_15_00 d = 0 \<and> offset_31_16 d = 0) [0..<20] True (TEST_HEADER path ''idt_test'' ''37'' s);
     (case r of
        Ended result s \<Rightarrow> check_gates code x (\<lambda>d. idt_size d \<le> 0 \<or> idt_present d \<noteq> 1) [0..<256] result s
      | Trapped s \<Rightarrow> Some (Trapped s))
   }"

text \<open>
  A division by zero is vector 0, an access to a page that is not present vector 14; a handler that returned would lead to the same instruction again, and none
  does.
\<close>

definition divide_by_zero_test :: "(u32 \<Rightarrow> handler option) \<Rightarrow> 'a kernel_scheme int_context \<Rightarrow> string \<Rightarrow> 'a kernel_scheme \<Rightarrow> 'a kernel_scheme tested option" where
  "divide_by_zero_test code c path s =
     (let s = TEST_HEADER path ''divide_by_zero_test'' ''66'' s;
          y = 1 :: int;
          x = 0 :: int
      in if x = 0 then raises code c 0 (\<lambda>_. None) s else (let y = y div x in Some (Ended True s)))"

definition mapped :: "'a kernel_scheme \<Rightarrow> u32 \<Rightarrow> bool" where
  "mapped s p \<longleftrightarrow> list_all (\<lambda>i. translate s (p + word_of_nat i) \<noteq> None) [0..<4]"

text \<open>\<^verbatim>\<open>*test_deref_pass = *test_deref_location\<close>\<close>

definition copy_int :: "(u32 \<Rightarrow> handler option) \<Rightarrow> 'a kernel_scheme int_context \<Rightarrow> u32 \<Rightarrow> u32 \<Rightarrow> ('a kernel_scheme \<Rightarrow> 'a kernel_scheme tested option)
    \<Rightarrow> 'a kernel_scheme \<Rightarrow> 'a kernel_scheme tested option" where
  "copy_int code x test_deref_location test_deref_pass rest s =
     (if mapped s test_deref_location \<and> mapped s test_deref_pass
      then rest (s\<lparr>mem := store32 (mem s) test_deref_pass (load32 (mem s) test_deref_location)\<rparr>)
      else raises code x 14 (\<lambda>_. None) s)"

definition paging_dereferencing_valid_range_test :: "(u32 \<Rightarrow> handler option) \<Rightarrow> 'a kernel_scheme int_context \<Rightarrow> u32 \<Rightarrow> string
    \<Rightarrow> 'a kernel_scheme \<Rightarrow> 'a kernel_scheme tested option" where
  "paging_dereferencing_valid_range_test code x test_deref_pass path s =
     copy_int code x 0x400001 test_deref_pass
       (copy_int code x 0x799999 test_deref_pass (\<lambda>s. Some (Ended True s)))
       (TEST_HEADER path ''paging_dereferencing_valid_range_test'' ''90'' s)"

definition paging_dereferencing_invalid_test :: "(u32 \<Rightarrow> handler option) \<Rightarrow> 'a kernel_scheme int_context \<Rightarrow> u32 \<Rightarrow> string
    \<Rightarrow> 'a kernel_scheme \<Rightarrow> 'a kernel_scheme tested option" where
  "paging_dereferencing_invalid_test code x test_deref_pass path s =
     copy_int code x 0x800001 test_deref_pass (\<lambda>s. Some (Ended True s))
       (TEST_HEADER path ''paging_dereferencing_invalid_test'' ''113'' s)"

text \<open>
  The directive is \<^verbatim>\<open>%s\<close> and the argument a character, so every character of the name is taken for the address of a string. The entry and the strings are
  read and written in the flat memory.
\<close>

primrec print_names :: "u32 \<Rightarrow> nat list \<Rightarrow> 'a console_scheme \<Rightarrow> 'a console_scheme option" where
  "print_names test [] s = Some s"
| "print_names test (i # is) s = do {
     (_, s) \<leftarrow> puts (scast (mem s (test + word_of_nat i))) s;
     print_names test is s
   }"

definition read_by_index_test :: "u32 \<Rightarrow> string \<Rightarrow> 'a fs_scheme \<Rightarrow> 'a fs_scheme tested option" where
  "read_by_index_test test path s =
     (let (_, s) = read_dentry_by_index 5 test (TEST_HEADER path ''read_by_index_test'' ''124'' s)
      in map_option (Ended True) (print_names test [0..<32] s))"

definition rtc_open_test :: "u32 \<Rightarrow> string \<Rightarrow> 'a rtc_scheme \<Rightarrow> bool \<times> 'a rtc_scheme" where
  "rtc_open_test init_frequency path s =
     (let (r, s) = rtc_open init_frequency 0 (TEST_HEADER path ''rtc_open_test'' ''140'' s) in (r = 0, s))"

definition rtc_read_test :: "bool list \<Rightarrow> string \<Rightarrow> 'a rtc_scheme \<Rightarrow> (bool \<times> 'a rtc_scheme) option" where
  "rtc_read_test ticks path s = map_option (\<lambda>(r, s). (r = 0, s)) (rtc_read ticks 0 0 4 (TEST_HEADER path ''rtc_read_test'' ''153'' s))"

definition write_frequency :: "u32 \<Rightarrow> int \<Rightarrow> 'a rtc_scheme \<Rightarrow> int \<times> 'a rtc_scheme" where
  "write_frequency frequency v s = rtc_write 0 frequency 4 (s\<lparr>mem := store32 (mem s) frequency (word_of_int v)\<rparr>)"

text \<open>The loop over the frequencies: the shift grows by one each time, so the values are 1024, 512, 128 and 16.\<close>

function freq_loop :: "u32 \<Rightarrow> int \<Rightarrow> nat \<Rightarrow> 'a rtc_scheme \<Rightarrow> bool \<times> 'a rtc_scheme" where
  "freq_loop frequency v pow2_counter s =
     (if v \<ge> 2 then
        let (write_result, s) = write_frequency frequency v s
        in if write_result \<noteq> 0 then (False, s) else freq_loop frequency (drop_bit (pow2_counter + 1) v) (pow2_counter + 1) s
      else (True, s))"
  by pat_completeness auto
termination
proof (relation "measure (\<lambda>(a, v, k, s). nat v)", goal_cases)
  case (2 a v k s)
  have "(1 :: int) < 2 ^ (k + 1)" by (rule one_less_power) simp_all
  then have "v div 2 ^ (k + 1) < v" using 2 by (intro int_div_less_self) simp_all
  then show ?case using 2 by (simp add: drop_bit_eq_div del: power_Suc)
qed simp

declare freq_loop.simps [simp del]

definition rtc_write_freq_test :: "u32 \<Rightarrow> string \<Rightarrow> 'a rtc_scheme \<Rightarrow> bool \<times> 'a rtc_scheme" where
  "rtc_write_freq_test frequency path s =
     (let (pass, s) = freq_loop frequency 1024 0 (TEST_HEADER path ''rtc_write_freq_test'' ''167'' s)
      in if \<not> pass then (False, s)
         else let (r, s) = write_frequency frequency 2048 s
              in if r \<noteq> -1 then (False, s)
                 else let (r, s) = write_frequency frequency 1 s in (r = -1, s))"

definition rtc_write_freq_print_test :: "u32 \<Rightarrow> nat \<Rightarrow> 'a rtc_scheme \<Rightarrow> bool \<times> 'a rtc_scheme" where
  "rtc_write_freq_print_test frequency rate s = (True, snd (write_frequency frequency (drop_bit rate 1024) s))"

definition rtc_close_test :: "string \<Rightarrow> 'a rtc_scheme \<Rightarrow> bool \<times> 'a rtc_scheme" where
  "rtc_close_test path s = (let (r, s) = rtc_close 0 (TEST_HEADER path ''rtc_close_test'' ''217'' s) in (r = 0, s))"

section \<open>They pass\<close>

lemma write_frequency_result:
  assumes "a \<noteq> 0" "0 \<le> v" "v < 2147483648"
  shows "fst (write_frequency a v s) = (if v \<in> set frequency_options then 0 else -1)"
proof -
  let ?s = "s\<lparr>mem := store32 (mem s) a (word_of_int v)\<rparr>"
  have "sint (load32 (mem ?s) a) = v" using assms by (simp add: load_store32 sint_of_int32)
  then show ?thesis using rtc_write_ok [of a ?s 0] rtc_write_bad [of a 4 ?s 0] assms(1) by (simp add: write_frequency_def)
qed

lemma freq_loop_next:
  assumes "a \<noteq> 0" "2 \<le> v" "v < 2147483648" "v \<in> set frequency_options"
  shows "fst (freq_loop a v k s) = fst (freq_loop a (drop_bit (k + 1) v) (k + 1) (snd (write_frequency a v s)))"
  using write_frequency_result [of a v s] assms by (subst freq_loop.simps) (simp add: split_def)

lemma freq_loop_passes:
  assumes "a \<noteq> 0" shows "fst (freq_loop a 1024 0 s)"
proof -
  have "fst (freq_loop a 1 4 s)" for s by (subst freq_loop.simps) simp
  then have "fst (freq_loop a 16 3 s)" for s
    using freq_loop_next [OF assms, of 16 3 s] by (simp add: frequency_options_def)
  then have "fst (freq_loop a 128 2 s)" for s
    using freq_loop_next [OF assms, of 128 2 s] by (simp add: frequency_options_def)
  then have "fst (freq_loop a 512 1 s)" for s
    using freq_loop_next [OF assms, of 512 1 s] by (simp add: frequency_options_def numeral_2_eq_2 [symmetric])
  then show ?thesis using freq_loop_next [OF assms, of 1024 0 s] by (simp add: frequency_options_def)
qed

lemma freq_test_passes:
  assumes "a \<noteq> 0" shows "fst (rtc_write_freq_test a path s)"
proof -
  obtain u where "freq_loop a 1024 0 (TEST_HEADER path ''rtc_write_freq_test'' ''167'' s) = (True, u)"
    using freq_loop_passes [OF assms, of "TEST_HEADER path ''rtc_write_freq_test'' ''167'' s"]
    by (cases "freq_loop a 1024 0 (TEST_HEADER path ''rtc_write_freq_test'' ''167'' s)") simp
  moreover obtain v where "write_frequency a 2048 u = (-1, v)"
    using write_frequency_result [OF assms, of 2048 u] by (cases "write_frequency a 2048 u") (simp add: frequency_options_def)
  moreover obtain w where "write_frequency a 1 v = (-1, w)"
    using write_frequency_result [OF assms, of 1 v] by (cases "write_frequency a 1 v") (simp add: frequency_options_def)
  ultimately show ?thesis by (simp add: rtc_write_freq_test_def Let_def)
qed

lemma TEST_HEADER_idt: "idt (TEST_HEADER path name line s) = idt s"
proof -
  have "console.more (TEST_HEADER path name line s) = console.more s" by (simp add: TEST_HEADER_def put_string_sel)
  then show ?thesis by (cases s; cases "TEST_HEADER path name line s"; simp)
qed

lemma TEST_HEADER_translate: "translate (TEST_HEADER path name line s) = translate s"
proof -
  have "console.more (TEST_HEADER path name line s) = console.more s" by (simp add: TEST_HEADER_def put_string_sel)
  then show ?thesis
    by (cases s; cases "TEST_HEADER path name line s"; simp add: fun_eq_iff translate_def page_table_at_def Let_def split: option.splits)
qed

lemma check_gates_pass: "(\<And>i. i \<in> set is \<Longrightarrow> \<not> bad (idt s ! i)) \<Longrightarrow> check_gates code x bad is r s = Some (Ended r s)"
  by (induction "is") simp_all

lemma idt_test_passes:
  assumes "length (idt s) = 256" and "\<And>h. addr h \<noteq> 0" and t: "idt t = idt (initialize_idt addr base s)"
  shows "idt_test code x path t = Some (Ended True (TEST_HEADER path ''idt_test'' ''37'' t))"
proof -
  let ?t = "TEST_HEADER path ''idt_test'' ''37'' t"
  note g = initialize_idt_gates [OF assms(1), of _ addr base, folded t]
  have "\<not> (offset_15_00 (idt t ! v) = 0 \<and> offset_31_16 (idt t ! v) = 0)" if "v < 20" for v
    using g(3) [of v] that assms(2) by (auto simp: handler_of_def gate_offset_def split: if_splits)
  moreover have "\<not> (idt_size (idt t ! v) \<le> 0 \<or> idt_present (idt t ! v) \<noteq> 1)" if "v < 256" for v
    using g(2) [OF that] by (simp add: gate_flags_def ready_flags_def)
  ultimately have "check_gates code x (\<lambda>d. offset_15_00 d = 0 \<and> offset_31_16 d = 0) [0..<20] True ?t = Some (Ended True ?t)"
    "check_gates code x (\<lambda>d. idt_size d \<le> 0 \<or> idt_present d \<noteq> 1) [0..<256] True ?t = Some (Ended True ?t)"
    by (intro check_gates_pass; simp add: TEST_HEADER_idt)+
  then show ?thesis by (simp only: idt_test_def Option.bind_lunit tested.case)
qed

lemma raises_trapped:
  assumes "length (idt s) = 256" and "v < 20" and "\<And>h. code (addr h) = Some h" and "idt t = idt (initialize_idt addr base s)"
  shows "raises code x v rest t = Some (Trapped (put_string (exception_text (x_ecx x) v) t))"
  using exception_delivered [OF assms] by (simp add: raises_def)

lemma copy_int_passes:
  assumes "\<And>va. translate s va = (if va < 0x800000 then Some va else None)" and "p < 0x7FFFFC" "q < 0x7FFFFC"
  shows "copy_int code x p q rest s = rest (s\<lparr>mem := store32 (mem s) q (load32 (mem s) p)\<rparr>)"
proof -
  have "r + word_of_nat i < 0x800000" if "r < 0x7FFFFC" "i < 4" for r :: u32 and i
    using that by (simp add: word_less_nat_alt unat_word_ariths unat_of_nat)
  then have "mapped s r" if "r < 0x7FFFFC" for r using that by (simp add: mapped_def list_all_iff assms(1))
  then show ?thesis using assms(2,3) by (simp add: copy_int_def)
qed

lemma copy_int_faults: "(\<And>va. translate s va = (if va < 0x800000 then Some va else None)) \<Longrightarrow> copy_int code x 0x800001 q rest s = raises code x 14 (\<lambda>_. None) s"
  by (simp add: copy_int_def mapped_def upt_rec)

lemma initialize_idt_paging: "tables_ok (initialize_idt addr base s) = tables_ok s" "addr_pTable2 (initialize_idt addr base s) = addr_pTable2 s"
  "idt (paging_init u) = idt u"
proof -
  obtain g where "initialize_idt addr base s = s\<lparr>idtr := (2047, base), idt := g\<rparr>" using initialize_idt_frame by metis
  then show "tables_ok (initialize_idt addr base s) = tables_ok s" "addr_pTable2 (initialize_idt addr base s) = addr_pTable2 s"
    by (simp_all add: tables_ok_def)
  have "idt (fold paging_init_entry is u) = idt u" for "is" by (induction "is" arbitrary: u) (simp_all add: paging_init_entry_def Let_def)
  then show "idt (paging_init u) = idt u" by (simp add: paging_init_def Let_def)
qed

section \<open>Properties\<close>

text \<open>
  C38. The self-tests do what they say. After \<open>initialize_idt\<close> and \<open>paging_init\<close>, with no handler at address 0: the test of the descriptor table passes; the test of the valid
  addresses passes when its uninitialised pointer happens to lie in the first 8 MB, and the test of the invalid address ends in the page fault handler; the division ends in the handler of
  the divide error; and the tests of the clock pass: opening, writing all tested frequencies, the two refused ones included, closing, and reading once an interrupt has arrived.
\<close>

theorem self_tests_pass:
  assumes "length (idt s) = 256" and "\<And>h. addr h \<noteq> 0" and "\<And>h. code (addr h) = Some h"
    and "tables_ok s" and "0x400000 \<le> addr_pTable2 s" and "addr_pTable2 s < 0x800000"
    and "t = paging_init (initialize_idt addr base s)" and "p < 0x7FFFFC" and "a \<noteq> 0" and "True \<in> set ticks"
  shows "idt_test code x path t = Some (Ended True (TEST_HEADER path ''idt_test'' ''37'' t))
     \<and> (\<exists>u. paging_dereferencing_valid_range_test code x p path t = Some (Ended True u))
     \<and> paging_dereferencing_invalid_test code x p path t
         = Some (Trapped (put_string (exception_text (x_ecx x) 14) (TEST_HEADER path ''paging_dereferencing_invalid_test'' ''113'' t)))
     \<and> divide_by_zero_test code x path t = Some (Trapped (put_string (bytes ''Divide error'') (TEST_HEADER path ''divide_by_zero_test'' ''66'' t)))
     \<and> fst (rtc_open_test a path r) \<and> fst (rtc_write_freq_test a path r) \<and> fst (rtc_close_test path r)
     \<and> (\<exists>u. rtc_read_test ticks path r = Some (True, u))"
proof -
  have i: "idt t = idt (initialize_idt addr base s)" by (simp only: assms(7) initialize_idt_paging)
  then have h: "idt (TEST_HEADER path name line t) = idt (initialize_idt addr base s)" for name line by (simp only: TEST_HEADER_idt)
  have tr: "translate (TEST_HEADER path name line t) va = (if va < 0x800000 then Some va else None)" for name line va
    unfolding TEST_HEADER_translate assms(7) by (rule identity_map) (use assms(4-6) in \<open>simp_all add: initialize_idt_paging\<close>)
  note trap = raises_trapped [OF assms(1) _ assms(3) h]
  have "paging_dereferencing_invalid_test code x p path t
      = Some (Trapped (put_string (exception_text (x_ecx x) 14) (TEST_HEADER path ''paging_dereferencing_invalid_test'' ''113'' t)))"
    unfolding paging_dereferencing_invalid_test_def copy_int_faults [OF tr] by (rule trap) simp
  moreover have "exception_text (x_ecx x) 0 = bytes ''Divide error''" by (simp add: exception_text_def messages_def)
  then have "divide_by_zero_test code x path t = Some (Trapped (put_string (bytes ''Divide error'') (TEST_HEADER path ''divide_by_zero_test'' ''66'' t)))"
    using trap [of 0 x "\<lambda>_. None"] by (simp add: divide_by_zero_test_def)
  moreover have "\<exists>u. paging_dereferencing_valid_range_test code x p path t = Some (Ended True u)"
  proof -
    have m: "translate (u\<lparr>mem := m\<rparr>) = translate u" for u :: "'a kernel_scheme" and m
      by (simp add: fun_eq_iff translate_def page_table_at_def Let_def split: option.splits)
    show ?thesis unfolding paging_dereferencing_valid_range_test_def using assms(8) by (simp add: copy_int_passes m tr)
  qed
  moreover have "fst (rtc_open_test a path r)" "fst (rtc_close_test path r)"
    by (simp_all add: rtc_open_test_def rtc_open_def rtc_close_test_def rtc_close_def Let_def)
  moreover have "\<exists>u. rtc_read_test ticks path r = Some (True, u)"
    using assms(10) by (simp add: rtc_read_test_def rtc_read_def rtc_read_loop_returns)
  ultimately show ?thesis using idt_test_passes [OF assms(1,2) i] freq_test_passes [OF assms(9)] by (intro conjI)
qed

text \<open>The linker of the example, with a local variable on the kernel stack as the uninitialised pointer.\<close>

theorem self_tests_pass_witness:
  "\<exists>code x. divide_by_zero_test code x ''tests.c'' (paging_init (initialize_idt link_example 0x500000 kernel_example))
       = Some (Trapped (put_string (bytes ''Divide error'') (TEST_HEADER ''tests.c'' ''divide_by_zero_test'' ''66'' (paging_init (initialize_idt link_example 0x500000 kernel_example)))))
     \<and> (\<exists>u. paging_dereferencing_valid_range_test code x 0x7FFF00 ''tests.c'' (paging_init (initialize_idt link_example 0x500000 kernel_example)) = Some (Ended True u))
     \<and> fst (rtc_write_freq_test 0x7FFF00 ''tests.c'' rtc_example)"
proof -
  let ?x = "\<lparr>x_locals = locals_example, x_keys = [], x_ticks = [], x_eax = 0, x_ebx = 0, x_ecx = 0x29, x_edx = 0\<rparr>"
  have l: "length (idt kernel_example) = 256" "tables_ok kernel_example" "0x400000 \<le> addr_pTable2 kernel_example" "addr_pTable2 kernel_example < 0x800000"
    by (simp_all add: kernel_example_def process.defs tables_ok_def exec_example_def process_example_def kbd.defs kbd_example_def tty.defs tty_example_def fs.defs
        fs_example_def paging.defs paging_example_def rtc.defs)
  obtain code where c: "\<And>h. code (link_example h) = Some h" using link_example_code by blast
  have n: "link_example h \<noteq> 0" for h
  proof -
    have "list_all (\<lambda>h. link_example h \<noteq> 0) handlers" by code_simp
    moreover have "h \<in> set handlers" by (cases h) (simp_all add: handlers_def exceptions_def)
    ultimately show ?thesis by (simp add: list_all_iff)
  qed
  show ?thesis
    using self_tests_pass [OF l(1) n c l(2-4) refl, of "0x7FFF00" "0x7FFF00" "[True]" ?x "''tests.c''" "0x500000" rtc_example] by auto
qed

end
