(* ===== verification/Sig_Test.thy ===== *)
theory Sig_Test
  imports User_Programs
begin

text \<open>
  The program \<^verbatim>\<open>src/syscalls/ece391sigtest.c\<close>, a test of signals. It stores through a null pointer; a kernel with signals would run its handler,
  which points the register of the faulting instruction to a variable, and restart the instruction. This kernel has no signals: installing a handler
  fails, and the store ends in the page fault handler for good. What the kernel does at a fault is an argument of the program, so that both can be said.
\<close>

section \<open>The program\<close>

record sig_layout = layout +
  p_charbuf :: u32
  p_badbuf :: u32
  p_segfault_sighandler :: u32
  p_alarm_sighandler :: u32

abbreviation SEGFAULT :: int where "SEGFAULT \<equiv> 1"
abbreviation ALARM :: int where "ALARM \<equiv> 3"

text \<open>A fault comes back to the program with a new value of the address register, or never.\<close>

datatype 's trap = Restart u32 's | Hangs 's
datatype 's run = Exits int 's | Hung 's

text \<open>\<^verbatim>\<open>(*badbuf) = 1\<close>, with \<open>badbuf\<close> in \<open>eax\<close>.\<close>

partial_function (option) store_one :: "'s calls \<Rightarrow> (u32 \<Rightarrow> 's \<Rightarrow> bool) \<Rightarrow> (u32 \<Rightarrow> 's \<Rightarrow> 's trap option) \<Rightarrow> u32 \<Rightarrow> 's \<Rightarrow> ('s + 's) option" where
  "store_one c writable fault eax s =
     (if writable eax s then Some (Inr (store c eax 1 s))
      else do {
        r \<leftarrow> fault eax s;
        (case r of Hangs t \<Rightarrow> Some (Inl t) | Restart eax t \<Rightarrow> store_one c writable fault eax t)
      })"

definition install_handlers :: "'s calls \<Rightarrow> sig_layout \<Rightarrow> 's \<Rightarrow> 's option" where
  "install_handlers c p s = do {
     s \<leftarrow> ece391_fdputs c 1 (p_literal p (''Installing signal handlers'' @ nl)) s;
     (_, s) \<leftarrow> ece391_set_handler c SEGFAULT (p_segfault_sighandler p) s;
     (_, s) \<leftarrow> ece391_set_handler c ALARM (p_alarm_sighandler p) s;
     Some s
   }"

definition sigtest_main :: "'s calls \<Rightarrow> (u32 \<Rightarrow> 's \<Rightarrow> bool) \<Rightarrow> (u32 \<Rightarrow> 's \<Rightarrow> 's trap option) \<Rightarrow> sig_layout \<Rightarrow> 's \<Rightarrow> 's run option" where
  "sigtest_main c writable fault p s = do {
     (r, s) \<leftarrow> ece391_getargs c (p_buf p) 1024 s;
     if r \<noteq> 0 then map_option (\<lambda>(v, s). Exits v s) (give_up c p (''could not read argument'' @ nl) 3 s)
     else do {
       s \<leftarrow> (if user_mem c s (p_buf p) = byte CHR ''1'' then install_handlers c p s else Some s);
       s \<leftarrow> ece391_fdputs c 1 (p_literal p ''Hi, what's your name? '') s;
       (cnt, s) \<leftarrow> ece391_read c 0 (p_buf p) 1023 s;
       if cnt = -1 then map_option (\<lambda>(v, s). Exits v s) (give_up c p (''Can't read name from keyboard.'' @ nl) 3 s)
       else do {
         r \<leftarrow> store_one c writable fault (load32 (user_mem c s) (p_badbuf p)) s;
         (case r of
            Inl s \<Rightarrow> Some (Hung s)
          | Inr s \<Rightarrow> do {
              let s = store c (p_buf p + word_of_int cnt) 0 s;
              s \<leftarrow> ece391_fdputs c 1 (p_literal p ''Hello, '') s;
              s \<leftarrow> ece391_fdputs c 1 (p_buf p) s;
              s \<leftarrow> ece391_fdputs c 1 (p_literal p (if user_mem c s (p_charbuf p) = 1 then ''success'' @ nl else ''failure'' @ nl)) s;
              Some (Exits 0 s)
            })
       }
     }
   }"

definition put_signum :: "'s calls \<Rightarrow> sig_layout \<Rightarrow> int \<Rightarrow> 's \<Rightarrow> 's option" where
  "put_signum c p signum s =
     ece391_fdputs c 1 (p_literal p (if signum = 0 then ''0'' @ nl else if signum = 1 then ''1'' @ nl else if signum = 2 then ''2'' @ nl
       else if signum = 3 then ''3'' @ nl else ''invalid'' @ nl)) s"

text \<open>\<open>signum\<close> lies at an address of the stack; seven words above it is the saved \<open>eax\<close>. \<open>buf\<close> is a local variable.\<close>

definition segfault_sighandler :: "'s calls \<Rightarrow> sig_layout \<Rightarrow> u32 \<Rightarrow> u32 \<Rightarrow> 's \<Rightarrow> 's option" where
  "segfault_sighandler c p buf signum s = do {
     s \<leftarrow> ece391_fdputs c 1 (p_literal p ''Segfault signal handler called, signum: '') s;
     s \<leftarrow> put_signum c p (sint (load32 (user_mem c s) signum)) s;
     s \<leftarrow> ece391_fdputs c 1 (p_literal p (''Press enter to continue...'' @ nl)) s;
     (_, s) \<leftarrow> ece391_read c 0 buf 1 s;
     let s = set_user_mem c (store32 (user_mem c s) (p_badbuf p) (p_charbuf p)) s;
     let s = set_user_mem c (store32 (user_mem c s) (signum + 28) (p_charbuf p)) s;
     ece391_fdputs c 1 (p_literal p (''Signal handler returning'' @ nl)) s
   }"

definition alarm_sighandler :: "'s calls \<Rightarrow> sig_layout \<Rightarrow> u32 \<Rightarrow> 's \<Rightarrow> 's option" where
  "alarm_sighandler c p signum s = do {
     s \<leftarrow> ece391_fdputs c 1 (p_literal p ''Alarm signal handler called, signum: '') s;
     put_signum c p (sint (load32 (user_mem c s) signum)) s
   }"

section \<open>What the store does\<close>

lemma store_restarted:
  assumes "\<not> writable 0 s" and "fault 0 s = Some (Restart a t)" and "writable a t"
  shows "store_one c writable fault 0 s = Some (Inr (store c a 1 t))"
proof -
  have "store_one c writable fault a t = Some (Inr (store c a 1 t))" using assms(3) by (subst store_one.simps) simp
  then show ?thesis using assms(1,2) by (subst store_one.simps) simp
qed

lemma store_hangs:
  assumes "\<not> writable a s" and "fault a s = Some (Hangs t)"
  shows "store_one c writable fault a s = Some (Inl t)"
  by (subst store_one.simps) (use assms in simp)

section \<open>On this kernel\<close>

text \<open>A program may write where the pages are present and open to it; a fault is vector 14.\<close>

definition user_writable :: "u32 \<Rightarrow> 'a kernel_scheme \<Rightarrow> bool" where
  "user_writable a s \<longleftrightarrow> translate s a \<noteq> None \<and> user_accessible s a"

definition kernel_fault :: "(u32 \<Rightarrow> handler option) \<Rightarrow> 'a kernel_scheme int_context \<Rightarrow> u32 \<Rightarrow> 'a kernel_scheme \<Rightarrow> 'a kernel_scheme trap option" where
  "kernel_fault code x eax s =
     (case deliver code x 14 s of
        Some (Stuck t) \<Rightarrow> Some (Hangs t)
      | Some (Finished (Return _ t)) \<Rightarrow> Some (Restart eax t)
      | _ \<Rightarrow> None)"

text \<open>Handlers cannot be installed: the call has a number the kernel does not know.\<close>

lemma set_handler_refused:
  "ece391_set_handler (kernel_calls l keys ticks ex) sig h s = Some (-1, s)"
  by (simp add: kernel_calls_def DO_CALL_def sys_call_interrupt_def)

text \<open>The null pointer lies in the first page table, which is the kernel's alone.\<close>

lemma null_store_traps:
  assumes "length (idt s) = 256" and "\<And>h. code (addr h) = Some h" and t: "idt t = idt (initialize_idt addr base s)"
    and "pDirectory t ! 0 = addr_pTable t OR 3" and "addr_pTable t AND 0xFFF = 0"
  shows "store_one c user_writable (kernel_fault code x) 0 t = Some (Inl (put_string (exception_text (x_ecx x) 14) t))"
proof (rule store_hangs)
  have "\<not> bit (addr_pTable t) 2"
  proof
    assume "bit (addr_pTable t) 2"
    then have "bit (addr_pTable t AND 0xFFF) 2" by (simp add: bit_simps)
    then show False using assms(5) by simp
  qed
  then show "\<not> user_writable 0 t" using assms(4) by (simp add: user_writable_def user_accessible_def bit_simps)
  show "kernel_fault code x 0 t = Some (Hangs (put_string (exception_text (x_ecx x) 14) t))"
    using exception_delivered [OF assms(1) _ assms(2) t, of 14 x] by (simp add: kernel_fault_def)
qed

end
