(* ===== verification/Blink.thy ===== *)
theory Blink
  imports User_Support
begin

text \<open>
  The blinking characters of the program \<open>fish\<close>: the allocator of \<^verbatim>\<open>src/fish/fish.c\<close> and the linked list of \<^verbatim>\<open>src/fish/blink.S\<close> with its four
  requests and the handler of the clock. The structures live in the static array \<open>blink_array\<close>; a pointer to one is its index, \<open>None\<close> the
  null pointer. The main result is that requests and handler implement a list of blinking characters.
\<close>

section \<open>Data\<close>

record mp1_blink_struct =
  location :: u16
  on_char :: u8
  off_char :: u8
  on_length :: u16
  off_length :: u16
  countdown :: u16
  status :: u16
  blink_next :: "nat option"

record fish =
  blink_array :: "mp1_blink_struct list"
  mp1_list_head :: "nat option"
  vmem_base_addr :: u32
  fish_mem :: mem

definition zero_blink :: mp1_blink_struct where
  "zero_blink = \<lparr>location = 0, on_char = 0, off_char = 0, on_length = 0, off_length = 0, countdown = 0, status = 0, blink_next = None\<rparr>"

abbreviation node :: "fish \<Rightarrow> nat \<Rightarrow> mp1_blink_struct" where
  "node g i \<equiv> blink_array g ! i"

definition upd_node :: "nat \<Rightarrow> (mp1_blink_struct \<Rightarrow> mp1_blink_struct) \<Rightarrow> fish \<Rightarrow> fish" where
  "upd_node i f g = g\<lparr>blink_array := (blink_array g)[i := f (node g i)]\<rparr>"

section \<open>Operations\<close>

definition mp1_poke :: "u8 \<Rightarrow> u16 \<Rightarrow> fish \<Rightarrow> fish" where
  "mp1_poke cl loc g = g\<lparr>fish_mem := (fish_mem g)(vmem_base_addr g + push_bit 1 (ucast loc) := cl)\<rparr>"

definition mp1_malloc :: "fish \<Rightarrow> nat option" where
  "mp1_malloc g = scan (\<lambda>b. location b = 0) (take 2000 (blink_array g))"

definition mp1_free :: "nat \<Rightarrow> fish \<Rightarrow> fish" where
  "mp1_free i g = upd_node i (\<lambda>_. zero_blink) g"

partial_function (option) mp1_find_helper :: "fish \<Rightarrow> u16 \<Rightarrow> nat option \<Rightarrow> nat option option" where
  "mp1_find_helper g ax p =
     (case p of None \<Rightarrow> Some None
      | Some i \<Rightarrow> if location (node g i) = ax then Some (Some i) else mp1_find_helper g ax (blink_next (node g i)))"

definition mp1_ioctl_add :: "mp1_blink_struct \<Rightarrow> fish \<Rightarrow> int \<times> fish" where
  "mp1_ioctl_add b g =
     (if \<not> location b < 2000 then (-1, g)
      else let b = b\<lparr>status := 1, countdown := on_length b\<rparr>
           in case mp1_malloc g of
                None \<Rightarrow> (-1, g)
              | Some i \<Rightarrow> let g = upd_node i (\<lambda>_. b\<lparr>blink_next := mp1_list_head g\<rparr>) g;
                            g = g\<lparr>mp1_list_head := Some i\<rparr>
                        in (0, mp1_poke (on_char (node g i)) (location (node g i)) g))"

text \<open>The link that points to an element: the head of the list (\<open>None\<close>) or the \<open>next\<close> of an element.\<close>

partial_function (option) remove_find_prev :: "fish \<Rightarrow> nat \<Rightarrow> nat option \<Rightarrow> nat option option" where
  "remove_find_prev g e link =
     (case (case link of None \<Rightarrow> mp1_list_head g | Some j \<Rightarrow> blink_next (node g j)) of
        Some q \<Rightarrow> if q = e then Some link else remove_find_prev g e (Some q)
      | None \<Rightarrow> None)"

definition mp1_ioctl_remove :: "u32 \<Rightarrow> fish \<Rightarrow> (int \<times> fish) option" where
  "mp1_ioctl_remove arg g = do {
     found \<leftarrow> mp1_find_helper g (ucast arg) (mp1_list_head g);
     case found of
       None \<Rightarrow> Some (-1, g)
     | Some e \<Rightarrow> do {
         link \<leftarrow> remove_find_prev g e None;
         let g = (case link of None \<Rightarrow> g\<lparr>mp1_list_head := blink_next (node g e)\<rparr>
                  | Some j \<Rightarrow> upd_node j (\<lambda>b. b\<lparr>blink_next := blink_next (node g e)\<rparr>) g);
         Some (0, mp1_free e g)
       }
   }"

text \<open>
  \<open>sync\<close> copies lengths and phase from the first element to the second. What it shows is always \<open>OFF_CHAR\<close>: the conditional move after
  \<open>testb\<close> is \<open>cmovl\<close>, and the test never sets the sign or the overflow flag.
\<close>

definition mp1_ioctl_sync :: "u32 \<Rightarrow> fish \<Rightarrow> (int \<times> fish) option" where
  "mp1_ioctl_sync arg g = do {
     esi \<leftarrow> mp1_find_helper g (ucast (drop_bit 16 arg)) (mp1_list_head g);
     case esi of
       None \<Rightarrow> Some (-1, g)
     | Some i \<Rightarrow> do {
         edi \<leftarrow> mp1_find_helper g (ucast (arg AND 0xFFFF)) (mp1_list_head g);
         case edi of
           None \<Rightarrow> Some (-1, g)
         | Some j \<Rightarrow>
             let a = node g i;
                 g = upd_node j (\<lambda>b. b\<lparr>on_length := on_length a, off_length := off_length a, countdown := countdown a, status := status a\<rparr>) g
             in Some (0, mp1_poke (off_char (node g j)) (location (node g j)) g)
       }
   }"

text \<open>\<open>find\<close> returns the element with the location of the given structure through it.\<close>

definition mp1_ioctl_find :: "mp1_blink_struct \<Rightarrow> fish \<Rightarrow> (int \<times> mp1_blink_struct) option" where
  "mp1_ioctl_find b g = do {
     found \<leftarrow> mp1_find_helper g (location b) (mp1_list_head g);
     Some (case found of None \<Rightarrow> (-1, b) | Some i \<Rightarrow> (0, node g i))
   }"

text \<open>One element in the handler of the clock: the countdown is compared as a signed number.\<close>

definition blink_step :: "nat \<Rightarrow> fish \<Rightarrow> fish" where
  "blink_step i g =
     (let g = upd_node i (\<lambda>b. b\<lparr>countdown := countdown b - 1\<rparr>) g;
          b = node g i
      in if sint (countdown b) > 0 then g
         else let on = bit (status b) 0;
                  g = mp1_poke (if on then off_char b else on_char b) (location b) g
              in upd_node i (\<lambda>b. b\<lparr>countdown := (if on then off_length b else on_length b), status := status b XOR 1\<rparr>) g)"

partial_function (option) tasklet_loop :: "nat option \<Rightarrow> fish \<Rightarrow> fish option" where
  "tasklet_loop p g =
     (case p of None \<Rightarrow> Some g
      | Some i \<Rightarrow> let g = blink_step i g in tasklet_loop (blink_next (node g i)) g)"

definition mp1_rtc_tasklet :: "fish \<Rightarrow> fish option" where
  "mp1_rtc_tasklet g = tasklet_loop (mp1_list_head g) g"

section \<open>A list of blinking characters\<close>

text \<open>
  The abstract state is a list of structures, newest first. A tick counts an element down and, at its end, switches it between its two characters; what is shown then
  is a byte at twice the location.
\<close>

definition a_add :: "mp1_blink_struct \<Rightarrow> mp1_blink_struct list \<Rightarrow> mp1_blink_struct list" where
  "a_add b bs = b\<lparr>status := 1, countdown := on_length b, blink_next := None\<rparr> # bs"

fun a_remove :: "u16 \<Rightarrow> mp1_blink_struct list \<Rightarrow> mp1_blink_struct list" where
  "a_remove loc [] = []"
| "a_remove loc (b # bs) = (if location b = loc then bs else b # a_remove loc bs)"

definition a_expires :: "mp1_blink_struct \<Rightarrow> bool" where
  "a_expires b \<longleftrightarrow> sint (countdown b - 1) \<le> 0"

definition a_tick :: "mp1_blink_struct \<Rightarrow> mp1_blink_struct" where
  "a_tick b = (if a_expires b
     then b\<lparr>countdown := (if bit (status b) 0 then off_length b else on_length b), status := status b XOR 1\<rparr>
     else b\<lparr>countdown := countdown b - 1\<rparr>)"

definition a_show :: "u32 \<Rightarrow> mp1_blink_struct \<Rightarrow> mem \<Rightarrow> mem" where
  "a_show base b m = (if a_expires b
     then m(base + push_bit 1 (ucast (location b)) := (if bit (status b) 0 then off_char b else on_char b)) else m)"

section \<open>The list in the array\<close>

fun chain :: "fish \<Rightarrow> nat option \<Rightarrow> nat list \<Rightarrow> bool" where
  "chain g p [] \<longleftrightarrow> p = None"
| "chain g p (i # is) \<longleftrightarrow> p = Some i \<and> chain g (blink_next (node g i)) is"

definition blinks_ok :: "fish \<Rightarrow> nat list \<Rightarrow> bool" where
  "blinks_ok g ps \<longleftrightarrow> length (blink_array g) = 2000 \<and> chain g (mp1_list_head g) ps \<and> distinct ps
     \<and> (\<forall>i < 2000. location (node g i) \<noteq> 0 \<longleftrightarrow> i \<in> set ps) \<and> set ps \<subseteq> {..<2000}"

definition blink_list :: "fish \<Rightarrow> nat list \<Rightarrow> mp1_blink_struct list" where
  "blink_list g ps = map (\<lambda>i. (node g i)\<lparr>blink_next := None\<rparr>) ps"

lemma chain_cong: "(\<And>i. i \<in> set is \<Longrightarrow> blink_next (node g' i) = blink_next (node g i)) \<Longrightarrow> chain g' p is = chain g p is"
  by (induction "is" arbitrary: p) auto

lemma node_upd: "i < length (blink_array g) \<Longrightarrow> node (upd_node i f g) j = (if j = i then f (node g i) else node g j)"
  by (simp add: upd_node_def nth_list_update)

lemma upd_node_sel [simp]:
  "length (blink_array (upd_node i f g)) = length (blink_array g)" "mp1_list_head (upd_node i f g) = mp1_list_head g"
  "vmem_base_addr (upd_node i f g) = vmem_base_addr g" "fish_mem (upd_node i f g) = fish_mem g"
  by (simp_all add: upd_node_def)

lemma mp1_poke_sel [simp]:
  "blink_array (mp1_poke c l g) = blink_array g" "mp1_list_head (mp1_poke c l g) = mp1_list_head g"
  "vmem_base_addr (mp1_poke c l g) = vmem_base_addr g"
  by (simp_all add: mp1_poke_def)

lemma chain_cong_poke [simp]: "chain (mp1_poke c l g) p is = chain g p is"
  by (rule chain_cong) simp

subsection \<open>Searching\<close>

lemma find_helper_chain: "chain g p is \<Longrightarrow> mp1_find_helper g ax p = Some (List.find (\<lambda>i. location (node g i) = ax) is)"
proof (induction "is" arbitrary: p)
  case Nil
  then show ?case by (subst mp1_find_helper.simps) simp
next
  case (Cons i "is")
  then show ?case by (subst mp1_find_helper.simps) simp
qed

lemma find_split:
  assumes "List.find P is = Some e"
  shows "\<exists>xs ys. is = xs @ e # ys \<and> P e \<and> (\<forall>x \<in> set xs. \<not> P x)"
  using assms
proof (induction "is")
  case (Cons i "is")
  show ?case
  proof (cases "P i")
    case True
    then show ?thesis using Cons.prems by (intro exI [of _ "[]"] exI [of _ "is"]) auto
  next
    case False
    then obtain xs ys where "is = xs @ e # ys" "P e" "\<forall>x \<in> set xs. \<not> P x" using Cons by auto
    then show ?thesis using False by (intro exI [of _ "i # xs"] exI [of _ ys]) auto
  qed
qed simp

abbreviation link_target :: "fish \<Rightarrow> nat option \<Rightarrow> nat option" where
  "link_target g link \<equiv> (case link of None \<Rightarrow> mp1_list_head g | Some j \<Rightarrow> blink_next (node g j))"

lemma find_prev_chain:
  "chain g (link_target g link) (xs @ e # ys) \<Longrightarrow> e \<notin> set xs \<Longrightarrow>
     remove_find_prev g e link = Some (if xs = [] then link else Some (last xs))"
proof (induction xs arbitrary: link)
  case Nil
  then show ?case by (subst remove_find_prev.simps) simp
next
  case (Cons x xs)
  then show ?case by (subst remove_find_prev.simps) auto
qed

lemma chain_skip:
  assumes "chain g p (xs @ l # e # ys)" and "\<And>i. i \<in> set xs \<union> set ys \<Longrightarrow> blink_next (node g' i) = blink_next (node g i)"
    and "blink_next (node g' l) = blink_next (node g e)"
  shows "chain g' p (xs @ l # ys)"
  using assms
proof (induction xs arbitrary: p)
  case Nil
  have "chain g' (blink_next (node g e)) ys = chain g (blink_next (node g e)) ys" using Nil.prems(2) by (intro chain_cong) auto
  then show ?case using Nil.prems by auto
next
  case (Cons x xs)
  then show ?case by auto
qed

subsection \<open>Requests\<close>

lemma a_remove_split:
  "\<forall>x \<in> set xs. location x \<noteq> loc \<Longrightarrow> location e = loc \<Longrightarrow> a_remove loc (xs @ e # ys) = xs @ ys"
  by (induction xs) auto

lemma add_ok:
  assumes ok: "blinks_ok g ps" and b: "0 < location b" "location b < 2000" and room: "length ps < 2000"
  shows "\<exists>i g'. mp1_ioctl_add b g = (0, g') \<and> blinks_ok g' (i # ps) \<and> blink_list g' (i # ps) = a_add b (blink_list g ps)
     \<and> fish_mem g' = (fish_mem g)(vmem_base_addr g + push_bit 1 (ucast (location b)) := on_char b)"
proof -
  have len: "length (blink_array g) = 2000" using ok by (simp add: blinks_ok_def)
  have "\<not> {..<2000} \<subseteq> set ps" using room card_mono [of "set ps" "{..<2000}"] card_length [of ps] by auto
  then obtain k where "k < 2000" "k \<notin> set ps" by blast
  then have "location (node g k) = 0" "node g k \<in> set (take 2000 (blink_array g))" using ok len by (auto simp: blinks_ok_def)
  then have "mp1_malloc g \<noteq> None" unfolding mp1_malloc_def scan_None by blast
  then obtain i where i: "mp1_malloc g = Some i" by blast
  then have f: "i < 2000" "location (node g i) = 0" using scan_Some [of "\<lambda>b. location b = 0" "take 2000 (blink_array g)" i] len
    by (auto simp: mp1_malloc_def)
  then have new: "i \<notin> set ps" using ok by (auto simp: blinks_ok_def)
  let ?b = "b\<lparr>status := 1, countdown := on_length b, blink_next := mp1_list_head g\<rparr>"
  let ?h = "(upd_node i (\<lambda>_. ?b) g)\<lparr>mp1_list_head := Some i\<rparr>"
  have n: "node ?h j = (if j = i then ?b else node g j)" for j using f(1) len by (simp add: node_upd)
  have "chain ?h (mp1_list_head g) ps = chain g (mp1_list_head g) ps"
  proof (rule chain_cong)
    fix j assume "j \<in> set ps"
    then show "blink_next (node ?h j) = blink_next (node g j)" using n [of j] new by auto
  qed
  then have c: "chain ?h (mp1_list_head g) ps" using ok by (simp add: blinks_ok_def)
  let ?g' = "mp1_poke (on_char b) (location b) ?h"
  have "mp1_ioctl_add b g = (0, ?g')" using b(2) i n by (simp add: mp1_ioctl_add_def Let_def)
  moreover have "blinks_ok ?g' (i # ps)" using ok f new b(1) c n len by (auto simp: blinks_ok_def)
  moreover have "blink_list ?g' (i # ps) = a_add b (blink_list g ps)"
    using n new by (auto simp: blink_list_def a_add_def intro!: map_cong)
  moreover have "fish_mem ?g' = (fish_mem g)(vmem_base_addr g + push_bit 1 (ucast (location b)) := on_char b)" by (simp add: mp1_poke_def)
  ultimately show ?thesis by blast
qed

lemma remove_ok:
  assumes ok: "blinks_ok g ps" and found: "\<exists>b \<in> set (blink_list g ps). location b = ucast arg"
  shows "\<exists>g' qs. mp1_ioctl_remove arg g = Some (0, g') \<and> blinks_ok g' qs \<and> blink_list g' qs = a_remove (ucast arg) (blink_list g ps)
     \<and> fish_mem g' = fish_mem g"
proof -
  let ?P = "\<lambda>i. location (node g i) = ucast arg"
  have ch: "chain g (mp1_list_head g) ps" "distinct ps" "set ps \<subseteq> {..<2000}" "length (blink_array g) = 2000"
    and used: "\<And>i. i < 2000 \<Longrightarrow> location (node g i) \<noteq> 0 \<longleftrightarrow> i \<in> set ps"
    using ok by (auto simp: blinks_ok_def)
  have "List.find ?P ps \<noteq> None" using found by (auto simp: find_None_iff blink_list_def)
  then obtain e where e: "List.find ?P ps = Some e" by blast
  then obtain xs ys where ps: "ps = xs @ e # ys" "?P e" "\<forall>x \<in> set xs. \<not> ?P x" using find_split [OF e] by blast
  have h: "mp1_find_helper g (ucast arg) (mp1_list_head g) = Some (Some e)" using find_helper_chain [OF ch(1)] e by simp
  have nxs: "e \<notin> set xs" "e \<notin> set ys" "e < 2000" using ch(2,3) ps(1) by auto
  have prev: "remove_find_prev g e None = Some (if xs = [] then None else Some (last xs))"
    using find_prev_chain [of g None xs e ys] ch(1) ps(1) nxs(1) by simp
  let ?u = "case (if xs = [] then None else Some (last xs)) of None \<Rightarrow> g\<lparr>mp1_list_head := blink_next (node g e)\<rparr>
     | Some j \<Rightarrow> upd_node j (\<lambda>b. b\<lparr>blink_next := blink_next (node g e)\<rparr>) g"
  let ?g' = "mp1_free e ?u"
  have r: "mp1_ioctl_remove arg g = Some (0, ?g')" using h prev by (simp add: mp1_ioctl_remove_def)
  have l: "xs \<noteq> [] \<Longrightarrow> last xs < 2000 \<and> last xs \<in> set xs" using ch(3) ps(1) by (cases xs rule: rev_cases) auto
  have n: "node ?g' i = (if i = e then zero_blink else if xs \<noteq> [] \<and> i = last xs then (node g i)\<lparr>blink_next := blink_next (node g e)\<rparr> else node g i)" for i
    using l nxs ch(4) by (cases "xs = []") (auto simp: mp1_free_def node_upd)
  have len: "length (blink_array ?g') = 2000" using ch(4) by (simp add: mp1_free_def)
  have c: "chain ?g' (mp1_list_head ?g') (xs @ ys)"
  proof (cases "xs = []")
    case True
    have "chain ?g' (blink_next (node g e)) ys = chain g (blink_next (node g e)) ys"
      by (rule chain_cong) (use n nxs True in auto)
    then show ?thesis using True ch(1) ps(1) by (simp add: mp1_free_def)
  next
    case False
    let ?zs = "butlast xs"
    have xs: "xs = ?zs @ [last xs]" using False by simp
    have d: "distinct (?zs @ [last xs] @ e # ys)" using ch(2) ps(1) xs by (metis append.assoc)
    have "chain g (mp1_list_head g) (?zs @ last xs # e # ys)" using ch(1) ps(1) xs by (metis append.assoc append_Cons append_Nil)
    then have "chain ?g' (mp1_list_head g) (?zs @ last xs # ys)"
      by (rule chain_skip) (use n d False nxs in auto)
    moreover have "?zs @ last xs # ys = xs @ ys" using xs by (metis append.assoc append_Cons append_Nil)
    ultimately show ?thesis using False by (simp add: mp1_free_def)
  qed
  have loc: "location (node ?g' i) = (if i = e then 0 else location (node g i))" for i using n [of i] by (simp add: zero_blink_def)
  have "blinks_ok ?g' (xs @ ys)" unfolding blinks_ok_def
    using len c ch(2,3) ps(1) nxs used by (auto simp: loc)
  moreover have "blink_list ?g' (xs @ ys) = a_remove (ucast arg) (blink_list g ps)"
  proof -
    have "blink_list ?g' (xs @ ys) = blink_list g (xs @ ys)" unfolding blink_list_def
    proof (rule map_cong [OF refl])
      fix i assume "i \<in> set (xs @ ys)"
      then have "i \<noteq> e" using nxs by auto
      then show "(node ?g' i)\<lparr>blink_next := None\<rparr> = (node g i)\<lparr>blink_next := None\<rparr>" unfolding n by simp
    qed
    also have "\<dots> = blink_list g xs @ blink_list g ys" by (simp add: blink_list_def)
    finally have "blink_list ?g' (xs @ ys) = blink_list g xs @ blink_list g ys" .
    moreover have "a_remove (ucast arg) (blink_list g ps) = blink_list g xs @ blink_list g ys"
      using a_remove_split [of "blink_list g xs" "ucast arg" "(node g e)\<lparr>blink_next := None\<rparr>" "blink_list g ys"] ps
      by (simp add: blink_list_def)
    ultimately show ?thesis by simp
  qed
  moreover have "fish_mem ?g' = fish_mem g" by (simp add: mp1_free_def)
  ultimately show ?thesis using r by blast
qed

subsection \<open>The clock\<close>

lemma blink_step_node:
  assumes "i < length (blink_array g)"
  shows "node (blink_step i g) j = (if j = i then a_tick (node g i) else node g j)"
  using assms by (auto simp: blink_step_def Let_def node_upd a_tick_def a_expires_def not_less)

lemma blink_step_sel:
  assumes "i < length (blink_array g)"
  shows "length (blink_array (blink_step i g)) = length (blink_array g)" "mp1_list_head (blink_step i g) = mp1_list_head g"
    "vmem_base_addr (blink_step i g) = vmem_base_addr g" "fish_mem (blink_step i g) = a_show (vmem_base_addr g) (node g i) (fish_mem g)"
  using assms by (auto simp: blink_step_def Let_def node_upd a_show_def a_expires_def mp1_poke_def not_less)

lemma a_tick_next [simp]: "blink_next (a_tick b) = blink_next b" "location (a_tick b) = location b"
  by (simp_all add: a_tick_def)

lemma tasklet_fold:
  "chain g p is \<Longrightarrow> set is \<subseteq> {..<length (blink_array g)} \<Longrightarrow> tasklet_loop p g = Some (fold blink_step is g)"
proof (induction "is" arbitrary: p g)
  case Nil
  then show ?case by (subst tasklet_loop.simps) simp
next
  case (Cons i "is")
  let ?g = "blink_step i g"
  have i: "i < length (blink_array g)" using Cons.prems(2) by simp
  have nx: "blink_next (node ?g j) = blink_next (node g j)" for j using blink_step_node [OF i] by simp
  have "chain ?g (blink_next (node ?g i)) is" using Cons.prems(1) chain_cong [of "is" ?g g] nx by simp
  then show ?case using Cons.IH [of ?g] Cons.prems blink_step_sel(1) [OF i] by (subst tasklet_loop.simps) simp
qed

lemma fold_blink_step:
  assumes "distinct is" "set is \<subseteq> {..<length (blink_array g)}"
  shows "length (blink_array (fold blink_step is g)) = length (blink_array g) \<and> mp1_list_head (fold blink_step is g) = mp1_list_head g
     \<and> (\<forall>j. node (fold blink_step is g) j = (if j \<in> set is then a_tick (node g j) else node g j))
     \<and> fish_mem (fold blink_step is g) = fold (a_show (vmem_base_addr g)) (map (node g) is) (fish_mem g)"
  using assms
proof (induction "is" arbitrary: g)
  case (Cons i "is")
  let ?g = "blink_step i g"
  have i: "i < length (blink_array g)" using Cons.prems by simp
  note sel = blink_step_sel [OF i] and nd = blink_step_node [OF i]
  have p: "distinct is" "set is \<subseteq> {..<length (blink_array ?g)}" "i \<notin> set is" using Cons.prems sel(1) by auto
  have m: "map (node ?g) is = map (node g) is" using nd p(3) by auto
  have "fish_mem (fold blink_step is ?g) = fold (a_show (vmem_base_addr g)) (map (node g) is) (a_show (vmem_base_addr g) (node g i) (fish_mem g))"
    using Cons.IH [OF p(1,2)] unfolding m sel(3,4) by blast
  moreover have "node (fold blink_step is ?g) j = (if j \<in> set (i # is) then a_tick (node g j) else node g j)" for j
    using Cons.IH [OF p(1,2)] nd p(3) by auto
  moreover have "length (blink_array (fold blink_step is ?g)) = length (blink_array g)" "mp1_list_head (fold blink_step is ?g) = mp1_list_head g"
    using Cons.IH [OF p(1,2)] sel(1,2) by simp_all
  ultimately show ?case by simp
qed simp

lemma a_show_next: "a_show base (b\<lparr>blink_next := n\<rparr>) = a_show base b"
  by (simp add: fun_eq_iff a_show_def a_expires_def)

lemma tasklet_ok:
  assumes ok: "blinks_ok g ps"
  shows "\<exists>g'. mp1_rtc_tasklet g = Some g' \<and> blinks_ok g' ps \<and> blink_list g' ps = map a_tick (blink_list g ps)
     \<and> fish_mem g' = fold (a_show (vmem_base_addr g)) (blink_list g ps) (fish_mem g)"
proof -
  have d: "chain g (mp1_list_head g) ps" "distinct ps" "set ps \<subseteq> {..<length (blink_array g)}" using ok by (auto simp: blinks_ok_def)
  let ?g' = "fold blink_step ps g"
  have f: "length (blink_array ?g') = length (blink_array g)" "mp1_list_head ?g' = mp1_list_head g"
    "fish_mem ?g' = fold (a_show (vmem_base_addr g)) (map (node g) ps) (fish_mem g)"
    and nd: "\<And>j. node ?g' j = (if j \<in> set ps then a_tick (node g j) else node g j)"
    using fold_blink_step [OF d(2,3)] by blast+
  have nx: "blink_next (node ?g' i) = blink_next (node g i)" "location (node ?g' i) = location (node g i)" for i using nd by simp_all
  have "chain ?g' (mp1_list_head g) ps" using d(1) chain_cong [of ps ?g' g] nx by simp
  then have "blinks_ok ?g' ps" using ok f(1,2) nx(2) by (simp add: blinks_ok_def)
  moreover have "blink_list ?g' ps = map a_tick (blink_list g ps)"
    using nd by (auto simp: blink_list_def a_tick_def a_expires_def)
  moreover have "fold (a_show b) (map (node g) ps) m = fold (a_show b) (blink_list g ps) m" for b m
    by (simp add: blink_list_def fold_map comp_def a_show_next)
  ultimately show ?thesis using tasklet_fold [OF d(1,3)] f(3) by (auto simp: mp1_rtc_tasklet_def)
qed

lemma remove_absent:
  assumes ok: "blinks_ok g ps" and "\<forall>b \<in> set (blink_list g ps). location b \<noteq> ucast arg"
  shows "mp1_ioctl_remove arg g = Some (-1, g)"
proof -
  have "List.find (\<lambda>i. location (node g i) = ucast arg) ps = None" using assms(2) by (auto simp: find_None_iff blink_list_def)
  then show ?thesis using find_helper_chain [of g "mp1_list_head g" ps] ok by (simp add: mp1_ioctl_remove_def blinks_ok_def)
qed

text \<open>An element that points to itself keeps the handler busy for ever.\<close>

lemma tasklet_cycle:
  assumes "tasklet_loop p g = Some r"
  shows "\<not> (p = Some i \<and> i < length (blink_array g) \<and> blink_next (node g i) = Some i)"
proof (rule tasklet_loop.raw_induct [where P = "\<lambda>p g r. \<not> (p = Some i \<and> i < length (blink_array g) \<and> blink_next (node g i) = Some i)"])
  fix f :: "nat option \<Rightarrow> fish \<Rightarrow> fish option" and p g r
  assume ih: "\<And>p g r. f p g = Some r \<Longrightarrow> \<not> (p = Some i \<and> i < length (blink_array g) \<and> blink_next (node g i) = Some i)"
    and f: "(case p of None \<Rightarrow> Some g | Some i \<Rightarrow> let g = blink_step i g in f (blink_next (node g i)) g) = Some r"
  show "\<not> (p = Some i \<and> i < length (blink_array g) \<and> blink_next (node g i) = Some i)"
  proof
    assume p: "p = Some i \<and> i < length (blink_array g) \<and> blink_next (node g i) = Some i"
    then have "blink_next (node (blink_step i g) i) = Some i" "i < length (blink_array (blink_step i g))"
      using blink_step_node [of i g i] blink_step_sel(1) [of i g] by simp_all
    moreover from this(1) have "f (Some i) (blink_step i g) = Some r" using f p by (simp add: Let_def)
    ultimately show False using ih [of "Some i" "blink_step i g" r] by simp
  qed
qed (rule assms)

section \<open>Properties\<close>

text \<open>
  C26. The blinking characters of \<open>fish\<close>. The linked list in \<open>blink_array\<close> implements a list of characters: adding one at a location from 1 to 1999 puts it in front and shows its first
  character; removing a location takes its newest character out and gives its slot back, or changes nothing when there is none; and on every tick of the clock the handler
  visits each character once, counts it down and, when the count is used up, switches it over and shows the other character.
\<close>

theorem blink_list_refines:
  assumes "blinks_ok g ps"
  shows "(0 < location b \<and> location b < 2000 \<and> length ps < 2000 \<longrightarrow>
      (\<exists>i g'. mp1_ioctl_add b g = (0, g') \<and> blinks_ok g' (i # ps) \<and> blink_list g' (i # ps) = a_add b (blink_list g ps)
        \<and> fish_mem g' = (fish_mem g)(vmem_base_addr g + push_bit 1 (ucast (location b)) := on_char b)))
    \<and> (\<exists>g' qs. mp1_ioctl_remove arg g = Some (if \<exists>b \<in> set (blink_list g ps). location b = ucast arg then 0 else -1, g')
        \<and> blinks_ok g' qs \<and> blink_list g' qs = a_remove (ucast arg) (blink_list g ps) \<and> fish_mem g' = fish_mem g)
    \<and> (\<exists>g'. mp1_rtc_tasklet g = Some g' \<and> blinks_ok g' ps \<and> blink_list g' ps = map a_tick (blink_list g ps)
        \<and> fish_mem g' = fold (a_show (vmem_base_addr g)) (blink_list g ps) (fish_mem g))"
proof (intro conjI impI)
  have absent: "a_remove l bs = bs" if "\<forall>b \<in> set bs. location b \<noteq> l" for l bs using that by (induction bs) auto
  show "\<exists>g' qs. mp1_ioctl_remove arg g = Some (if \<exists>b \<in> set (blink_list g ps). location b = ucast arg then 0 else -1, g')
        \<and> blinks_ok g' qs \<and> blink_list g' qs = a_remove (ucast arg) (blink_list g ps) \<and> fish_mem g' = fish_mem g"
  proof (cases "\<exists>b \<in> set (blink_list g ps). location b = ucast arg")
    case True
    then show ?thesis using remove_ok [OF assms True] by simp
  next
    case False
    then show ?thesis using remove_absent [OF assms, of arg] absent [of "blink_list g ps" "ucast arg"] assms by auto
  qed
qed (use add_ok [OF assms, of b] tasklet_ok [OF assms] in blast)+

definition fish_example :: fish where
  "fish_example = \<lparr>blink_array = replicate 2000 zero_blink, mp1_list_head = None, vmem_base_addr = 0x8400000, fish_mem = \<lambda>_. 0\<rparr>"

lemma fish_example_ok: "blinks_ok fish_example []"
  by (simp add: blinks_ok_def fish_example_def zero_blink_def)

theorem blink_list_refines_witness:
  "\<exists>i g'. mp1_ioctl_add (zero_blink\<lparr>location := 540, on_char := 73\<rparr>) fish_example = (0, g') \<and> blinks_ok g' [i] \<and> fish_mem g' 0x8400438 = 73"
proof -
  have "0 < location (zero_blink\<lparr>location := 540, on_char := 73\<rparr>) \<and> location (zero_blink\<lparr>location := 540, on_char := 73\<rparr>) < 2000 \<and> length [] < (2000 :: nat)"
    by simp
  moreover have "vmem_base_addr fish_example + push_bit 1 (ucast (540 :: u16)) = 0x8400438" by (simp add: fish_example_def)
  ultimately show ?thesis
    using blink_list_refines [OF fish_example_ok, of "zero_blink\<lparr>location := 540, on_char := 73\<rparr>" 0] by auto
qed

text \<open>
  Location 0 breaks the list. The allocator takes a structure with location 0 for free, but \<open>mp1_ioctl_add\<close> accepts this location, the upper left corner of
  the screen: a character there, followed by any other one, overwrites itself and points to itself, and the handler of the next tick never returns.
\<close>

lemma blink_corner_hangs:
  assumes "blinks_ok g []" and "location b = 0" and "location c < 2000"
  shows "mp1_rtc_tasklet (snd (mp1_ioctl_add c (snd (mp1_ioctl_add b g)))) = None"
proof -
  have len: "length (blink_array g) = 2000" and free: "\<And>i. i < 2000 \<Longrightarrow> location (node g i) = 0" using assms(1) by (auto simp: blinks_ok_def)
  have m: "mp1_malloc h = Some 0" if "length (blink_array h) = 2000" "location (node h 0) = 0" for h
    unfolding mp1_malloc_def using that by (intro scan_SomeI) simp_all
  let ?g = "snd (mp1_ioctl_add b g)"
  have a: "length (blink_array ?g) = 2000" "location (node ?g 0) = 0" "mp1_list_head ?g = Some 0"
    using assms(2) m [OF len] free [of 0] len by (simp_all add: mp1_ioctl_add_def Let_def node_upd)
  let ?h = "snd (mp1_ioctl_add c ?g)"
  have h: "length (blink_array ?h) = 2000" "mp1_list_head ?h = Some 0" "blink_next (node ?h 0) = Some 0"
    using assms(3) m [OF a(1,2)] a by (simp_all add: mp1_ioctl_add_def Let_def node_upd)
  show ?thesis
  proof (cases "mp1_rtc_tasklet ?h")
    case (Some r)
    then show ?thesis using tasklet_cycle [of "Some 0" ?h r 0] h by (simp add: mp1_rtc_tasklet_def)
  qed
qed

end
