(* ===== verification/Fish.thy ===== *)
theory Fish
  imports User_Programs Blink
begin

text \<open>
  The program \<open>fish\<close> of \<^verbatim>\<open>src/fish/fish.c\<close> over the system call interface: it reads two frames from files, turns their characters into blinking ones, and lets them
  blink on the ticks of the clock. Its memory is the one of the process; the library of blinking characters works on it through \<open>with_fish\<close>.
\<close>

record fish_layout = layout +
  f_vmem :: u32
  f_local :: u32
  f_c0 :: u32
  f_c1 :: u32

definition with_fish :: "'s calls \<Rightarrow> (fish \<Rightarrow> fish) \<Rightarrow> fish \<times> 's \<Rightarrow> fish \<times> 's" where
  "with_fish c f st = (case st of (g, s) \<Rightarrow> let g = f (g\<lparr>fish_mem := user_mem c s\<rparr>) in (g, set_user_mem c (fish_mem g) s))"

definition with_fish_option :: "'s calls \<Rightarrow> (fish \<Rightarrow> fish option) \<Rightarrow> fish \<times> 's \<Rightarrow> (fish \<times> 's) option" where
  "with_fish_option c f st = (case st of (g, s) \<Rightarrow> do { g \<leftarrow> f (g\<lparr>fish_mem := user_mem c s\<rparr>); Some (g, set_user_mem c (fish_mem g) s) })"

section \<open>Setting up\<close>

text \<open>\<open>vidmap\<close> stores the address of the screen in \<open>vmem_base_addr\<close>; the result is whether it is not null.\<close>

definition mp1_set_video_mode :: "'s calls \<Rightarrow> fish_layout \<Rightarrow> fish \<times> 's \<Rightarrow> (bool \<times> fish \<times> 's) option" where
  "mp1_set_video_mode c p st = (case st of (g, s) \<Rightarrow> do {
     (r, s) \<leftarrow> ece391_vidmap c (f_vmem p) s;
     let g = g\<lparr>vmem_base_addr := load32 (user_mem c s) (f_vmem p)\<rparr>;
     Some (r \<noteq> -1 \<and> vmem_base_addr g \<noteq> 0, g, s)
   })"

definition frame_blink :: "u8 \<Rightarrow> u8 \<Rightarrow> int \<Rightarrow> int \<Rightarrow> mp1_blink_struct" where
  "frame_blink c0 c1 line_no pos = zero_blink\<lparr>on_char := (if c0 = 10 then 32 else c0), off_char := (if c1 = 10 then 32 else c1),
     on_length := 15, off_length := 15, location := word_of_int (line_no * 80 + pos + 40)\<rparr>"

text \<open>The next character of a frame, unless its line has ended; the end of the file counts as the end of a line.\<close>

definition next_char :: "'s calls \<Rightarrow> int \<Rightarrow> u32 \<Rightarrow> bool \<Rightarrow> 's \<Rightarrow> (bool \<times> 's) option" where
  "next_char c fd a eof s =
     (if user_mem c s a \<noteq> 10 then do {
        (num_bytes, s) \<leftarrow> ece391_read c fd a 1 s;
        if num_bytes = 0 then Some (True, store c a 10 s) else Some (eof, s)
      } else Some (eof, s))"

partial_function (option) frame_line :: "'s calls \<Rightarrow> fish_layout \<Rightarrow> int \<Rightarrow> int \<Rightarrow> int \<Rightarrow> int \<Rightarrow> bool \<Rightarrow> bool \<Rightarrow> fish \<times> 's
    \<Rightarrow> (bool \<times> bool \<times> fish \<times> 's) option" where
  "frame_line c p fd0 fd1 line_no pos eof0 eof1 st = (case st of (g, s) \<Rightarrow> do {
     (eof0, s) \<leftarrow> next_char c fd0 (f_c0 p) eof0 s;
     (eof1, s) \<leftarrow> next_char c fd1 (f_c1 p) eof1 s;
     let c0 = user_mem c s (f_c0 p);
     let c1 = user_mem c s (f_c1 p);
     if c0 = 10 \<and> c1 = 10 then Some (eof0, eof1, g, s)
     else
       frame_line c p fd0 fd1 line_no (pos + 1) eof0 eof1
         (if (c0 \<noteq> 32 \<and> c0 \<noteq> 10) \<or> (c1 \<noteq> 32 \<and> c1 \<noteq> 10)
          then with_fish c (\<lambda>g. snd (mp1_ioctl_add (frame_blink c0 c1 line_no pos) g)) (g, s) else (g, s))
   })"

definition end_of_line :: "'s calls \<Rightarrow> int \<Rightarrow> u32 \<Rightarrow> bool \<Rightarrow> 's \<Rightarrow> 's option" where
  "end_of_line c fd a eof s =
     (if eof then do { (_, s) \<leftarrow> ece391_close c fd (store c a 10 s); Some s } else Some (store c a 48 s))"

partial_function (option) frame_rows :: "'s calls \<Rightarrow> fish_layout \<Rightarrow> int \<Rightarrow> int \<Rightarrow> int \<Rightarrow> bool \<Rightarrow> bool \<Rightarrow> fish \<times> 's \<Rightarrow> (fish \<times> 's) option" where
  "frame_rows c p fd0 fd1 line_no eof0 eof1 st =
     (if eof0 \<and> eof1 then Some st
      else do {
        (eof0, eof1, g, s) \<leftarrow> frame_line c p fd0 fd1 line_no 0 eof0 eof1 st;
        s \<leftarrow> end_of_line c fd0 (f_c0 p) eof0 s;
        s \<leftarrow> end_of_line c fd1 (f_c1 p) eof1 s;
        frame_rows c p fd0 fd1 (line_no + 1) eof0 eof1 (g, s)
      })"

text \<open>When a frame cannot be opened the program halts at once, with the low byte of -1 as its status.\<close>

definition add_frames :: "'s calls \<Rightarrow> fish_layout \<Rightarrow> fish \<times> 's \<Rightarrow> (int option \<times> fish \<times> 's) option" where
  "add_frames c p st = (case st of (g, s) \<Rightarrow> do {
     let s = store c (f_c1 p) 48 (store c (f_c0 p) 48 s);
     (fd0, s) \<leftarrow> ece391_open c (p_literal p ''frame0.txt'') s;
     if fd0 < 0 then Some (Some 255, g, s)
     else do {
       (fd1, s) \<leftarrow> ece391_open c (p_literal p ''frame1.txt'') s;
       if fd1 < 0 then Some (Some 255, g, s)
       else map_option (Pair None) (frame_rows c p fd0 fd1 0 False False (g, s))
     }
   })"

section \<open>Running\<close>

fun fish_wait :: "'s calls \<Rightarrow> fish_layout \<Rightarrow> int \<Rightarrow> nat \<Rightarrow> fish \<times> 's \<Rightarrow> (fish \<times> 's) option" where
  "fish_wait c p rtc_fd 0 st = Some st"
| "fish_wait c p rtc_fd (Suc n) (g, s) = do {
     (_, s) \<leftarrow> ece391_read c rtc_fd (f_local p) 4 s;
     st \<leftarrow> with_fish_option c mp1_rtc_tasklet (g, s);
     fish_wait c p rtc_fd n st
   }"

definition fish_main :: "'s calls \<Rightarrow> fish_layout \<Rightarrow> fish \<times> 's \<Rightarrow> (int \<times> fish \<times> 's) option" where
  "fish_main c p st = (case st of (g, s) \<Rightarrow> do {
     let g = g\<lparr>blink_array := replicate 2000 zero_blink\<rparr>;
     (ok, g, s) \<leftarrow> mp1_set_video_mode c p (g, s);
     if \<not> ok then Some (-1, g, s)
     else do {
       (rtc_fd, s) \<leftarrow> ece391_open c (p_literal p ''rtc'') s;
       (halted, g, s) \<leftarrow> add_frames c p (g, s);
       case halted of
         Some code \<Rightarrow> Some (code, g, s)
       | None \<Rightarrow> do {
           (_, s) \<leftarrow> ece391_write c rtc_fd (f_local p) 4 (set_user_mem c (store32 (user_mem c s) (f_local p) 32) s);
           st \<leftarrow> fish_wait c p rtc_fd 100 (g, s);
           let b = zero_blink\<lparr>on_char := byte CHR ''I'', off_char := byte CHR ''M'', on_length := 7, off_length := 6, location := 540\<rparr>;
           st \<leftarrow> fish_wait c p rtc_fd 100 (with_fish c (\<lambda>g. snd (mp1_ioctl_add b g)) st);
           st \<leftarrow> with_fish_option c (\<lambda>g. map_option snd (mp1_ioctl_sync (push_bit 16 40 OR 540) g)) st;
           st \<leftarrow> fish_wait c p rtc_fd 100 st;
           st \<leftarrow> with_fish_option c (\<lambda>g. map_option snd (mp1_ioctl_remove 540 g)) st;
           (g, s) \<leftarrow> fish_wait c p rtc_fd 100 st;
           (_, s) \<leftarrow> ece391_close c rtc_fd s;
           Some (0, g, s)
         }
     }
   })"

section \<open>Copying\<close>

text \<open>The loops with which the library clears and moves blinking characters; the count is signed. The second is a third instance of the contract of a copy routine.\<close>

definition ece391_memset :: "mem \<Rightarrow> u32 \<Rightarrow> u8 \<Rightarrow> u32 \<Rightarrow> mem" where
  "ece391_memset m memory c n = fold (\<lambda>i m. m(memory + word_of_nat i := c)) [0..<nat (sint n)] m"

definition ece391_memcpy :: "mem \<Rightarrow> u32 \<Rightarrow> u32 \<Rightarrow> u32 \<Rightarrow> mem" where
  "ece391_memcpy m dest src n = fold (\<lambda>i m. m(dest + word_of_nat i := m (src + word_of_nat i))) [0..<nat (sint n)] m"

lemma upt_Suc_map: "[0..<Suc n] = 0 # map Suc [0..<n]"
  by (simp add: map_Suc_upt upt_conv_Cons)

lemma fold_fill: "fold (\<lambda>i m. m(a + word_of_nat i := c)) [0..<n] m = write_bytes m a (replicate n c)" for a :: u32
proof (induction n arbitrary: m a)
  case (Suc n)
  have "a + word_of_nat (Suc i) = (a + 1) + word_of_nat i" for i by simp
  moreover have "a + word_of_nat 0 = a" by simp
  ultimately show ?case using Suc.IH [of "a + 1" "m(a := c)"] by (simp only: upt_Suc_map fold_map fold_simps o_def replicate_Suc write_bytes.simps)
qed simp

lemma ece391_memset_fills: "0 \<le> sint n \<Longrightarrow> ece391_memset m a c n = write_bytes m a (replicate (unat n) c)"
  by (simp add: ece391_memset_def fold_fill unat_sint_pos)

lemma fold_rep_movsb: "fold (\<lambda>i m. m(d + word_of_nat i := m (s + word_of_nat i))) [0..<n] m = rep_movsb n 1 m d s"
proof (induction n arbitrary: m d s)
  case (Suc n)
  have "d + word_of_nat (Suc i) = (d + 1) + word_of_nat i" "s + word_of_nat (Suc i) = (s + 1) + word_of_nat i" for i by simp_all
  moreover have "d + word_of_nat 0 = d" "s + word_of_nat 0 = s" by simp_all
  ultimately show ?case using Suc.IH [of "d + 1" "s + 1" "m(d := m s)"] by (simp only: upt_Suc_map fold_map fold_simps o_def rep_movsb.simps)
qed simp

lemma ece391_memcpy_ref: "copy_up_safe d s (unat n) \<and> unat n < 2147483648 \<Longrightarrow> ece391_memcpy m d s n = copy_ref m d s (unat n)"
proof -
  assume a: "copy_up_safe d s (unat n) \<and> unat n < 2147483648"
  then have "nat (sint n) = unat n" using sint_of_nat32 [of "unat n"] by simp
  then show ?thesis using a rep_movsb_up [of d s "unat n" m] by (simp add: ece391_memcpy_def fold_rep_movsb)
qed

interpretation fish_copy: copy_routine ece391_memcpy "\<lambda>d s n. copy_up_safe d s n \<and> n < 2147483648"
  by unfold_locales (rule ece391_memcpy_ref)

end
