(* ===== verification/Grep_Pingpong.thy ===== *)
theory Grep_Pingpong
  imports User_Programs "HOL-Library.Sublist"
begin

text \<open>
  The programs \<open>grep\<close> and \<open>pingpong\<close> of \<^verbatim>\<open>src/syscalls\<close> over the system call interface. The results are about the search of \<open>grep\<close> in a line
  and about the line that \<open>pingpong\<close> prints.
\<close>

section \<open>grep\<close>

record grep_layout = layout +
  g_data :: u32
  g_search :: u32

abbreviation BUFSIZE :: int where "BUFSIZE \<equiv> 1024"

text \<open>The end of the line that starts at \<open>line_end\<close>: a newline or the end of the data.\<close>

function scan_line :: "mem \<Rightarrow> u32 \<Rightarrow> int \<Rightarrow> int \<Rightarrow> int" where
  "scan_line m data last_pos line_end =
     (if line_end < last_pos \<and> m (data + word_of_int line_end) \<noteq> 10 then scan_line m data last_pos (line_end + 1) else line_end)"
  by pat_completeness auto
termination by (relation "measure (\<lambda>(m, d, l, e). nat (l - e))") auto

declare scan_line.simps [simp del]

text \<open>The search: does the string at \<open>str\<close> stand at one of the positions from \<open>check\<close> to the end of the line?\<close>

partial_function (option) search_line :: "mem \<Rightarrow> u32 \<Rightarrow> u32 \<Rightarrow> u32 \<Rightarrow> int \<Rightarrow> int \<Rightarrow> bool option" where
  "search_line m data str s_len check line_end =
     (if check < line_end then
        if m str = m (data + word_of_int check) then do {
          d \<leftarrow> ece391_strncmp m (data + word_of_int check) str s_len;
          if d = 0 then Some True else search_line m data str s_len (check + 1) line_end
        }
        else search_line m data str s_len (check + 1) line_end
      else Some False)"

definition print_match :: "'s calls \<Rightarrow> grep_layout \<Rightarrow> u32 \<Rightarrow> int \<Rightarrow> 's \<Rightarrow> 's option" where
  "print_match c p fname line_start s = do {
     s \<leftarrow> ece391_fdputs c 1 fname s;
     s \<leftarrow> ece391_fdputs c 1 (p_literal p '':'') s;
     s \<leftarrow> ece391_fdputs c 1 (g_data p + word_of_int line_start) s;
     ece391_fdputs c 1 (p_literal p nl) s
   }"

text \<open>The lines of the buffer, from \<open>line_start\<close> on. The result is the number of bytes of an unfinished line that was moved to the front.\<close>

partial_function (option) grep_lines :: "'s calls \<Rightarrow> grep_layout \<Rightarrow> u32 \<Rightarrow> u32 \<Rightarrow> u32 \<Rightarrow> int \<Rightarrow> int \<Rightarrow> int \<Rightarrow> 's \<Rightarrow> (int \<times> 's) option" where
  "grep_lines c p str s_len fname cnt last_pos line_start s = do {
     let line_end = scan_line (user_mem c s) (g_data p) last_pos line_start;
     let open_line = (user_mem c s (g_data p + word_of_int line_end) \<noteq> 10 \<and> cnt \<noteq> 0 \<and> line_start \<noteq> 0);
     let s = store c (g_data p + word_of_int line_end) 0 s;
     if open_line then do {
       m \<leftarrow> ece391_strcpy (user_mem c s) (g_data p) (g_data p + word_of_int line_start);
       Some (last_pos - line_start, set_user_mem c m s)
     }
     else do {
       found \<leftarrow> search_line (user_mem c s) (g_data p) str s_len line_start line_end;
       s \<leftarrow> (if found then print_match c p fname line_start s else Some s);
       if line_end + 1 \<ge> last_pos then Some (0, s)
       else grep_lines c p str s_len fname cnt last_pos (line_end + 1) s
     }
   }"

partial_function (option) grep_file_loop :: "'s calls \<Rightarrow> grep_layout \<Rightarrow> u32 \<Rightarrow> u32 \<Rightarrow> u32 \<Rightarrow> int \<Rightarrow> int \<Rightarrow> 's \<Rightarrow> (int \<times> 's) option" where
  "grep_file_loop c p str s_len fname fd last_pos s = do {
     (cnt, s) \<leftarrow> ece391_read c fd (g_data p + word_of_int last_pos) (BUFSIZE - last_pos) s;
     if cnt = -1 then give_up c p (''file read failed'' @ nl) (-1) s
     else do {
       (last_pos, s) \<leftarrow> grep_lines c p str s_len fname cnt (last_pos + cnt) 0 s;
       if cnt = 0 then do {
         (r, s) \<leftarrow> ece391_close c fd s;
         if r = -1 then give_up c p (''file close failed'' @ nl) (-1) s else Some (0, s)
       }
       else grep_file_loop c p str s_len fname fd last_pos s
     }
   }"

definition do_one_file :: "'s calls \<Rightarrow> grep_layout \<Rightarrow> u32 \<Rightarrow> u32 \<Rightarrow> 's \<Rightarrow> (int \<times> 's) option" where
  "do_one_file c p str fname s = do {
     s_len \<leftarrow> ece391_strlen (user_mem c s) str;
     (fd, s) \<leftarrow> ece391_open c fname s;
     if fd = -1 then give_up c p (''file open failed'' @ nl) (-1) s
     else grep_file_loop c p str s_len fname fd 0 s
   }"

partial_function (option) grep_dir_loop :: "'s calls \<Rightarrow> grep_layout \<Rightarrow> int \<Rightarrow> 's \<Rightarrow> (int \<times> 's) option" where
  "grep_dir_loop c p fd s = do {
     (cnt, s) \<leftarrow> ece391_read c fd (p_buf p) 32 s;
     if cnt = 0 then Some (0, s)
     else if cnt = -1 then give_up c p (''directory entry read failed'' @ nl) 3 s
     else if user_mem c s (p_buf p) = byte CHR ''.'' then grep_dir_loop c p fd s
     else do {
       (r, s) \<leftarrow> do_one_file c p (g_search p) (p_buf p) (store c (p_buf p + word_of_int cnt) 0 s);
       if r \<noteq> 0 then Some (3, s) else grep_dir_loop c p fd s
     }
   }"

definition grep_main :: "'s calls \<Rightarrow> grep_layout \<Rightarrow> 's \<Rightarrow> (int \<times> 's) option" where
  "grep_main c p s = do {
     (r, s) \<leftarrow> ece391_getargs c (g_search p) BUFSIZE s;
     if r \<noteq> 0 then give_up c p (''could not read argument'' @ nl) 3 s
     else do {
       (fd, s) \<leftarrow> ece391_open c (p_literal p ''.'') s;
       if fd = -1 then give_up c p (''directory open failed'' @ nl) 2 s else grep_dir_loop c p fd s
     }
   }"

section \<open>pingpong\<close>

text \<open>A line of 81 bytes: walls at 1 and 78, a newline, the end of the string. The inner part is cells 2 to 77.\<close>

definition fill_buf :: "u8 \<Rightarrow> nat list \<Rightarrow> u32 \<Rightarrow> mem \<Rightarrow> mem" where
  "fill_buf b is buf m = fold (\<lambda>i m. m(buf + word_of_nat i := b)) is m"

definition pingpong_walls :: "u32 \<Rightarrow> mem \<Rightarrow> mem" where
  "pingpong_walls buf m = (fill_buf 32 [0..<81] buf m)(buf + 80 := 0, buf + 79 := 10, buf + 78 := byte CHR ''|'', buf + 1 := byte CHR ''|'')"

definition pingpong_draw :: "u8 \<Rightarrow> nat \<Rightarrow> u32 \<Rightarrow> mem \<Rightarrow> mem" where
  "pingpong_draw curchar j buf m = (fill_buf 32 [2..<78] buf m)(buf + word_of_nat j := curchar)"

fun pingpong_frames :: "'s calls \<Rightarrow> u32 \<Rightarrow> u32 \<Rightarrow> int \<Rightarrow> u8 \<Rightarrow> nat list \<Rightarrow> 's \<Rightarrow> 's option" where
  "pingpong_frames c buf garbage rtc_fd curchar [] s = Some s"
| "pingpong_frames c buf garbage rtc_fd curchar (j # js) s = do {
     s \<leftarrow> ece391_fdputs c 1 buf (set_user_mem c (pingpong_draw curchar j buf (user_mem c s)) s);
     (_, s) \<leftarrow> ece391_read c rtc_fd garbage 4 s;
     pingpong_frames c buf garbage rtc_fd curchar js s
   }"

text \<open>There and back, then the next letter; the loop has no end.\<close>

partial_function (option) pingpong_loop :: "'s calls \<Rightarrow> u32 \<Rightarrow> u32 \<Rightarrow> int \<Rightarrow> u8 \<Rightarrow> 's \<Rightarrow> (int \<times> 's) option" where
  "pingpong_loop c buf garbage rtc_fd curchar s = do {
     s \<leftarrow> pingpong_frames c buf garbage rtc_fd curchar ([2..<78] @ rev [2..<78]) s;
     pingpong_loop c buf garbage rtc_fd (if curchar = byte CHR ''Z'' then byte CHR ''A'' else curchar + 1) s
   }"

definition pingpong_main :: "'s calls \<Rightarrow> layout \<Rightarrow> u32 \<Rightarrow> u32 \<Rightarrow> 's \<Rightarrow> (int \<times> 's) option" where
  "pingpong_main c p ret_val garbage s = do {
     let s = set_user_mem c (pingpong_walls (p_buf p) (user_mem c s)) s;
     (rtc_fd, s) \<leftarrow> ece391_open c (p_literal p ''rtc'') s;
     (_, s) \<leftarrow> ece391_write c rtc_fd ret_val 4 (set_user_mem c (store32 (user_mem c s) ret_val 32) s);
     pingpong_loop c (p_buf p) garbage rtc_fd (byte CHR ''A'') s
   }"

section \<open>Lemmas\<close>

lemma word_of_int_Suc: "data + word_of_int (k + 1) = data + word_of_int k + (1 :: u32)"
  by (simp add: add.assoc)

lemma search_line_sublist:
  assumes pat: "cstring m str pat" and "cstring m (data + word_of_int check) line"
  shows "search_line m data str (word_of_nat (length pat)) check (check + int (length line)) = Some (pat \<noteq> [] \<and> sublist pat line)"
  using assms(2)
proof (induction line arbitrary: check)
  case Nil
  then show ?case by (subst search_line.simps) (auto simp: sublist_def)
next
  case (Cons ch line)
  let ?k = "word_of_nat (length pat) :: u32"
  have l: "length pat < 4294967296" using cstring_length [OF pat] .
  have c: "m (data + word_of_int check) = ch" "ch \<noteq> 0" "cstring m (data + word_of_int (check + 1)) line"
    using Cons.prems by (simp_all add: cstring_Cons word_of_int_Suc add.assoc)
  have ih: "search_line m data str ?k (check + 1) (check + int (length (ch # line))) = Some (pat \<noteq> [] \<and> sublist pat line)"
    using Cons.IH [OF c(3)] by (simp add: algebra_simps)
  obtain d where d: "ece391_strncmp m (data + word_of_int check) str ?k = Some d" "d = 0 \<longleftrightarrow> take (length pat) (ch # line) = pat"
    using ece391_strncmp_cstring [OF Cons.prems pat l] by auto
  have pre: "take (length pat) (ch # line) = pat \<longleftrightarrow> prefix pat (ch # line)" by (metis append_take_drop_id prefix_def take_is_prefix append_eq_conv_conj)
  have sub: "sublist pat (ch # line) \<longleftrightarrow> prefix pat (ch # line) \<or> sublist pat line" by (rule sublist_Cons_right)
  show ?case
  proof (cases "m str = ch")
    case True
    then have "pat \<noteq> []" using pat c(2) by (auto simp: cstring_Nil)
    then show ?thesis using True c(1) d ih pre sub by (subst search_line.simps) auto
  next
    case False
    then have "pat \<noteq> [] \<Longrightarrow> \<not> prefix pat (ch # line)" using pat by (cases pat) (auto simp: cstring_Cons)
    then show ?thesis using False c(1) ih sub by (subst search_line.simps) auto
  qed
qed

lemma fill_buf_apply: "fill_buf b is buf m x = (if \<exists>i \<in> set is. x = buf + word_of_nat i then b else m x)"
  unfolding fill_buf_def by (induction "is" arbitrary: m) auto

definition picture :: "u8 \<Rightarrow> nat \<Rightarrow> u8 list" where
  "picture ch j = 32 # byte CHR ''|'' # replicate (j - 2) 32 @ ch # replicate (77 - j) 32 @ [byte CHR ''|'', 10]"

text \<open>The cells that drawing never touches.\<close>

definition walls :: "u32 \<Rightarrow> mem \<Rightarrow> bool" where
  "walls buf m \<longleftrightarrow> m buf = 32 \<and> m (buf + 1) = byte CHR ''|'' \<and> m (buf + 78) = byte CHR ''|'' \<and> m (buf + 79) = 10 \<and> m (buf + 80) = 0"

lemma buf_cell_eq: "i < 4294967296 \<Longrightarrow> k < 4294967296 \<Longrightarrow> buf + word_of_nat i = buf + (word_of_nat k :: u32) \<longleftrightarrow> i = k"
  using add_of_nat_eq_iff [of i k buf] by simp

lemma pingpong_draw_cell:
  assumes "2 \<le> j" "j < 78" "k < 81"
  shows "pingpong_draw ch j buf m (buf + word_of_nat k) = (if k = j then ch else if 2 \<le> k \<and> k < 78 then 32 else m (buf + word_of_nat k))"
proof -
  have "buf + word_of_nat k = buf + (word_of_nat i :: u32) \<longleftrightarrow> k = i" if "i \<in> set [2..<78]" for i
    by (rule buf_cell_eq) (use that assms(3) in \<open>simp_all only: set_upt atLeastLessThan_iff\<close>, linarith+)
  then have "(\<exists>i \<in> set [2..<78]. buf + word_of_nat k = buf + (word_of_nat i :: u32)) \<longleftrightarrow> k \<in> set [2..<78]"
    by blast
  then show ?thesis using buf_cell_eq [of k j buf] assms by (simp add: pingpong_draw_def fill_buf_apply del: upt_conv_Cons upt_rec_numeral)
qed

lemma pingpong_picture_cstring:
  assumes w: "walls buf m" and j: "2 \<le> j" "j < 78" and "ch \<noteq> 0"
  shows "cstring (pingpong_draw ch j buf m) buf (picture ch j)" "walls buf (pingpong_draw ch j buf m)"
proof -
  have len: "length (picture ch j) = 80" using j by (simp add: picture_def)
  have cells: "m (buf + word_of_nat k) = (if k = 0 then 32 else if k = 1 \<or> k = 78 then byte CHR ''|'' else if k = 79 then 10 else 0)"
    if "k \<in> {0, 1, 78, 79, 80}" for k using w that by (auto simp: walls_def)
  have "pingpong_draw ch j buf m (buf + word_of_nat k) = (picture ch j @ [0]) ! k" if k: "k < 81" for k
  proof -
    consider "k \<in> {0, 1, 78, 79, 80}" | "2 \<le> k" "k < j" | "k = j" | "j < k" "k < 78" using k j unfolding insert_iff empty_iff by linarith
    then show ?thesis
    proof cases
      case 1
      then show ?thesis using pingpong_draw_cell [OF j k, of ch buf m] cells [OF 1] j
        by (auto simp: picture_def nth_append nth_Cons')
    qed (use pingpong_draw_cell [OF j k, of ch buf m] j in \<open>auto simp: picture_def nth_append nth_Cons'\<close>)
  qed
  then have "read_bytes (pingpong_draw ch j buf m) buf 81 = picture ch j @ [0]"
    using len by (intro nth_equalityI) (simp_all add: nth_read_bytes)
  moreover have "0 \<notin> set (picture ch j)" using assms(4) by (auto simp: picture_def byte_def)
  ultimately show "cstring (pingpong_draw ch j buf m) buf (picture ch j)" using len by (simp add: cstring_def)
  show "walls buf (pingpong_draw ch j buf m)"
    using w j pingpong_draw_cell [OF j, of 0 ch buf m] pingpong_draw_cell [OF j, of 1 ch buf m] pingpong_draw_cell [OF j, of 78 ch buf m]
      pingpong_draw_cell [OF j, of 79 ch buf m] pingpong_draw_cell [OF j, of 80 ch buf m] by (simp add: walls_def)
qed

lemma scan_line_newline:
  assumes "read_bytes m (data + word_of_int start) (Suc (length line)) = line @ [10]" and "10 \<notin> set line" and "start + int (length line) < last_pos"
  shows "scan_line m data last_pos start = start + int (length line)"
  using assms
proof (induction line arbitrary: start)
  case Nil
  then show ?case by (subst scan_line.simps) (simp add: read_bytes_Suc)
next
  case (Cons ch line)
  then have "scan_line m data last_pos (start + 1) = start + 1 + int (length line)"
    by (intro Cons.IH) (simp_all add: read_bytes_Suc add.assoc)
  then show ?case using Cons.prems by (subst scan_line.simps) (simp add: read_bytes_Suc)
qed

lemma read_bytes_snoc: "read_bytes m a (Suc n) = read_bytes m a n @ [m (a + word_of_nat n)]"
  by (simp add: read_bytes_def)

lemma line_becomes_string:
  assumes "read_bytes m a (Suc (length line)) = line @ [b]" and "0 \<notin> set line" and "length line < 4294967296"
  shows "cstring (m(a + word_of_nat (length line) := 0)) a line"
proof -
  have "read_bytes m a (length line) = line" using assms(1) by (simp add: read_bytes_snoc)
  moreover have "read_bytes (m(a + word_of_nat (length line) := 0)) a (length line) = read_bytes m a (length line)"
    using assms(3) buf_cell_eq [of _ "length line" a] by (intro read_bytes_cong) (auto simp: fun_upd_def)
  ultimately show ?thesis using assms(2) by (simp add: cstring_def read_bytes_snoc)
qed

section \<open>Properties\<close>


definition grep_example :: mem where
  "grep_example = write_bytes (write_bytes (\<lambda>_. 0) 0x8100000 (bytes ''a needle'' @ [10])) 0x8200000 (bytes ''need'')"


end
