(* ===== verification/Emulate.thy ===== *)
theory Emulate
  imports User_Support
begin

text \<open>
  The emulation layer of \<^verbatim>\<open>ece391emulate.c\<close>, with which the user programs run on Linux: the same calls as the kernel's, written with those of Linux.
  Linux and its library are a parameter, a record of functions over the memory of the process and the rest of the world. The main result is that the words of a command
  line arrive as the arguments of the program.
\<close>

section \<open>Linux\<close>

text \<open>
  \<open>lx_int\<close> is the trap with the registers \<open>eax\<close> to \<open>edx\<close>; \<open>lx_readdir\<close> gives the address of the name of the next entry, 0 at the end; \<open>lx_run\<close> starts a process with a path
  and an argument vector, in which \<open>kill\<close> with signal 9 follows a failed \<open>execv\<close>, and gives the status that \<open>wait\<close> stores.
\<close>

record 'w linux =
  lx_int :: "u32 \<Rightarrow> u32 \<Rightarrow> u32 \<Rightarrow> u32 \<Rightarrow> mem \<times> 'w \<Rightarrow> (u32 \<times> mem \<times> 'w) option"
  lx_opendir :: "string \<Rightarrow> mem \<times> 'w \<Rightarrow> u32 \<times> mem \<times> 'w"
  lx_readdir :: "u32 \<Rightarrow> mem \<times> 'w \<Rightarrow> u32 \<times> mem \<times> 'w"
  lx_closedir :: "u32 \<Rightarrow> mem \<times> 'w \<Rightarrow> mem \<times> 'w"
  lx_open :: "string \<Rightarrow> int \<Rightarrow> mem \<times> 'w \<Rightarrow> int \<times> mem \<times> 'w"
  lx_close :: "int \<Rightarrow> mem \<times> 'w \<Rightarrow> mem \<times> 'w"
  lx_mmap :: "int \<Rightarrow> mem \<times> 'w \<Rightarrow> u32 \<times> mem \<times> 'w"
  lx_perror :: "string \<Rightarrow> mem \<times> 'w \<Rightarrow> mem \<times> 'w"
  lx_run :: "u32 \<Rightarrow> u32 list \<Rightarrow> mem \<times> 'w \<Rightarrow> (u32 \<times> mem \<times> 'w) option"

abbreviation (input) O_RDONLY :: int where "O_RDONLY \<equiv> 0"
abbreviation (input) O_RDWR :: int where "O_RDWR \<equiv> 2"
abbreviation (input) MAP_FAILED :: u32 where "MAP_FAILED \<equiv> 0xFFFFFFFF"

definition WIFEXITED :: "u32 \<Rightarrow> bool" where "WIFEXITED status \<longleftrightarrow> status AND 0x7F = 0"
definition WEXITSTATUS :: "u32 \<Rightarrow> u32" where "WEXITSTATUS status = drop_bit 8 (status AND 0xFF00)"
definition WTERMSIG :: "u32 \<Rightarrow> u32" where "WTERMSIG status = status AND 0x7F"

section \<open>The calls\<close>

record 'w emulation =
  start_esp :: u32
  dir_fd :: int
  dir :: u32
  mem_fd :: int
  emu_mem :: mem
  world :: 'w

abbreviation process_of :: "'w emulation \<Rightarrow> mem \<times> 'w" where
  "process_of e \<equiv> (emu_mem e, world e)"

definition with_process :: "'w emulation \<Rightarrow> mem \<times> 'w \<Rightarrow> 'w emulation" where
  "with_process e p = e\<lparr>emu_mem := fst p, world := snd p\<rparr>"

text \<open>The results above \<open>0xFFFFC000\<close> are error numbers.\<close>

definition do_call :: "'w linux \<Rightarrow> u32 \<Rightarrow> u32 \<Rightarrow> u32 \<Rightarrow> u32 \<Rightarrow> 'w emulation \<Rightarrow> (int \<times> 'w emulation) option" where
  "do_call lx number b c d e = do {
     (eax, p) \<leftarrow> lx_int lx number b c d (process_of e);
     Some (if eax \<le> 0xFFFFC000 then sint eax else -1, with_process e p)
   }"

subsection \<open>Starting programs\<close>

partial_function (option) scan_word :: "mem \<Rightarrow> u32 \<Rightarrow> u32 option" where
  "scan_word m at = (if m at \<noteq> 0 \<and> m at \<noteq> 32 \<and> m at \<noteq> 10 then scan_word m (at + 1) else Some at)"

partial_function (option) skip_spaces :: "mem \<Rightarrow> u32 \<Rightarrow> u32 option" where
  "skip_spaces m at = (if m at = 32 then skip_spaces m (at + 1) else Some at)"

partial_function (option) parse_args :: "mem \<Rightarrow> u32 \<Rightarrow> u32 list \<Rightarrow> (mem \<times> u32 list) option" where
  "parse_args m at args = do {
     at \<leftarrow> skip_spaces m at;
     if m at = 0 \<or> m at = 10 then Some (m(at := 0), args)
     else do {
       let args = args @ [at];
       at \<leftarrow> scan_word m at;
       if m at \<noteq> 0 then parse_args (m(at := 0)) (at + 1) args else parse_args m at args
     }
   }"

definition emu_command_args :: "mem \<Rightarrow> u32 \<Rightarrow> u32 \<Rightarrow> (mem \<times> u32 list) option" where
  "emu_command_args m buf command = do {
     m \<leftarrow> ece391_strcpy (m(buf := byte CHR ''.'', buf + 1 := byte CHR ''/'')) (buf + 2) command;
     at \<leftarrow> scan_word m (buf + 2);
     if m at \<noteq> 0 then parse_args (m(at := 0)) (at + 1) [buf] else Some (m, [buf])
   }"

definition ece391_execute_emu :: "'w linux \<Rightarrow> u32 \<Rightarrow> u32 \<Rightarrow> 'w emulation \<Rightarrow> (int \<times> 'w emulation) option" where
  "ece391_execute_emu lx buf command e = do {
     len \<leftarrow> ece391_strlen (emu_mem e) command;
     if 1023 < len then Some (-1, e)
     else do {
       (m, args) \<leftarrow> emu_command_args (emu_mem e) buf command;
       (status, p) \<leftarrow> lx_run lx buf args (m, world e);
       Some (if WIFEXITED status then uint (WEXITSTATUS status) else if WTERMSIG status = 9 then -1 else 256, with_process e p)
     }
   }"

subsection \<open>Arguments\<close>

definition finish_args :: "mem \<Rightarrow> u32 \<Rightarrow> int \<Rightarrow> int \<times> mem" where
  "finish_args m buf nbytes = (if nbytes < 1 then (-1, m) else (0, m(buf := 0)))"

partial_function (option) getargs_loop :: "mem \<Rightarrow> u32 \<Rightarrow> int \<Rightarrow> int \<Rightarrow> u32 \<Rightarrow> int \<Rightarrow> (int \<times> mem) option" where
  "getargs_loop m argv argc idx buf nbytes =
     (if idx < argc then do {
        let arg = load32 m (argv + 4 * word_of_int idx);
        len \<leftarrow> ece391_strlen m arg;
        if sint len > nbytes then Some (-1, m)
        else do {
          m \<leftarrow> ece391_strcpy m buf arg;
          let buf = buf + len;
          let nbytes = nbytes - sint len;
          if idx + 1 \<ge> argc then Some (finish_args m buf nbytes)
          else if nbytes < 1 then Some (-1, m)
          else getargs_loop (m(buf := 32)) argv argc (idx + 1) (buf + 1) (nbytes - 1)
        }
      }
      else Some (finish_args m buf nbytes))"

definition ece391_getargs_emu :: "u32 \<Rightarrow> int \<Rightarrow> 'w emulation \<Rightarrow> (int \<times> 'w emulation) option" where
  "ece391_getargs_emu buf nbytes e = do {
     (r, m) \<leftarrow> getargs_loop (emu_mem e) (start_esp e + 4) (sint (load32 (emu_mem e) (start_esp e))) 1 buf nbytes;
     Some (r, e\<lparr>emu_mem := m\<rparr>)
   }"

subsection \<open>Files and the directory\<close>

text \<open>The registers that a call does not set have any value (\<open>ecx\<close>, \<open>edx\<close>); \<open>dot\<close> is the address of the literal.\<close>

definition ece391_open_emu :: "'w linux \<Rightarrow> u32 \<Rightarrow> u32 \<Rightarrow> u32 \<Rightarrow> 'w emulation \<Rightarrow> (int \<times> 'w emulation) option" where
  "ece391_open_emu lx dot edx filename e = do {
     d \<leftarrow> ece391_strcmp (emu_mem e) filename dot;
     if d = 0 then
       let (h, p) = lx_opendir lx ''.'' (process_of e);
           (fd, p) = lx_open lx ''/dev/null'' O_RDONLY p
       in Some (fd, with_process (e\<lparr>dir := h, dir_fd := fd\<rparr>) p)
     else do {
       (rval, p) \<leftarrow> lx_int lx 5 filename (word_of_int O_RDONLY) edx (process_of e);
       Some (if rval > 0xFFFFC000 then -1 else sint rval, with_process e p)
     }
   }"

definition ece391_vidmap_emu :: "'w linux \<Rightarrow> u32 \<Rightarrow> 'w emulation \<Rightarrow> int \<times> 'w emulation" where
  "ece391_vidmap_emu lx screen_start e =
     (let e = (if mem_fd e = -1 then let (fd, p) = lx_open lx ''/dev/mem'' O_RDWR (process_of e) in with_process (e\<lparr>mem_fd := fd\<rparr>) p else e);
          (mem_image, p) = lx_mmap lx (mem_fd e) (process_of e);
          e = with_process e p
      in if mem_image = MAP_FAILED then (-1, with_process e (lx_perror lx ''mmap low memory'' (process_of e)))
         else (0, e\<lparr>emu_mem := store32 (emu_mem e) screen_start (mem_image + 0xB8000)\<rparr>))"

function pad_name :: "mem \<Rightarrow> u32 \<Rightarrow> int \<Rightarrow> int \<Rightarrow> int \<times> mem" where
  "pad_name m to copied nbytes =
     (if nbytes > copied \<and> 32 > copied then pad_name (m(to := 0)) (to + 1) (copied + 1) nbytes else (copied, m))"
  by pat_completeness auto
termination by (relation "measure (\<lambda>(m, to, copied, nbytes). nat (32 - copied))") auto

declare pad_name.simps [simp del]

partial_function (option) copy_name :: "mem \<Rightarrow> u32 \<Rightarrow> u32 \<Rightarrow> int \<Rightarrow> int \<Rightarrow> (int \<times> mem) option" where
  "copy_name m from to copied nbytes =
     (if m from \<noteq> 0 then
        if copied + 1 = nbytes then Some (nbytes, m(to := m from))
        else if 32 = copied + 1 then Some (32, m(to := m from))
        else copy_name (m(to := m from)) (from + 1) (to + 1) (copied + 1) nbytes
      else Some (pad_name m to copied nbytes))"

definition ece391_read_emu :: "'w linux \<Rightarrow> int \<Rightarrow> u32 \<Rightarrow> int \<Rightarrow> 'w emulation \<Rightarrow> (int \<times> 'w emulation) option" where
  "ece391_read_emu lx fd buf nbytes e =
     (if dir e = 0 \<or> dir_fd e \<noteq> fd then do_call lx 3 (word_of_int fd) buf (word_of_int nbytes) e
      else let (de, p) = lx_readdir lx (dir e) (process_of e); e = with_process e p
           in if de = 0 then Some (0, e)
              else map_option (\<lambda>(r, m). (r, e\<lparr>emu_mem := m\<rparr>)) (copy_name (emu_mem e) de buf 0 nbytes))"

definition ece391_write_emu :: "'w linux \<Rightarrow> int \<Rightarrow> u32 \<Rightarrow> int \<Rightarrow> 'w emulation \<Rightarrow> (int \<times> 'w emulation) option" where
  "ece391_write_emu lx fd buf nbytes e =
     (if dir e = 0 \<or> dir_fd e \<noteq> fd then do_call lx 4 (word_of_int fd) buf (word_of_int nbytes) e else Some (-1, e))"

definition ece391_close_emu :: "'w linux \<Rightarrow> u32 \<Rightarrow> u32 \<Rightarrow> int \<Rightarrow> 'w emulation \<Rightarrow> (int \<times> 'w emulation) option" where
  "ece391_close_emu lx ecx edx fd e =
     (if dir e = 0 \<or> dir_fd e \<noteq> fd then do_call lx 6 (word_of_int fd) ecx edx e
      else let p = lx_close lx (dir_fd e) (lx_closedir lx (dir e) (process_of e))
           in Some (0, with_process (e\<lparr>dir := 0, dir_fd := -1\<rparr>) p))"

text \<open>The entry point of a program: it keeps the stack pointer for \<open>getargs\<close>, calls \<open>main\<close> and ends with its result.\<close>

definition emu_start :: "'w linux \<Rightarrow> u32 \<Rightarrow> u32 \<Rightarrow> u32 \<Rightarrow> ('w emulation \<Rightarrow> (int \<times> 'w emulation) option) \<Rightarrow> 'w emulation \<Rightarrow> (int \<times> 'w emulation) option" where
  "emu_start lx esp ecx edx main e = do {
     (r, e) \<leftarrow> main (e\<lparr>start_esp := esp\<rparr>);
     do_call lx 1 (word_of_int r) ecx edx e
   }"

section \<open>Words of a command line\<close>

abbreviation separator :: "u8 \<Rightarrow> bool" where
  "separator b \<equiv> b = 32 \<or> b = 10"

function a_words :: "u8 list \<Rightarrow> u8 list list" where
  "a_words cs =
     (let ds = dropWhile (\<lambda>b. b = 32) cs; w = takeWhile (\<lambda>b. \<not> separator b) ds
      in if ds = [] \<or> hd ds = 10 then [] else w # a_words (drop (Suc (length w)) ds))"
  by pat_completeness auto
termination
proof (relation "measure length", simp)
  fix cs ds w :: "u8 list"
  assume "ds = dropWhile (\<lambda>b. b = 32) cs" "\<not> (ds = [] \<or> hd ds = 10)"
  then have "0 < length ds" "length ds \<le> length cs" by (simp_all add: length_dropWhile_le)
  then show "(drop (Suc (length w)) ds, cs) \<in> measure length" by (simp only: in_measure length_drop)
qed

declare a_words.simps [simp del]

definition a_command :: "u8 list \<Rightarrow> u8 list list" where
  "a_command cs = (let w = takeWhile (\<lambda>b. \<not> separator b) cs in (bytes ''./'' @ w) # a_words (drop (Suc (length w)) cs))"

fun a_join :: "u8 list list \<Rightarrow> u8 list" where
  "a_join [] = []"
| "a_join [w] = w"
| "a_join (w # v # ws) = w @ 32 # a_join (v # ws)"

lemma cstring_drop:
  "cstring m s cs \<Longrightarrow> k \<le> length cs \<Longrightarrow> cstring m (s + word_of_nat k) (drop k cs)"
proof (induction k arbitrary: s cs)
  case (Suc k)
  obtain c ds where "cs = c # ds" using Suc.prems(2) by (cases cs) simp_all
  moreover have "s + word_of_nat (Suc k) = s + 1 + word_of_nat k" by simp
  ultimately show ?case using Suc.prems Suc.IH [of "s + 1" ds] by (simp only: cstring_Cons drop_Suc_Cons length_Cons Suc_le_mono)
qed simp

lemma skip_spaces_cstring:
  "cstring m s cs \<Longrightarrow> skip_spaces m s = Some (s + word_of_nat (length (takeWhile (\<lambda>b. b = 32) cs)))"
proof (induction cs arbitrary: s)
  case Nil
  then show ?case by (simp add: skip_spaces.simps [of m s] cstring_Nil)
next
  case (Cons c cs)
  then show ?case by (simp add: skip_spaces.simps [of m s] cstring_Cons add.assoc)
qed

lemma scan_word_cstring:
  "cstring m s cs \<Longrightarrow> scan_word m s = Some (s + word_of_nat (length (takeWhile (\<lambda>b. \<not> separator b) cs)))"
proof (induction cs arbitrary: s)
  case Nil
  then show ?case by (simp add: scan_word.simps [of m s] cstring_Nil)
next
  case (Cons c cs)
  then show ?case by (auto simp: scan_word.simps [of m s] cstring_Cons add.assoc)
qed

lemma in_region_before: "i < k \<Longrightarrow> k + n \<le> 4294967296 \<Longrightarrow> \<not> in_region (a + word_of_nat i) (a + word_of_nat k) n" for a :: u32
proof
  assume a: "i < k" "k + n \<le> 4294967296" "in_region (a + word_of_nat i) (a + word_of_nat k) n"
  define j where "j = unat (a + word_of_nat i - (a + word_of_nat k))"
  have "j < n" using a(3) by (simp add: in_region_def j_def)
  moreover have "a + word_of_nat i = a + word_of_nat k + word_of_nat j" unfolding j_def by (rule word_diff_of_nat)
  then have "a + word_of_nat i = a + (word_of_nat (k + j) :: u32)" by (simp add: add.assoc)
  ultimately show False using a(1,2) add_of_nat_eq_iff [of i "k + j" a] by simp
qed

text \<open>The end of a word inside a string is overwritten: two strings result, and they are apart.\<close>

lemma cstring_cut:
  assumes "cstring m s cs" and "k < length cs"
  shows "cstring (m(s + word_of_nat k := 0)) s (take k cs)" "cstring (m(s + word_of_nat k := 0)) (s + word_of_nat k + 1) (drop (Suc k) cs)"
proof -
  have len: "length cs < 4294967296" using cstring_length [OF assms(1)] .
  let ?m = "m(s + word_of_nat k := 0)"
  have r: "read_bytes ?m s k = read_bytes m s k"
    using len assms(2) add_of_nat_eq_iff [of _ k s] by (intro read_bytes_cong) (auto simp: fun_upd_def)
  have "read_bytes m s k = take k cs"
  proof -
    have "take k (read_bytes m s (Suc (length cs))) = take k (cs @ [0])" using assms(1) by (simp add: cstring_def)
    then show ?thesis using assms(2) by (simp add: take_read_bytes min_absorb1)
  qed
  moreover have "read_bytes ?m s (Suc k) = read_bytes ?m s k @ [?m (s + word_of_nat k)]" by (simp add: read_bytes_def)
  ultimately show "cstring ?m s (take k cs)" using r assms by (auto simp: cstring_def dest: in_set_takeD)
  have "cstring m (s + word_of_nat (Suc k)) (drop (Suc k) cs)" using assms by (intro cstring_drop) simp_all
  moreover have "\<not> in_region (s + word_of_nat k) (s + word_of_nat (Suc k)) (Suc (length (drop (Suc k) cs)))"
    using len assms(2) by (intro in_region_before) simp_all
  ultimately have "cstring ?m (s + word_of_nat (Suc k)) (drop (Suc k) cs)" using len by (intro cstring_upd) simp_all
  moreover have "s + word_of_nat (Suc k) = s + word_of_nat k + 1" by simp
  ultimately show "cstring ?m (s + word_of_nat k + 1) (drop (Suc k) cs)" by (simp only:)
qed

lemma parse_args_end: "m s = 0 \<Longrightarrow> parse_args m s args = Some (m, args)"
  by (simp add: parse_args.simps [of m s] skip_spaces.simps [of m s] fun_upd_idem)

lemma in_regionE:
  assumes "in_region x a n" obtains i where "i < n" "x = a + word_of_nat i"
  using assms word_diff_of_nat [of x a] by (auto simp: in_region_def)

lemma cstring_apart:
  assumes "cstring m s w" and "\<forall>x. \<not> in_region x (s + word_of_nat (Suc (length w))) n \<longrightarrow> m' x = m x" and "Suc (length w) + n \<le> 4294967296"
  shows "cstring m' s w"
proof (rule cstring_cong [OF assms(1)])
  fix x assume "in_region x s (Suc (length w))"
  then obtain i where i: "i < Suc (length w)" "x = s + word_of_nat i" by (rule in_regionE)
  have "\<not> in_region x (s + word_of_nat (Suc (length w))) n" unfolding i(2) using i(1) assms(3) by (rule in_region_before)
  then show "m' x = m x" using assms(2) by blast
qed (use assms(3) in simp)

lemma parse_args_words:
  "cstring m s cs \<Longrightarrow> \<exists>m' ps. parse_args m s args = Some (m', args @ ps) \<and> list_all2 (cstring m') ps (a_words cs)
     \<and> (\<forall>x. \<not> in_region x s (Suc (length cs)) \<longrightarrow> m' x = m x)"
proof (induction cs arbitrary: m s args rule: a_words.induct)
  case (1 cs)
  define k where "k = length (takeWhile (\<lambda>b. b = 32) cs)"
  define ds where "ds = dropWhile (\<lambda>b. b = 32) cs"
  define w where "w = takeWhile (\<lambda>b. \<not> separator b) ds"
  let ?s = "s + word_of_nat k"
  have len: "length cs < 4294967296" using cstring_length [OF "1.prems"] .
  have k: "k + length ds = length cs" unfolding k_def ds_def by (metis length_append takeWhile_dropWhile_id)
  have cut: "ds = drop k cs" unfolding k_def ds_def by (rule dropWhile_eq_drop)
  have c: "cstring m ?s ds" using cstring_drop [OF "1.prems", of k] k cut by simp
  have skip: "skip_spaces m s = Some ?s" using skip_spaces_cstring [OF "1.prems"] by (simp add: k_def)
  have words: "a_words cs = (if ds = [] \<or> hd ds = 10 then [] else w # a_words (drop (Suc (length w)) ds))"
    by (subst a_words.simps) (simp add: ds_def w_def Let_def)
  have inside: "x \<noteq> ?s + word_of_nat n" if "\<not> in_region x s (Suc (length cs))" "n \<le> length ds" for x n
    using that in_region_offset [of "k + n" "Suc (length cs)" s] k len by (auto simp: add.assoc)
  show ?case
  proof (cases "ds = [] \<or> hd ds = 10")
    case True
    then have "m ?s = 0 \<or> m ?s = 10" using c by (cases ds) (auto simp: cstring_Nil cstring_Cons)
    then show ?thesis using True skip words inside [of _ 0] by (auto simp: parse_args.simps [of m s])
  next
    case False
    have hd32: "hd ds \<noteq> 32" using False hd_dropWhile [of "\<lambda>b. b = 32" cs] by (simp add: ds_def)
    have m1: "m ?s \<noteq> 0 \<and> m ?s \<noteq> 10" using False c by (cases ds) (auto simp: cstring_Cons)
    have sw: "scan_word m ?s = Some (?s + word_of_nat (length w))" using scan_word_cstring [OF c] by (simp add: w_def)
    let ?n = "length w"
    have n: "?n \<le> length ds" "take ?n ds = w" unfolding w_def by (simp_all add: length_takeWhile_le takeWhile_eq_take [symmetric])
    show ?thesis
    proof (cases "?n < length ds")
      case True
      let ?m = "m(?s + word_of_nat ?n := 0)"
      have e: "m (?s + word_of_nat ?n) \<noteq> 0" using cstring_nonzero [OF c True] .
      have c1: "cstring ?m ?s w" and c2: "cstring ?m (?s + word_of_nat ?n + 1) (drop (Suc ?n) ds)" using cstring_cut [OF c True] n(2) by simp_all
      obtain m' ps where r: "parse_args ?m (?s + word_of_nat ?n + 1) (args @ [?s]) = Some (m', (args @ [?s]) @ ps)"
        "list_all2 (cstring m') ps (a_words (drop (Suc ?n) ds))"
        "\<forall>x. \<not> in_region x (?s + word_of_nat ?n + 1) (Suc (length (drop (Suc ?n) ds))) \<longrightarrow> m' x = ?m x"
        using "1.IH" [OF ds_def w_def False c2, of "args @ [?s]"] by blast
      have a: "?s + word_of_nat ?n + 1 = s + word_of_nat (k + Suc ?n)" "?s + word_of_nat ?n + 1 = ?s + word_of_nat (Suc ?n)" by simp_all
      have "cstring m' ?s w" by (rule cstring_apart [OF c1 r(3) [unfolded a(2)]]) (use True len k in simp)
      moreover have "m' x = m x" if x: "\<not> in_region x s (Suc (length cs))" for x
      proof -
        have "\<not> in_region x (s + word_of_nat (k + Suc ?n)) (Suc (length (drop (Suc ?n) ds)))"
        proof
          have e: "k + Suc ?n + Suc (length (drop (Suc ?n) ds)) = Suc (length cs)" using True k by simp
          assume "in_region x (s + word_of_nat (k + Suc ?n)) (Suc (length (drop (Suc ?n) ds)))"
          then have "in_region x s (k + Suc ?n + Suc (length (drop (Suc ?n) ds)))" by (rule in_region_shift) (use e len in linarith)
          then show False using x unfolding e by blast
        qed
        then show ?thesis using r(3) inside [OF x n(1)] a(1) by simp
      qed
      ultimately show ?thesis using r(1,2) skip m1 sw e words False by (auto simp: parse_args.simps [of m s])
    next
      case b: False
      then have w: "w = ds" using n by simp
      have "m (?s + word_of_nat ?n) = 0" using cstring_end [OF c] w by simp
      moreover have "a_words (drop (Suc ?n) ds) = []" using w by (simp add: a_words.simps)
      ultimately show ?thesis
        using skip m1 sw words False c w by (auto simp: parse_args.simps [of m s] parse_args_end)
    qed
  qed
qed

abbreviation apart :: "u32 \<Rightarrow> nat \<Rightarrow> u32 \<Rightarrow> nat \<Rightarrow> bool" where
  "apart a n b k \<equiv> \<forall>x. in_region x a n \<longrightarrow> \<not> in_region x b k"

lemma strcpy_apart:
  "cstring m src cs \<Longrightarrow> apart dst (Suc (length cs)) src (Suc (length cs)) \<Longrightarrow> ece391_strcpy m dst src = Some (write_bytes m dst (cs @ [0]))"
proof (induction cs arbitrary: m dst src)
  case Nil
  then show ?case by (simp add: ece391_strcpy.simps [of m dst src] cstring_Nil fun_upd_def)
next
  case (Cons c cs)
  have len: "Suc (length cs) < 4294967296" using cstring_length [OF Cons.prems(1)] by simp
  have sub: "in_region x (a + 1) (Suc (length cs)) \<Longrightarrow> in_region x a (Suc (length (c # cs)))" for x a
    using in_region_shift [of x a 1 "Suc (length cs)"] len by simp
  have "\<not> in_region dst src (Suc (length (c # cs)))" using Cons.prems(2) in_region_self [of "Suc (length (c # cs))" dst] by blast
  then have "cstring (m(dst := c)) (src + 1) cs"
    using Cons.prems(1) sub [of dst src] len by (intro cstring_upd) (auto simp: cstring_Cons)
  moreover have "apart (dst + 1) (Suc (length cs)) (src + 1) (Suc (length cs))" using Cons.prems(2) sub by blast
  ultimately show ?case using Cons.IH [of "m(dst := c)" "src + 1" "dst + 1"] Cons.prems(1)
    by (simp add: ece391_strcpy.simps [of m dst src] cstring_Cons fun_upd_def)
qed

lemma cstring_append:
  "cstring m s (xs @ ys) \<longleftrightarrow> read_bytes m s (length xs) = xs \<and> 0 \<notin> set xs \<and> cstring m (s + word_of_nat (length xs)) ys"
proof (induction xs arbitrary: s)
  case (Cons x xs)
  then show ?case by (auto simp: cstring_Cons read_bytes_Suc add.assoc)
qed simp

lemma command_args_words:
  assumes cs: "cstring m command cs" and small: "length cs \<le> 1023" and ap: "apart buf 1026 command (Suc (length cs))"
  shows "\<exists>m' ps. emu_command_args m buf command = Some (m', buf # ps) \<and> list_all2 (cstring m') (buf # ps) (a_command cs)
     \<and> (\<forall>x. \<not> in_region x buf 1026 \<longrightarrow> m' x = m x)"
proof -
  define w where "w = takeWhile (\<lambda>b. \<not> separator b) cs"
  have n: "length w \<le> length cs" "take (length w) cs = w" unfolding w_def by (simp_all add: length_takeWhile_le takeWhile_eq_take [symmetric])
  have buf: "in_region (buf + word_of_nat i) buf 1026" if "i < 1026" for i using that by (rule in_region_offset) simp
  let ?m1 = "m(buf := byte CHR ''.'', buf + 1 := byte CHR ''/'')"
  let ?m2 = "write_bytes ?m1 (buf + 2) (cs @ [0])"
  let ?pre = "bytes ''./'' @ cs"
  have "\<not> in_region buf command (Suc (length cs))" "\<not> in_region (buf + 1) command (Suc (length cs))"
    using ap buf [of 0] buf [of 1] by auto
  then have c1: "cstring ?m1 command cs" using cs small by (intro cstring_upd) simp_all
  have sub: "in_region x buf 1026" if "in_region x (buf + word_of_nat k) j" "k + j \<le> 1026" for x k j
    using in_region_shift [OF that(1)] that(2) in_region_mono [of x buf "k + j" 1026] by simp
  have "apart (buf + 2) (Suc (length cs)) command (Suc (length cs))" using ap sub [of _ 2 "Suc (length cs)"] small by auto
  then have cpy: "ece391_strcpy ?m1 (buf + 2) command = Some ?m2" using c1 by (intro strcpy_apart)
  have z: "0 \<notin> set cs" using cs by (simp add: cstring_def)
  have c2: "cstring ?m2 (buf + 2) cs" using z small by (intro cstring_write) simp_all
  have out2: "?m2 (buf + word_of_nat i) = ?m1 (buf + word_of_nat i)" if "i < 2" for i
    using in_region_before [of i 2 "Suc (length cs)" buf] that small by (simp add: write_bytes_apply)
  have cw: "cstring ?m2 buf ?pre" using c2 out2 [of 0] out2 [of 1] by (simp add: cstring_Cons byte_def add.assoc)
  have sw: "scan_word ?m2 (buf + 2) = Some (buf + word_of_nat (2 + length w))" using scan_word_cstring [OF c2] by (simp add: w_def add.assoc)
  have un: "?m2 x = m x" if "\<not> in_region x buf 1026" for x
    using that sub [of x 2 "Suc (length cs)"] buf [of 0] buf [of 1] small by (auto simp: write_bytes_apply)
  show ?thesis
  proof (cases "length w < length cs")
    case False
    then have w: "w = cs" using n by simp
    have "?m2 (buf + word_of_nat (2 + length w)) = 0" using cstring_end [OF c2] w by (simp add: add.assoc)
    moreover have "a_command cs = [bytes ''./'' @ cs]" unfolding a_command_def w_def [symmetric] using w by (simp add: a_words.simps)
    ultimately show ?thesis using cpy sw cw un by (auto simp: emu_command_args_def)
  next
    case True
    let ?k = "2 + length w"
    let ?m3 = "?m2(buf + word_of_nat ?k := 0)"
    have k: "?k < length ?pre" using True by simp
    have nz: "?m2 (buf + word_of_nat ?k) \<noteq> 0" using cstring_nonzero [OF cw k] .
    have c3: "cstring ?m3 buf (bytes ''./'' @ w)" "cstring ?m3 (buf + word_of_nat ?k + 1) (drop (Suc (length w)) cs)"
      using cstring_cut [OF cw k] n(2) by simp_all
    obtain m' ps where r: "parse_args ?m3 (buf + word_of_nat ?k + 1) [buf] = Some (m', [buf] @ ps)" "list_all2 (cstring m') ps (a_words (drop (Suc (length w)) cs))"
      "\<forall>x. \<not> in_region x (buf + word_of_nat ?k + 1) (Suc (length (drop (Suc (length w)) cs))) \<longrightarrow> m' x = ?m3 x"
      using parse_args_words [OF c3(2), of "[buf]"] by blast
    have a: "buf + word_of_nat ?k + 1 = buf + word_of_nat (Suc (length (bytes ''./'' @ w)))" "buf + word_of_nat ?k + 1 = buf + word_of_nat (Suc ?k)" by simp_all
    have "cstring m' buf (bytes ''./'' @ w)" by (rule cstring_apart [OF c3(1) r(3) [unfolded a(1)]]) (use True small in simp)
    moreover have "m' x = m x" if x: "\<not> in_region x buf 1026" for x
    proof -
      have "\<not> in_region x (buf + word_of_nat (Suc ?k)) (Suc (length (drop (Suc (length w)) cs)))"
      proof
        assume "in_region x (buf + word_of_nat (Suc ?k)) (Suc (length (drop (Suc (length w)) cs)))"
        then have "in_region x buf 1026" by (rule sub) (use True small in simp)
        then show False using x by blast
      qed
      moreover have "x \<noteq> buf + word_of_nat ?k" using x buf [of ?k] True small by auto
      ultimately show ?thesis using r(3) un [OF x] a(2) by (metis fun_upd_other)
    qed
    moreover have "a_command cs = (bytes ''./'' @ w) # a_words (drop (Suc (length w)) cs)" by (simp add: a_command_def w_def Let_def)
    ultimately show ?thesis using r(1,2) cpy sw nz by (auto simp: emu_command_args_def)
  qed
qed

lemma length_join: "ws \<noteq> [] \<Longrightarrow> length (hd ws) \<le> length (a_join ws)"
  by (cases ws rule: a_join.cases) simp_all

section \<open>Joining arguments\<close>

text \<open>
  What \<open>execv\<close> leaves for a process with the arguments \<open>ws\<close>: from \<open>argv[idx]\<close> on, pointers to copies of them. A buffer of the program is apart from the pointers
  and the copies.
\<close>

definition argv_ok :: "mem \<Rightarrow> u32 \<Rightarrow> int \<Rightarrow> u8 list list \<Rightarrow> u32 \<Rightarrow> nat \<Rightarrow> bool" where
  "argv_ok m argv idx ws buf n \<longleftrightarrow> (\<forall>i < length ws. let c = argv + 4 * word_of_int (idx + int i) in
     disjoint_regions c 4 buf n \<and> length (ws ! i) < 2147483648 \<and> cstring m (load32 m c) (ws ! i)
     \<and> disjoint_regions (load32 m c) (Suc (length (ws ! i))) buf n)"

lemma disjoint_regions_apart: "0 < n \<Longrightarrow> 0 < k \<Longrightarrow> disjoint_regions a n b k \<longleftrightarrow> apart a n b k"
proof
  assume "0 < n" "0 < k" and ap: "apart a n b k"
  then have "in_region a a n" "in_region b b k" using in_region_self by blast+
  then have "\<not> in_region a b k" "\<not> in_region b a n" using ap by blast+
  then show "disjoint_regions a n b k" by (simp add: disjoint_regions_def in_region_def)
qed (use disjoint_regionsD in blast)

lemma load32_apart:
  assumes "apart a 4 buf n" and "\<And>x. \<not> in_region x buf n \<Longrightarrow> m' x = m x"
  shows "load32 m' a = load32 m a"
proof (rule load32_cong, rule read_bytes_cong)
  fix i :: nat assume "i < 4"
  then have "in_region (a + word_of_nat i) a 4" by (rule in_region_offset) simp
  then show "m' (a + word_of_nat i) = m (a + word_of_nat i)" using assms by blast
qed

lemma cstring_other:
  assumes "cstring m p w" and "apart p (Suc (length w)) buf n" and "\<And>x. \<not> in_region x buf n \<Longrightarrow> m' x = m x"
  shows "cstring m' p w"
  by (rule cstring_cong [OF assms(1)]) (use assms(2,3) cstring_length [OF assms(1)] in blast)+

lemma argv_ok_Cons:
  assumes "argv_ok m argv idx (w # ws) buf n" and "0 < n"
  shows "length w < 2147483648" "cstring m (load32 m (argv + 4 * word_of_int idx)) w" "apart (load32 m (argv + 4 * word_of_int idx)) (Suc (length w)) buf n"
    "argv_ok m argv (idx + 1) ws buf n"
proof -
  note all = assms(1) [unfolded argv_ok_def Let_def]
  from all have "length ((w # ws) ! 0) < 2147483648 \<and> cstring m (load32 m (argv + 4 * word_of_int (idx + int 0))) ((w # ws) ! 0)
      \<and> disjoint_regions (load32 m (argv + 4 * word_of_int (idx + int 0))) (Suc (length ((w # ws) ! 0))) buf n" by blast
  then show "length w < 2147483648" "cstring m (load32 m (argv + 4 * word_of_int idx)) w" "apart (load32 m (argv + 4 * word_of_int idx)) (Suc (length w)) buf n"
    using assms(2) disjoint_regionsD by simp_all blast
  have "(w # ws) ! Suc i = ws ! i" "idx + int (Suc i) = idx + 1 + int i" "i < length ws \<Longrightarrow> Suc i < length (w # ws)" for i by simp_all
  then show "argv_ok m argv (idx + 1) ws buf n" using all unfolding argv_ok_def Let_def by metis
qed

lemma argv_ok_frame:
  assumes ok: "argv_ok m argv idx ws buf n" and same: "\<And>x. \<not> in_region x buf n \<Longrightarrow> m' x = m x"
    and sub: "\<And>x. in_region x b k \<Longrightarrow> in_region x buf n" and "0 < n" "0 < k"
  shows "argv_ok m' argv idx ws b k"
  unfolding argv_ok_def Let_def
proof (intro allI impI)
  fix i assume i: "i < length ws"
  let ?c = "argv + 4 * word_of_int (idx + int i)"
  have d: "disjoint_regions ?c 4 buf n" "length (ws ! i) < 2147483648" "cstring m (load32 m ?c) (ws ! i)" "disjoint_regions (load32 m ?c) (Suc (length (ws ! i))) buf n"
    using ok i unfolding argv_ok_def Let_def by blast+
  then have ap: "apart ?c 4 buf n" "apart (load32 m ?c) (Suc (length (ws ! i))) buf n" using disjoint_regionsD by blast+
  have l: "load32 m' ?c = load32 m ?c" using ap(1) same by (rule load32_apart)
  have "apart ?c 4 b k" "apart (load32 m ?c) (Suc (length (ws ! i))) b k" using ap sub by blast+
  then have "disjoint_regions ?c 4 b k" "disjoint_regions (load32 m ?c) (Suc (length (ws ! i))) b k"
    using assms(5) disjoint_regions_apart by (metis zero_less_numeral, metis zero_less_Suc)
  moreover have "cstring m' (load32 m ?c) (ws ! i)" using d(3) ap(2) same by (rule cstring_other)
  ultimately show "disjoint_regions ?c 4 b k \<and> length (ws ! i) < 2147483648 \<and> cstring m' (load32 m' ?c) (ws ! i)
      \<and> disjoint_regions (load32 m' ?c) (Suc (length (ws ! i))) b k" using d(2) unfolding l by blast
qed

text \<open>One turn of the loop, when the argument fits.\<close>

lemma getargs_step:
  assumes ok: "argv_ok m argv idx (w # ws) buf (Suc (nat nbytes))" and fits: "int (length w) \<le> nbytes" and "argc = idx + 1 + int (length ws)"
  shows "getargs_loop m argv argc idx buf nbytes =
     (let b = buf + word_of_nat (length w); n = nbytes - int (length w)
      in if ws = [] then Some (finish_args (write_bytes m buf (w @ [0])) b n)
         else if n < 1 then Some (-1, write_bytes m buf (w @ [0]))
         else getargs_loop (write_bytes m buf (w @ [32])) argv argc (idx + 1) (b + 1) (n - 1))"
proof -
  note w = argv_ok_Cons [OF ok zero_less_Suc]
  let ?p = "load32 m (argv + 4 * word_of_int idx)"
  have len: "ece391_strlen m ?p = Some (word_of_nat (length w))" "sint (word_of_nat (length w) :: u32) = int (length w)"
    using strlen_cstring [OF w(2)] w(1) by (simp_all add: ece391_strlen_eq sint_of_nat32)
  have "Suc (length w) \<le> Suc (nat nbytes)" using fits by simp
  then have "apart buf (Suc (length w)) ?p (Suc (length w))" using w(3) in_region_mono by blast
  then have cpy: "ece391_strcpy m buf ?p = Some (write_bytes m buf (w @ [0]))" by (rule strcpy_apart [OF w(2)])
  have upd: "(write_bytes m buf (w @ [0]))(buf + word_of_nat (length w) := 32) = write_bytes m buf (w @ [32])" by (simp add: write_bytes_append)
  have "idx < argc" "idx + 1 \<ge> argc \<longleftrightarrow> ws = []" using assms(3) by auto
  then show ?thesis unfolding getargs_loop.simps [of m argv argc idx] using len cpy fits by (simp add: Let_def upd)
qed

lemma getargs_too_long:
  assumes ok: "argv_ok m argv idx (w # ws) buf n" and "0 < n" and "nbytes < int (length w)" and "idx < argc"
  shows "getargs_loop m argv argc idx buf nbytes = Some (-1, m)"
  using argv_ok_Cons [OF ok assms(2)] strlen_cstring assms(3,4) by (simp add: getargs_loop.simps [of m] ece391_strlen_eq sint_of_nat32)

text \<open>The first argument and the space behind it stay while the others follow.\<close>

lemma join_cstring:
  assumes w: "0 \<notin> set w" and rest: "cstring m' (buf + word_of_nat (length w) + 1) js"
    and same: "\<forall>x. \<not> in_region x (buf + word_of_nat (length w) + 1) n \<longrightarrow> m' x = write_bytes m buf (w @ [32]) x" and "Suc (length w) + n \<le> 4294967296"
  shows "cstring m' buf (w @ 32 # js)"
proof -
  have b: "buf + word_of_nat (length w) + 1 = buf + word_of_nat (length (w @ [32]))" by simp
  have "read_bytes m' buf (length (w @ [32])) = read_bytes (write_bytes m buf (w @ [32])) buf (length (w @ [32]))"
  proof (rule read_bytes_cong)
    fix i assume "i < length (w @ [32])"
    then have "\<not> in_region (buf + word_of_nat i) (buf + word_of_nat (length (w @ [32]))) n" using assms(4) by (intro in_region_before) simp_all
    then show "m' (buf + word_of_nat i) = write_bytes m buf (w @ [32]) (buf + word_of_nat i)" using same unfolding b by blast
  qed
  also have "\<dots> = w @ [32]" using assms(4) by (intro read_write_bytes) simp
  finally have "cstring m' buf ((w @ [32]) @ js)" unfolding cstring_append using w rest unfolding b by auto
  then show ?thesis by simp
qed

lemma getargs_join:
  assumes "argv_ok m argv idx ws buf (Suc (nat nbytes))" and "0 \<le> nbytes" "nbytes < 2147483648" and "argc = idx + int (length ws)"
  shows "\<exists>m'. getargs_loop m argv argc idx buf nbytes = Some (if int (length (a_join ws)) < nbytes then 0 else -1, m')
     \<and> (int (length (a_join ws)) < nbytes \<longrightarrow> cstring m' buf (a_join ws)) \<and> (\<forall>x. \<not> in_region x buf (Suc (nat nbytes)) \<longrightarrow> m' x = m x)"
  using assms
proof (induction ws arbitrary: m idx buf nbytes)
  case Nil
  then show ?case using in_region_self [of "Suc (nat nbytes)" buf] by (cases "nbytes = 0") (auto simp: getargs_loop.simps [of m] finish_args_def cstring_Nil)
next
  case (Cons w ws)
  let ?N = "Suc (nat nbytes)"
  note a = argv_ok_Cons [OF Cons.prems(1) zero_less_Suc]
  show ?case
  proof (cases "nbytes < int (length w)")
    case True
    have "getargs_loop m argv argc idx buf nbytes = Some (-1, m)"
      by (rule getargs_too_long [OF Cons.prems(1) _ True]) (use Cons.prems(4) in simp_all)
    then show ?thesis using True length_join [of "w # ws"] by auto
  next
    case False
    let ?b = "buf + word_of_nat (length w)"
    let ?n = "nbytes - int (length w)"
    have fits: "Suc (length w) \<le> ?N" using False by simp
    have un: "write_bytes m buf (w @ [c]) x = m x" if "\<not> in_region x buf ?N" for x c
      using that in_region_mono [OF _ fits, of x buf] a(1) by (auto simp: write_bytes_apply)
    have z: "0 \<notin> set w" using a(2) by (simp add: cstring_def)
    have c1: "cstring (write_bytes m buf (w @ [0])) buf w" using z a(1) by (intro cstring_write) simp_all
    have go: "getargs_loop m argv argc idx buf nbytes = (if ws = [] then Some (finish_args (write_bytes m buf (w @ [0])) ?b ?n)
         else if ?n < 1 then Some (-1, write_bytes m buf (w @ [0])) else getargs_loop (write_bytes m buf (w @ [32])) argv argc (idx + 1) (?b + 1) (?n - 1))"
      using getargs_step [OF Cons.prems(1), of argc] False Cons.prems(4) by (simp add: Let_def)
    consider "ws = []" | "ws \<noteq> []" "?n < 1" | "ws \<noteq> []" "?n \<ge> 1" by linarith
    then show ?thesis
    proof cases
      case 1
      have "finish_args (write_bytes m buf (w @ [0])) ?b ?n = (if int (length w) < nbytes then 0 else -1, write_bytes m buf (w @ [0]))"
        using cstring_end [OF c1] by (auto simp: finish_args_def fun_upd_idem)
      then show ?thesis using 1 un c1 unfolding go by auto
    next
      case 2
      then show ?thesis using un unfolding go by (cases ws) auto
    next
      case 3
      have N: "Suc (length w) + Suc (nat (?n - 1)) = ?N" using 3 by simp
      have b: "?b + 1 = buf + word_of_nat (Suc (length w))" by simp
      have sub: "in_region x buf ?N" if "in_region x (?b + 1) (Suc (nat (?n - 1)))" for x
        using in_region_shift [OF that [unfolded b]] Cons.prems(3) unfolding N by simp
      have "argv_ok (write_bytes m buf (w @ [32])) argv (idx + 1) ws (?b + 1) (Suc (nat (?n - 1)))"
        by (rule argv_ok_frame [OF a(4) un sub]) simp_all
      then obtain m' where m': "getargs_loop (write_bytes m buf (w @ [32])) argv argc (idx + 1) (?b + 1) (?n - 1) = Some (if int (length (a_join ws)) < ?n - 1 then 0 else -1, m')"
        "int (length (a_join ws)) < ?n - 1 \<Longrightarrow> cstring m' (?b + 1) (a_join ws)"
        "\<forall>x. \<not> in_region x (?b + 1) (Suc (nat (?n - 1))) \<longrightarrow> m' x = write_bytes m buf (w @ [32]) x"
        using Cons.IH [of "write_bytes m buf (w @ [32])" "idx + 1" "?b + 1" "?n - 1"] 3 Cons.prems(3,4) by auto
      have join: "a_join (w # ws) = w @ 32 # a_join ws" using 3 by (cases ws) simp_all
      have "cstring m' buf (a_join (w # ws))" if "int (length (a_join ws)) < ?n - 1"
        unfolding join by (rule join_cstring [OF z m'(2) [OF that] m'(3)]) (use N Cons.prems(3) in linarith)
      moreover have "m' x = m x" if "\<not> in_region x buf ?N" for x using m'(3) un [OF that] sub that by metis
      moreover have "int (length (a_join (w # ws))) < nbytes \<longleftrightarrow> int (length (a_join ws)) < ?n - 1" unfolding join by auto
      ultimately show ?thesis using m'(1) 3 unfolding go by auto
    qed
  qed
qed

section \<open>Names of the directory\<close>

lemma pad_name_zeros:
  "copied \<le> min nbytes 32 \<Longrightarrow> pad_name m to copied nbytes = (min nbytes 32, write_bytes m to (replicate (nat (min nbytes 32 - copied)) 0))"
proof (induction m to copied nbytes rule: pad_name.induct)
  case (1 m to copied nbytes)
  show ?case
  proof (cases "nbytes > copied \<and> 32 > copied")
    case True
    have n: "nat (min nbytes 32 - copied) = Suc (nat (min nbytes 32 - (copied + 1)))" using True by (cases "nbytes \<le> 32") (auto simp: nat_diff_split)
    have "pad_name m to copied nbytes = pad_name (m(to := 0)) (to + 1) (copied + 1) nbytes" using True by (subst pad_name.simps) (simp only: simp_thms if_True)
    also have "\<dots> = (min nbytes 32, write_bytes (m(to := 0)) (to + 1) (replicate (nat (min nbytes 32 - (copied + 1))) 0))"
      using True by (intro "1.IH") simp_all
    finally show ?thesis unfolding n by simp
  next
    case False
    then show ?thesis using "1.prems" by (subst pad_name.simps) auto
  qed
qed

lemma copy_name_pads:
  assumes "cstring m from name" and "apart from (Suc (length name)) to (nat (min nbytes 32 - copied))" and "0 \<le> copied" "copied < min nbytes 32"
  shows "copy_name m from to copied nbytes = Some (min nbytes 32, write_bytes m to (take (nat (min nbytes 32 - copied)) (name @ replicate 32 0)))"
  using assms
proof (induction name arbitrary: m "from" to copied)
  case Nil
  have "nat (min nbytes 32 - copied) \<le> 32" using Nil.prems(3) by simp
  then show ?case using Nil.prems pad_name_zeros [of copied nbytes m to] by (simp add: copy_name.simps [of m] cstring_Nil)
next
  case (Cons c name)
  let ?L = "min nbytes 32"
  let ?k = "nat (?L - (copied + 1))"
  have c: "m from = c" "c \<noteq> 0" "cstring m (from + 1) name" using Cons.prems(1) by (simp_all add: cstring_Cons)
  have len: "Suc (length name) < 4294967296" using cstring_length [OF Cons.prems(1)] by simp
  have n: "nat (?L - copied) = Suc ?k" using Cons.prems(4) by linarith
  have step: "copy_name m from to copied nbytes = (if copied + 1 = ?L then Some (?L, m(to := c)) else copy_name (m(to := c)) (from + 1) (to + 1) (copied + 1) nbytes)"
    using c Cons.prems(4) by (subst copy_name.simps) auto
  show ?case
  proof (cases "copied + 1 = ?L")
    case True
    then have "?k = 0" by simp
    then show ?thesis using step True unfolding n by (simp add: fun_upd_def)
  next
    case False
    have src: "in_region x (from + 1) (Suc (length name)) \<Longrightarrow> in_region x from (Suc (length (c # name)))" for x
      using in_region_shift [of x "from" 1 "Suc (length name)"] len by simp
    have lt: "copied + 1 < ?L" using False Cons.prems(4) by linarith
    have "?k \<le> 32" using Cons.prems(3) by simp
    then have dst: "in_region x (to + 1) ?k \<Longrightarrow> in_region x to (Suc ?k)" for x
      using in_region_shift [of x to 1 ?k] by simp
    have ap: "apart from (Suc (length (c # name))) to (Suc ?k)" using Cons.prems(2) unfolding n .
    then have "\<not> in_region to (from + 1) (Suc (length name))" using src in_region_self [of "Suc ?k" to] by blast
    then have "cstring (m(to := c)) (from + 1) name" using c(3) len by (intro cstring_upd) simp_all
    moreover have "apart (from + 1) (Suc (length name)) (to + 1) ?k" using ap src dst by blast
    ultimately show ?thesis using step False Cons.IH [of "m(to := c)" "from + 1" "to + 1" "copied + 1"] Cons.prems(3) lt unfolding n by (simp add: fun_upd_def)
  qed
qed

lemma emulated_directory_read:
  assumes "dir e \<noteq> 0" "dir_fd e = fd" and "lx_readdir lx (dir e) (process_of e) = (de, m, w)" and "de \<noteq> 0" "cstring m de name"
    and "disjoint_regions de (Suc (length name)) buf 32" and "0 < nbytes"
  shows "ece391_read_emu lx fd buf nbytes e
     = Some (min nbytes 32, e\<lparr>emu_mem := write_bytes m buf (take (nat (min nbytes 32)) (name @ replicate 32 0)), world := w\<rparr>)"
proof -
  have "nat (min nbytes 32 - 0) \<le> 32" by simp
  then have "apart de (Suc (length name)) buf (nat (min nbytes 32 - 0))" using disjoint_regionsD [OF assms(6)] in_region_mono by blast
  then show ?thesis using copy_name_pads [OF assms(5), of buf nbytes 0] assms by (simp add: ece391_read_emu_def with_process_def)
qed

section \<open>Properties\<close>

text \<open>
  C36. Command lines on Linux. A command of at most 1023 characters is split into words: the first, with \<open>./\<close> in front, is the program, and the others, which spaces or a
  newline separate, are its arguments; the argument vector points to exactly these strings. A program that is started with these arguments gets them
  from \<open>getargs\<close>, joined by single spaces, when they fit into its buffer with the end of the string, and the result -1 otherwise.
\<close>

theorem emulated_command_line:
  assumes "cstring m command cs" and "length cs \<le> 1023" and "disjoint_regions buf 1026 command (Suc (length cs))"
    and "sint (load32 (emu_mem e) (start_esp e)) = int (length (a_command cs))"
    and "argv_ok (emu_mem e) (start_esp e + 4) 1 (tl (a_command cs)) args (Suc (nat nbytes))" and "0 \<le> nbytes" "nbytes < 2147483648"
  shows "(\<exists>m' ps. emu_command_args m buf command = Some (m', ps) \<and> list_all2 (cstring m') ps (a_command cs) \<and> (\<forall>x. \<not> in_region x buf 1026 \<longrightarrow> m' x = m x))
    \<and> (\<exists>m'. ece391_getargs_emu args nbytes e = Some (if int (length (a_join (tl (a_command cs)))) < nbytes then 0 else -1, e\<lparr>emu_mem := m'\<rparr>)
        \<and> (int (length (a_join (tl (a_command cs)))) < nbytes \<longrightarrow> cstring m' args (a_join (tl (a_command cs)))))"
proof
  have "apart buf 1026 command (Suc (length cs))" using assms(3) disjoint_regionsD by blast
  then show "\<exists>m' ps. emu_command_args m buf command = Some (m', ps) \<and> list_all2 (cstring m') ps (a_command cs) \<and> (\<forall>x. \<not> in_region x buf 1026 \<longrightarrow> m' x = m x)"
    using command_args_words [OF assms(1,2)] by blast
  have "sint (load32 (emu_mem e) (start_esp e)) = 1 + int (length (tl (a_command cs)))" using assms(4) by (simp add: a_command_def Let_def)
  then show "\<exists>m'. ece391_getargs_emu args nbytes e = Some (if int (length (a_join (tl (a_command cs)))) < nbytes then 0 else -1, e\<lparr>emu_mem := m'\<rparr>)
        \<and> (int (length (a_join (tl (a_command cs)))) < nbytes \<longrightarrow> cstring m' args (a_join (tl (a_command cs))))"
    using getargs_join [OF assms(5-7), of "1 + int (length (tl (a_command cs)))"] by (auto simp: ece391_getargs_emu_def)
qed

text \<open>A shell has the command; the process it starts has two arguments on its stack.\<close>

definition shell_example :: mem where
  "shell_example = write_bytes (\<lambda>_. 0) 0x1000 (bytes ''grep  very I'' @ [10])"

definition child_example :: "unit emulation" where
  "child_example = \<lparr>start_esp = 0x2000, dir_fd = -1, dir = 0, mem_fd = -1,
     emu_mem = write_bytes (store32 (store32 (store32 (\<lambda>_. 0) 0x2000 3) 0x2008 0x3000) 0x200C 0x3005) 0x3000 (bytes ''very'' @ [0] @ bytes ''I''), world = ()\<rparr>"

theorem emulated_command_line_witness:
  "a_command (bytes ''grep  very I'' @ [10]) = [bytes ''./grep'', bytes ''very'', bytes ''I'']
    \<and> (\<exists>m' ps. emu_command_args shell_example 0x4000 0x1000 = Some (m', ps) \<and> list_all2 (cstring m') ps [bytes ''./grep'', bytes ''very'', bytes ''I''])
    \<and> (\<exists>m'. ece391_getargs_emu 0x5000 7 child_example = Some (0, child_example\<lparr>emu_mem := m'\<rparr>) \<and> cstring m' 0x5000 (bytes ''very I''))"
proof -
  let ?cs = "bytes ''grep  very I'' @ [10]"
  have sp: "byte CHR '' '' = 32" by code_simp
  have c: "a_command ?cs = [bytes ''./grep'', bytes ''very'', bytes ''I'']" by code_simp
  have "cstring shell_example 0x1000 ?cs" by code_simp
  moreover have "sint (load32 (emu_mem child_example) 0x2000) = 3" by code_simp
  moreover have "start_esp child_example = 0x2000" by (simp add: child_example_def)
  moreover have "argv_ok (emu_mem child_example) 0x2004 1 [bytes ''very'', bytes ''I''] 0x5000 8"
  proof -
    have "load32 (emu_mem child_example) 0x2008 = 0x3000" "load32 (emu_mem child_example) 0x200C = 0x3005"
      "cstring (emu_mem child_example) 0x3000 (bytes ''very'')" "cstring (emu_mem child_example) 0x3005 (bytes ''I'')" by code_simp+
    then show ?thesis by (simp add: argv_ok_def All_less_Suc disjoint_regions_def)
  qed
  ultimately show ?thesis
    using emulated_command_line [of shell_example "0x1000" ?cs "0x4000" child_example "0x5000" 7] c by (auto simp: disjoint_regions_def sp)
qed

end
