(* ===== verification/Spec2Isabelle.thy ===== *)
theory Spec2Isabelle
  imports Start Kernel_Events Listing Self_Tests Sig_Test Fish Grep_Pingpong Emulate
begin

text \<open>
  A verification of the operating system kernel in \<^verbatim>\<open>src/student-distrib\<close>: a 32-bit
  x86 kernel with three text terminals, a read-only file system, system calls and a round robin scheduler; and of the user programs in \<^verbatim>\<open>src/syscalls\<close> and
  \<^verbatim>\<open>src/fish\<close> that run on it.

  \<^bold>\<open>The program and its model.\<close> The kernel is C with inline assembly over global variables. The model is
  one record, extended theory by theory in the order in which the components depend on each other
  (\<open>machine\<close>, \<open>console\<close>, \<open>pic\<close>, \<open>rtc\<close>, \<open>paging\<close>, \<open>fs\<close>, \<open>tty\<close>, \<open>kbd\<close>, \<open>process\<close>, \<open>kernel\<close>, \<open>boot\<close>): every global variable of
  the source is a field, and every function of the source is a function on states that extend
  the record it needs, so that an operation of a lower component applies to the state of every higher one. Memory is a function from 32-bit
  addresses to bytes; pointers are 32-bit words; \<open>int\<close> values that the code keeps small are integers, and words where the
  code relies on wrap-around or on unsigned comparison. Port output is a log, port input a field.
  A loop that may not end is a partial function into an option, \<open>None\<close> for a call that does not return; a busy wait runs against an explicit list of the interrupts
  that arrive meanwhile.

  \<^item> \<^bold>\<open>Prelude, Memory\<close>: machine types, lemma collections (\<open>addr_simps\<close>, \<open>mem_simps\<close>, \<open>frame_simps\<close>), byte memory, little-endian words, regions, C strings.
  \<^item> \<^bold>\<open>Lib_Mem, Lib_String\<close> (\<^verbatim>\<open>lib.c\<close>): \<open>memset\<close>, \<open>memcpy\<close>, \<open>memmove\<close> with their alignment phases equal the reference copies, overlapping
    ranges included; \<open>strlen\<close>, \<open>strrev\<close>, \<open>itoa\<close>, \<open>strncmp\<close>, \<open>strcpy\<close>, \<open>strncpy\<close> return on strings with the results they promise.
  \<^item> \<^bold>\<open>Machine, Console, Printf\<close> (\<^verbatim>\<open>lib.h\<close>, \<^verbatim>\<open>lib.c\<close>): ports and the interrupt flag; the cursor and the video memory refine an abstract screen of 25 by 80 characters
    (\<open>a_put\<close>); \<open>printf\<close> prints the rendering of its directives.
  \<^item> \<^bold>\<open>Pic, Rtc\<close> (\<^verbatim>\<open>i8259.c\<close>, \<^verbatim>\<open>rtc.c\<close>): masks and acknowledgements, with the invariant that no operation masks the timer, cascade and clock lines; the clock driver.
  \<^item> \<^bold>\<open>Paging\<close> (\<^verbatim>\<open>paging.c\<close>): the tables, against the two-level translation of the processor; pages of different processes are disjoint.
  \<^item> \<^bold>\<open>Filesystem\<close> (\<^verbatim>\<open>filesystem.c\<close>): the image is bytes in memory; \<open>read_data\<close> and \<open>read_dentry_by_name\<close> against the abstract contents and names of an image.
  \<^item> \<^bold>\<open>Terminal, Keyboard\<close> (\<^verbatim>\<open>terminal.c\<close>, \<^verbatim>\<open>keyboard.c\<close>, \<open>save_and_switch_term\<close>): line input, output, switching, scan codes; typing a line and reading it.
  \<^item> \<^bold>\<open>Process, Syscalls, Execute\<close> (\<^verbatim>\<open>systemcalls.c\<close>, \<^verbatim>\<open>handlers.S\<close>, the drivers of \<^verbatim>\<open>filesystem.c\<close>): control blocks found from the stack pointer, the user page and the frames of the processes
    that are not mapped, descriptors, the eight system calls and their dispatch, starting a program and ending it. The locale \<open>slot_table\<close> is the contract
    of a table with a search for the first free slot; it is interpreted on the descriptor table (\<open>fds\<close>) and on the table of processes (\<open>pids\<close>).
  \<^item> \<^bold>\<open>Schedule\<close> (\<^verbatim>\<open>schedule.c\<close>, \<^verbatim>\<open>pit.c\<close>): the timer interrupt; runs of processes that take turns are an inductive relation (\<open>away\<close>), and a process finds its
    registers and its memory as it left them.
  \<^item> \<^bold>\<open>Interrupts\<close> (\<^verbatim>\<open>idt_init.c\<close>, \<^verbatim>\<open>x86_desc.h\<close>, \<^verbatim>\<open>handlers.S\<close>): the descriptor table, the exception handlers, which vector leads where and what a user program may call.
  \<^item> \<^bold>\<open>Boot\<close> (\<^verbatim>\<open>kernel.c\<close>, \<^verbatim>\<open>multiboot.h\<close>): \<open>entry\<close> from the boot loader to the idle loop, which brings all components into the state their theorems start from.
  \<^item> \<^bold>\<open>Start\<close> (\<^verbatim>\<open>boot.S\<close>, \<^verbatim>\<open>x86_desc.S\<close>): the Multiboot header, the code before \<open>entry\<close> and the global descriptor table, whose selectors select flat segments of ring 0 and ring 3.
  \<^item> \<^bold>\<open>Self_Tests\<close> (\<^verbatim>\<open>tests.c\<close>, \<^verbatim>\<open>debug.h\<close>): the kernel's own tests; each does what its comment says, those that provoke an exception included.
  \<^item> \<^bold>\<open>Call_Returns\<close>: every system call that neither starts nor ends a program nor waits for a device returns, whatever its arguments.
  \<^item> \<^bold>\<open>Kernel_Types, Kernel_Events\<close>: the type invariant of the whole kernel (\<open>kernel_typed\<close>: sizes of arrays, ranges of indices and process numbers, operation tables of
    descriptors). Booting establishes it and every event keeps it; the events are an inductive step relation (\<open>kernel_step\<close>) that goes through the interrupt table. So no
    call of a running process goes through a bad pointer.
  \<^item> \<^bold>\<open>User_Support, User_Programs\<close> (\<^verbatim>\<open>ece391support.c\<close>, \<^verbatim>\<open>ece391syscall.S\<close>, \<open>cat\<close>, \<open>ls\<close>, \<open>hello\<close>, \<open>counter\<close>, \<open>shell\<close>, \<open>testprint\<close>): the library and the programs, written over a record
    \<open>calls\<close> of the system calls; \<open>kernel_calls\<close> is that record for the kernel, through the trap gate. \<open>cat\<close> on the kernel prints the file it is given.
  \<^item> \<^bold>\<open>Listing\<close>: \<open>ls\<close> on the kernel prints the names of the directory, slot by slot.
  \<^item> \<^bold>\<open>User_Tests\<close> (\<^verbatim>\<open>ece391syserr.c\<close>): the program that tests the error behaviour of the calls; the kernel passes all its tests.
  \<^item> \<^bold>\<open>Sig_Test\<close> (\<^verbatim>\<open>ece391sigtest.c\<close>): the program that tests signals; this kernel has none, and its store through a null pointer ends in the page fault handler.
  \<^item> \<^bold>\<open>Blink, Fish\<close> (\<^verbatim>\<open>blink.S\<close>, \<^verbatim>\<open>fish.c\<close>): the linked list of blinking characters implements an abstract list; the program that fills it from two files.
  \<^item> \<^bold>\<open>Grep_Pingpong\<close> (\<^verbatim>\<open>ece391grep.c\<close>, \<^verbatim>\<open>ece391pingpong.c\<close>): the search of \<open>grep\<close> reports a line exactly when it contains the pattern; the line that \<open>pingpong\<close> prints.
  \<^item> \<^bold>\<open>Emulate\<close> (\<^verbatim>\<open>ece391emulate.c\<close>): the layer with which the programs run on Linux; Linux is a parameter (\<open>linux\<close>). The words of a command line arrive as the arguments of the
    program.

  The contracts that several operations share are locales with an interpretation on the model's definitions: \<open>copy_routine\<close> (\<open>memcpy\<close>, \<open>memmove\<close>, the copy loop of \<open>fish\<close>), \<open>char_sink\<close> (\<open>putc\<close>),
  \<open>slot_table\<close>, \<open>output_service\<close> and its extensions \<open>stream_service\<close> (a file read in pieces until its end) and \<open>listing_service\<close> (a directory read name by name), both interpreted on the
  kernel's calls for \<open>cat\<close> and \<open>ls\<close>, \<open>rejecting_calls\<close> (calls that refuse what the tests of
  \<open>syserr\<close> pass; interpreted on the kernel) and \<open>event_system\<close> (an invariant that every event keeps; interpreted on \<open>kernel_step\<close>). The invariants, refinements and round trips of each theory stand under its heading \<open>Properties\<close>, each with a concrete instance
  where it has hypotheses.

  \<^bold>\<open>Parameters.\<close> What the compiler and the linker decide is an argument: the stack addresses of local variables whose address is taken (\<open>locals\<close>), the places of the
  page tables (fields \<open>addr_pTable\<close> and so on), the addresses of handlers and descriptor tables (\<open>link\<close>). What happens during a wait (\<open>keys\<close>, \<open>ticks\<close>) is
  a list of events.

  \<^bold>\<open>Bounds.\<close> No model has fuel. Loops with a bound in the code are structural folds or have a termination proof; the others are partial functions with theorems that they return.

  \<^bold>\<open>Not modelled.\<close> The copies of programs that the kernel does not run (\<^verbatim>\<open>src/fish/ece391emulate.c\<close> is the same file as the one in \<^verbatim>\<open>src/syscalls\<close>), the tools that
  build the image and convert program files (\<^verbatim>\<open>createfs\<close>, \<^verbatim>\<open>elfconvert\<close>, binaries), and declarations without code. Interrupts are modelled where the code
  waits for them and between the steps of programs and calls; they are not interleaved with every instruction of the kernel.
\<close>

end
